(* ===== verification/Prelude.thy ===== *)
theory Prelude
  imports Main "HOL-Library.Word" "HOL-Library.Signed_Division" "HOL-Library.Sublist"
begin

text \<open>
  What every component of the development shares: the 32-bit \<open>int\<close> of the code with its
  wrap-around written out, the two-element arrays indexed by \<open>0\<close> and \<open>1\<close>
  (\<open>pair_id\<close> in \<open>tcp_proxy.cpp\<close>, the send/recv index in \<open>ip_proxy.cpp\<close>),
  the error codes of Boost.Asio that the handlers test, results that may be an error,
  and reachability in a step system with the locale that turns a one-step invariant into
  an invariant of every reachable state.
\<close>

named_theorems result_simps \<open>how a chain of fallible calls succeeds or fails\<close>
named_theorems i32_simps \<open>evaluation and bounds of the 32-bit wrap-around\<close>

type_synonym byte = "8 word"
type_synonym msec = int
  \<comment> \<open>\<open>msec_t\<close> is \<open>int64\<close>; milliseconds since 1970 stay far below \<open>2 ^ 62\<close>, so no wrap\<close>

section \<open>The 32-bit int\<close>

definition i32 :: "int \<Rightarrow> int" where
  "i32 x = (x + 2147483648) mod 4294967296 - 2147483648"

definition in_i32 :: "int \<Rightarrow> bool" where
  "in_i32 x \<longleftrightarrow> - 2147483648 \<le> x \<and> x < 2147483648"

lemma i32_id [i32_simps]: "in_i32 x \<Longrightarrow> i32 x = x"
  by (simp add: i32_def in_i32_def)

lemma in_i32_i32 [simp, i32_simps]: "in_i32 (i32 x)"
proof -
  have "0 \<le> (x + 2147483648) mod 4294967296" and "(x + 2147483648) mod 4294967296 < 4294967296"
    by simp_all
  then show ?thesis by (simp add: i32_def in_i32_def)
qed

lemma i32_idem [simp]: "i32 (i32 x) = i32 x"
  by (rule i32_id) simp

lemma i32_add_left: "i32 (i32 x + y) = i32 (x + y)"
proof -
  have "((x + 2147483648) mod 4294967296 + y) mod 4294967296 = (x + 2147483648 + y) mod 4294967296"
    by (rule mod_add_left_eq)
  then show ?thesis by (simp add: i32_def algebra_simps)
qed

lemma i32_diff_left: "i32 (i32 x - y) = i32 (x - y)"
  using i32_add_left [of x "- y"] by simp

lemma i32_sint: "i32 x = sint (word_of_int x :: 32 word)"
  by (simp add: i32_def int_word_sint)

section \<open>Arrays of two elements\<close>

datatype idx2 = I0 | I1

fun flip :: "idx2 \<Rightarrow> idx2" where
  "flip I0 = I1"
| "flip I1 = I0"

lemma flip_flip [simp]: "flip (flip p) = p"
  by (cases p) simp_all

lemma flip_neq [simp]: "flip p \<noteq> p" "p \<noteq> flip p"
  by (cases p; simp)+

lemma neq_flip: "p \<noteq> q \<longleftrightarrow> p = flip q"
  by (cases p; cases q) simp_all

lemma all_idx2: "(\<forall>p. P p) \<longleftrightarrow> P I0 \<and> P I1"
  by (metis idx2.exhaust)

lemma all_idx2_flip: "(\<forall>q. P q) \<longleftrightarrow> P p \<and> P (flip p)"
  by (cases p) (auto simp: all_idx2)

lemma idx2_upd_both [simp]: "f(I0 := v, I1 := v) = (\<lambda>_. v)"
  by (rule ext, rename_tac i, case_tac i) simp_all

lemma idx2_flip_cases [case_names same other]:
  assumes "q = p \<Longrightarrow> P" and "q = flip p \<Longrightarrow> P"
  shows P
  using assms by (cases p; cases q) simp_all

instantiation idx2 :: enum
begin

definition "enum_idx2 = [I0, I1]"
definition "enum_all_idx2 P \<longleftrightarrow> P I0 \<and> P I1"
definition "enum_ex_idx2 P \<longleftrightarrow> P I0 \<or> P I1"

instance
proof
  show "(UNIV :: idx2 set) = set enum_class.enum"
    using idx2.exhaust by (auto simp: enum_idx2_def)
  show "distinct (enum_class.enum :: idx2 list)"
    by (simp add: enum_idx2_def)
  show "enum_class.enum_all P = Ball UNIV P" for P :: "idx2 \<Rightarrow> bool"
    by (simp add: enum_all_idx2_def all_idx2)
  show "enum_class.enum_ex P = Bex UNIV P" for P :: "idx2 \<Rightarrow> bool"
    using all_idx2 [of "\<lambda>x. \<not> P x"] by (auto simp: enum_ex_idx2_def)
qed

end

section \<open>Error codes and results\<close>

text \<open>
  The values of \<open>boost::system::error_code\<close> that the handlers tell apart: success, the
  three codes they compare with, and any other one.
\<close>

datatype error_code =
    Success
  | Operation_aborted
  | Connection_refused
  | Connection_reset
  | Other_error

text \<open>What ends a call other than by returning.\<close>

datatype failure =
    Assert_failed            \<comment> \<open>\<open>XASSERT\<close> throws \<open>trackerr\<close>\<close>
  | Remote_endpoint_throws   \<comment> \<open>\<open>remote_endpoint()\<close> without an error code throws\<close>
  | Null_deref               \<comment> \<open>a null pointer is followed\<close>
  | Dangling_deref           \<comment> \<open>a pointer to a map entry that has been erased is followed\<close>
  | Out_of_bounds            \<comment> \<open>memory is accessed past the end of an array\<close>
  | Division_by_zero         \<comment> \<open>an integer division by zero traps\<close>
  | Runtime_error            \<comment> \<open>\<open>throw std::runtime_error\<close>\<close>

fun and_then :: "'e + 'a \<Rightarrow> ('a \<Rightarrow> 'e + 'b) \<Rightarrow> 'e + 'b" where
  "and_then (Inl e) f = Inl e"
| "and_then (Inr a) f = f a"

lemma and_then_Inr [result_simps]: "and_then x f = Inr b \<longleftrightarrow> (\<exists>a. x = Inr a \<and> f a = Inr b)"
  by (cases x) simp_all

lemma and_then_Inl [result_simps]:
  "and_then x f = Inl e \<longleftrightarrow> x = Inl e \<or> (\<exists>a. x = Inr a \<and> f a = Inl e)"
  by (cases x) simp_all

section \<open>Step systems\<close>

inductive reachable :: "('s \<Rightarrow> bool) \<Rightarrow> ('s \<Rightarrow> 's \<Rightarrow> bool) \<Rightarrow> 's \<Rightarrow> bool"
  for init :: "'s \<Rightarrow> bool" and step :: "'s \<Rightarrow> 's \<Rightarrow> bool" where
  reach_init: "init s \<Longrightarrow> reachable init step s"
| reach_step: "reachable init step s \<Longrightarrow> step s t \<Longrightarrow> reachable init step t"

text \<open>
  A component gives its initial states, its steps and a one-step invariant; it gets back
  the invariant in every reachable state and along every run of steps.
\<close>

locale step_invariant =
  fixes init :: "'s \<Rightarrow> bool"
    and step :: "'s \<Rightarrow> 's \<Rightarrow> bool"
    and inv :: "'s \<Rightarrow> bool"
  assumes inv_init: "init s \<Longrightarrow> inv s"
    and inv_step: "inv s \<Longrightarrow> step s t \<Longrightarrow> inv t"
begin

lemma reachable_inv: "reachable init step s \<Longrightarrow> inv s"
  by (induction rule: reachable.induct) (auto intro: inv_init inv_step)

lemma steps_inv: "step\<^sup>*\<^sup>* s t \<Longrightarrow> inv s \<Longrightarrow> inv t"
  by (induction rule: rtranclp_induct) (auto intro: inv_step)

end

lemma reachable_steps: "reachable init step s \<Longrightarrow> step\<^sup>*\<^sup>* s t \<Longrightarrow> reachable init step t"
  by (rotate_tac, induction rule: rtranclp_induct) (auto intro: reach_step)

end
