(* ===== verification/Std_Map.thy ===== *)
theory Std_Map
  imports Prelude
begin

text \<open>
  \<open>std::map\<close> as the code uses it: an association list kept in increasing key order, so
  that an iterator visits the entries in the order of the list. The locale
  \<open>key_store\<close> is the contract the components rely on (lookup after insert and erase, the
  keys visited), and it is interpreted on the sorted association list.
\<close>

type_synonym ('k, 'v) smap = "('k \<times> 'v) list"

section \<open>Operations\<close>

abbreviation smap_find :: "('k, 'v) smap \<Rightarrow> 'k \<Rightarrow> 'v option" where
  "smap_find \<equiv> map_of"

fun smap_put :: "'k::linorder \<Rightarrow> 'v \<Rightarrow> ('k, 'v) smap \<Rightarrow> ('k, 'v) smap" where
  "smap_put k v [] = [(k, v)]"
| "smap_put k v ((k', v') # m) =
     (if k < k' then (k, v) # (k', v') # m
      else if k = k' then (k, v) # m
      else (k', v') # smap_put k v m)"

fun smap_erase :: "'k \<Rightarrow> ('k, 'v) smap \<Rightarrow> ('k, 'v) smap" where
  "smap_erase k [] = []"
| "smap_erase k ((k', v') # m) = (if k = k' then m else (k', v') # smap_erase k m)"

definition smap_keys :: "('k, 'v) smap \<Rightarrow> 'k list" where
  "smap_keys m = map fst m"

definition smap_ok :: "('k::linorder, 'v) smap \<Rightarrow> bool" where
  "smap_ok m \<longleftrightarrow> sorted_wrt (<) (smap_keys m)"

text \<open>\<open>m.insert(first, last)\<close>: an entry whose key is present is not inserted.\<close>

fun smap_insert_all :: "('k::linorder, 'v) smap \<Rightarrow> ('k, 'v) smap \<Rightarrow> ('k, 'v) smap" where
  "smap_insert_all [] m = m"
| "smap_insert_all ((k, v) # es) m =
     smap_insert_all es (if smap_find m k = None then smap_put k v m else m)"

section \<open>The contract\<close>

locale key_store =
  fixes find :: "'m \<Rightarrow> 'k \<Rightarrow> 'v option"
    and put :: "'k \<Rightarrow> 'v \<Rightarrow> 'm \<Rightarrow> 'm"
    and erase :: "'k \<Rightarrow> 'm \<Rightarrow> 'm"
    and keys :: "'m \<Rightarrow> 'k list"
    and ok :: "'m \<Rightarrow> bool"
  assumes find_put: "ok m \<Longrightarrow> find (put k v m) = (find m)(k \<mapsto> v)"
    and find_erase: "ok m \<Longrightarrow> find (erase k m) = (find m)(k := None)"
    and set_keys: "ok m \<Longrightarrow> set (keys m) = dom (find m)"
    and distinct_keys: "ok m \<Longrightarrow> distinct (keys m)"
    and ok_put: "ok m \<Longrightarrow> ok (put k v m)"
    and ok_erase: "ok m \<Longrightarrow> ok (erase k m)"
begin

lemma find_put_same: "ok m \<Longrightarrow> find (put k v m) k = Some v"
  by (simp add: find_put)

lemma find_put_other: "ok m \<Longrightarrow> k' \<noteq> k \<Longrightarrow> find (put k v m) k' = find m k'"
  by (simp add: find_put)

lemma ok_fold_erase: "ok m \<Longrightarrow> ok (fold erase ks m)"
  by (induction ks arbitrary: m) (simp_all add: ok_erase)

lemma find_fold_erase:
  "ok m \<Longrightarrow> find (fold erase ks m) k = (if k \<in> set ks then None else find m k)"
  by (induction ks arbitrary: m) (auto simp: find_erase ok_erase)

lemma keys_put: "ok m \<Longrightarrow> set (keys (put k v m)) = insert k (set (keys m))"
  by (simp add: set_keys ok_put find_put)

end

section \<open>The sorted association list keeps it\<close>

lemma smap_keys_put: "set (smap_keys (smap_put k v m)) = insert k (set (smap_keys m))"
  by (induction k v m rule: smap_put.induct) (auto simp: smap_keys_def)

lemma smap_keys_erase: "set (smap_keys (smap_erase k m)) \<subseteq> set (smap_keys m)"
  by (induction m rule: smap_erase.induct) (auto simp: smap_keys_def)

lemma smap_ok_Nil [simp]: "smap_ok []"
  by (simp add: smap_ok_def smap_keys_def)

lemma smap_ok_Cons:
  "smap_ok ((k, v) # m) \<longleftrightarrow> smap_ok m \<and> (\<forall>k' \<in> set (smap_keys m). k < k')"
  by (auto simp: smap_ok_def smap_keys_def)

lemma smap_ok_put: "smap_ok m \<Longrightarrow> smap_ok (smap_put k v m)"
proof (induction k v m rule: smap_put.induct)
  case (2 k v k' v' m)
  then show ?case
    by (auto simp: smap_ok_Cons smap_keys_put) (auto simp: smap_keys_def)
qed (simp add: smap_ok_Cons smap_keys_def)

lemma smap_ok_erase: "smap_ok m \<Longrightarrow> smap_ok (smap_erase k m)"
proof (induction m rule: smap_erase.induct)
  case (2 k k' v' m)
  then show ?case using smap_keys_erase [of k m] by (auto simp: smap_ok_Cons)
qed simp

lemma smap_find_put: "smap_find (smap_put k v m) = (smap_find m)(k \<mapsto> v)"
  by (induction k v m rule: smap_put.induct) (auto simp: fun_eq_iff)

lemma smap_find_None: "k \<notin> set (smap_keys m) \<Longrightarrow> smap_find m k = None"
  by (simp add: smap_keys_def map_of_eq_None_iff)

lemma smap_find_erase: "smap_ok m \<Longrightarrow> smap_find (smap_erase k m) = (smap_find m)(k := None)"
proof (induction m rule: smap_erase.induct)
  case (2 k k' v' m)
  then have "k' \<notin> set (smap_keys m)" by (auto simp: smap_ok_Cons)
  with 2 show ?case by (auto simp: fun_eq_iff smap_ok_Cons smap_find_None)
qed simp

interpretation sm: key_store "smap_find :: ('k::linorder, 'v) smap \<Rightarrow> 'k \<Rightarrow> 'v option"
    smap_put smap_erase smap_keys smap_ok
proof
  fix m :: "('k, 'v) smap" and k :: 'k and v :: 'v
  show "smap_find (smap_put k v m) = (smap_find m)(k \<mapsto> v)" by (rule smap_find_put)
  assume ok: "smap_ok m"
  show "smap_find (smap_erase k m) = (smap_find m)(k := None)" using ok by (rule smap_find_erase)
  show "set (smap_keys m) = dom (smap_find m)" by (simp add: smap_keys_def dom_map_of_conv_image_fst)
  show "distinct (smap_keys m)" using ok by (simp add: smap_ok_def strict_sorted_iff)
  show "smap_ok (smap_put k v m)" using ok by (rule smap_ok_put)
  show "smap_ok (smap_erase k m)" using ok by (rule smap_ok_erase)
qed

text \<open>Replacing every value and filtering entries, as the loops over a map do.\<close>

lemma smap_ok_map_filter:
  assumes "smap_ok m"
  shows "smap_ok (map (\<lambda>(k, v). (k, f k v)) (filter Q m))"
  using assms by (induction m) (fastforce simp: smap_ok_Cons smap_keys_def)+

lemma smap_find_map_filter:
  assumes "smap_ok m"
  shows "smap_find (map (\<lambda>(k, v). (k, f k v)) (filter (\<lambda>(k, v). Q k v) m)) k =
         (case smap_find m k of None \<Rightarrow> None | Some v \<Rightarrow> if Q k v then Some (f k v) else None)"
  using assms
proof (induction m)
  case (Cons e m)
  obtain k' v' where e: "e = (k', v')" by force
  have "k' \<notin> set (smap_keys m)" using Cons.prems by (auto simp: e smap_ok_Cons)
  then have "smap_find m k' = None" by (rule smap_find_None)
  with Cons show ?case by (auto simp: e smap_ok_Cons)
qed simp

lemma smap_insert_all_ok: "smap_ok m \<Longrightarrow> smap_ok (smap_insert_all es m)"
  by (induction es m rule: smap_insert_all.induct) (auto simp: smap_ok_put)

lemma smap_find_insert_all:
  "smap_find (smap_insert_all es m) k =
     (case smap_find m k of Some v \<Rightarrow> Some v | None \<Rightarrow> smap_find es k)"
  by (induction es m rule: smap_insert_all.induct) (auto simp: smap_find_put split: option.splits)

end
