(* ===== verification/Net_Common.thy ===== *)
theory Net_Common
  imports Std_Map
begin

text \<open>
  The vocabulary of the proxy: \<open>common.h\<close> (sizes, overheads and the two rule structs),
  the endpoint of Boost.Asio that serves as a key of \<open>std::map\<close>, and the byte buffer of
  \<open>buffer.h\<close>. An address is a type variable with a linear order: Boost's \<open>address\<close>
  is compared and never inspected.
\<close>

section \<open>Constants (common.h)\<close>

definition UDP_BUFFER_SIZE :: nat where "UDP_BUFFER_SIZE = 1500"
definition TCP_BUFFER_SIZE :: nat where "TCP_BUFFER_SIZE = 4096"
definition MAX_UDP_MSG_QUEUE_SIZE :: nat where "MAX_UDP_MSG_QUEUE_SIZE = 50"
definition MAX_TCP_MSG_QUEUE_SIZE :: nat where "MAX_TCP_MSG_QUEUE_SIZE = 1"
definition UDP_PACKET_EXTRA_OVERHEAD :: int where "UDP_PACKET_EXTRA_OVERHEAD = 42"
definition TCP_PACKET_EXTRA_OVERHEAD :: int where "TCP_PACKET_EXTRA_OVERHEAD = 54"

lemmas size_defs = UDP_BUFFER_SIZE_def TCP_BUFFER_SIZE_def MAX_UDP_MSG_QUEUE_SIZE_def
  MAX_TCP_MSG_QUEUE_SIZE_def UDP_PACKET_EXTRA_OVERHEAD_def TCP_PACKET_EXTRA_OVERHEAD_def

section \<open>Endpoints\<close>

datatype 'a endpoint = Endpoint (ep_address: 'a) (ep_port: "16 word")

instantiation endpoint :: (linorder) linorder
begin

definition less_endpoint :: "'a endpoint \<Rightarrow> 'a endpoint \<Rightarrow> bool" where
  "less_endpoint e f \<longleftrightarrow> ep_address e < ep_address f \<or>
     (ep_address e = ep_address f \<and> ep_port e < ep_port f)"

definition less_eq_endpoint :: "'a endpoint \<Rightarrow> 'a endpoint \<Rightarrow> bool" where
  "less_eq_endpoint e f \<longleftrightarrow> e < f \<or> e = (f :: 'a endpoint)"

instance
proof
  fix x y z :: "'a endpoint"
  show "x < y \<longleftrightarrow> x \<le> y \<and> \<not> y \<le> x"
    by (auto simp: less_endpoint_def less_eq_endpoint_def)
  show "x \<le> x" by (simp add: less_eq_endpoint_def)
  show "x \<le> y \<Longrightarrow> y \<le> z \<Longrightarrow> x \<le> z"
    by (auto simp: less_endpoint_def less_eq_endpoint_def)
  show "x \<le> y \<Longrightarrow> y \<le> x \<Longrightarrow> x = y"
    by (auto simp: less_endpoint_def less_eq_endpoint_def)
  show "x \<le> y \<or> y \<le> x"
    by (cases x; cases y) (auto simp: less_endpoint_def less_eq_endpoint_def)
qed

end

section \<open>Forwarding rules (common.h)\<close>

record 'a tcp_rule =
  tr_src_port :: "16 word"
  tr_dst_endpoint :: "'a endpoint"
  tr_max_bandwidth :: int
  tr_delay_ms :: int

definition new_tcp_rule :: "16 word \<Rightarrow> 'a endpoint \<Rightarrow> 'a tcp_rule" where
  "new_tcp_rule src_port dst =
     \<lparr>tr_src_port = src_port, tr_dst_endpoint = dst, tr_max_bandwidth = 0, tr_delay_ms = 0\<rparr>"

record 'a udp_rule =
  ur_src_port :: "16 word"
  ur_dst_endpoint :: "'a endpoint"
  ur_max_bandwidth :: int
  ur_delay_ms :: int
  ur_drop_prob :: int

definition new_udp_rule :: "16 word \<Rightarrow> 'a endpoint \<Rightarrow> 'a udp_rule" where
  "new_udp_rule src_port dst =
     \<lparr>ur_src_port = src_port, ur_dst_endpoint = dst, ur_max_bandwidth = 0, ur_delay_ms = 0,
      ur_drop_prob = 0\<rparr>"

section \<open>Buffers (buffer.h)\<close>

text \<open>
  A buffer is a shared array (\<open>None\<close> for the empty \<open>shared_array\<close>) and a size that
  nothing ties to the length of the array. The bytes of a fresh array are indeterminate in
  C++; they are zero here, and no operation of the proxy reads them before a receive has
  written them. Copies of a \<open>Buffer\<close> share the array; the proxy never writes an array
  that a queued message holds, so values stand for the arrays.
\<close>

record buffer =
  bf_buf :: "byte list option"
  bf_size :: int

definition new_bytes :: "int \<Rightarrow> byte list" where
  "new_bytes n = replicate (nat n) 0"

definition buffer_empty :: buffer where
  "buffer_empty = \<lparr>bf_buf = None, bf_size = 0\<rparr>"

definition buffer_alloc :: "int \<Rightarrow> buffer" where
  "buffer_alloc n = \<lparr>bf_buf = Some (new_bytes n), bf_size = n\<rparr>"

definition buffer_share :: "byte list \<Rightarrow> int \<Rightarrow> buffer" where
  "buffer_share arr n = \<lparr>bf_buf = Some arr, bf_size = n\<rparr>"

text \<open>\<open>memcpy\<close> reads \<open>n\<close> bytes from the source array.\<close>

definition buffer_copy :: "byte list \<Rightarrow> int \<Rightarrow> failure + buffer" where
  "buffer_copy from n =
     (if int (length from) < n \<or> n < 0 then Inl Out_of_bounds
      else Inr \<lparr>bf_buf = Some (take (nat n) from), bf_size = n\<rparr>)"

definition buffer_resize :: "int \<Rightarrow> buffer \<Rightarrow> buffer" where
  "buffer_resize n b = b\<lparr>bf_size := n\<rparr>"

definition buffer_reset :: "int \<Rightarrow> buffer \<Rightarrow> buffer" where
  "buffer_reset n b =
     (if 0 < n then \<lparr>bf_buf = Some (new_bytes n), bf_size = n\<rparr>
      else \<lparr>bf_buf = None, bf_size = 0\<rparr>)"

definition buffer_get_size :: "buffer \<Rightarrow> int" where
  "buffer_get_size b = bf_size b"

definition buffer_bool :: "buffer \<Rightarrow> bool" where
  "buffer_bool b \<longleftrightarrow> bf_buf b \<noteq> None"

text \<open>
  What a send reads through \<open>boost::asio::buffer(b.get(), b.get_size())\<close>: the first
  \<open>get_size()\<close> bytes at \<open>get()\<close>, which lie in the array only when the size is at most
  its length.
\<close>

definition buffer_read :: "buffer \<Rightarrow> failure + byte list" where
  "buffer_read b =
     (case bf_buf b of
        None \<Rightarrow> if bf_size b = 0 then Inr [] else Inl Null_deref
      | Some arr \<Rightarrow>
          if 0 \<le> bf_size b \<and> bf_size b \<le> int (length arr) then Inr (take (nat (bf_size b)) arr)
          else Inl Out_of_bounds)"

definition buffer_ok :: "buffer \<Rightarrow> bool" where
  "buffer_ok b \<longleftrightarrow> (\<exists>bs. buffer_read b = Inr bs)"

definition buffer_view :: "buffer \<Rightarrow> byte list" where
  "buffer_view b = (case buffer_read b of Inl _ \<Rightarrow> [] | Inr bs \<Rightarrow> bs)"

lemma buffer_read_ok: "buffer_ok b \<Longrightarrow> buffer_read b = Inr (buffer_view b)"
  by (auto simp: buffer_ok_def buffer_view_def)

lemma buffer_share_ok: "0 \<le> n \<Longrightarrow> n \<le> int (length arr) \<Longrightarrow> buffer_ok (buffer_share arr n)"
  by (simp add: buffer_ok_def buffer_share_def buffer_read_def)

lemma buffer_share_view:
  "0 \<le> n \<Longrightarrow> n \<le> int (length arr) \<Longrightarrow> buffer_view (buffer_share arr n) = take (nat n) arr"
  by (simp add: buffer_view_def buffer_share_def buffer_read_def)

lemma buffer_copy_read:
  "buffer_copy from n = Inr b \<Longrightarrow> buffer_read b = Inr (take (nat n) from) \<and> buffer_get_size b = n"
  by (auto simp: buffer_copy_def buffer_read_def buffer_get_size_def split: if_splits)

lemma buffer_view_length: "buffer_ok b \<Longrightarrow> int (length (buffer_view b)) = buffer_get_size b"
  by (auto simp: buffer_ok_def buffer_view_def buffer_read_def buffer_get_size_def
      split: option.splits if_splits)

lemma buffer_resize_ok_iff:
  "buffer_ok (buffer_resize n (buffer_alloc c)) \<longleftrightarrow> 0 \<le> n \<and> n \<le> max 0 c"
  by (auto simp: buffer_ok_def buffer_resize_def buffer_alloc_def buffer_read_def new_bytes_def
      split: if_splits)

text \<open>
  The life of a receive buffer (\<open>buffer.h\<close>): after \<open>resize(n)\<close> a read of the
  buffer stays inside the allocated array exactly when \<open>n\<close> is between 0 and the
  allocated size, and then it yields the first \<open>n\<close> bytes received; any other size makes
  the next read run out of bounds.
\<close>

lemma buffer_resize_read:
  assumes "bf_buf b = Some arr"
  shows "buffer_read (buffer_resize n b) =
           (if 0 \<le> n \<and> n \<le> int (length arr) then Inr (take (nat n) arr) else Inl Out_of_bounds)"
  using assms by (simp add: buffer_read_def buffer_resize_def)

theorem buffer_resize_read_witness:
  "buffer_read (buffer_resize 2 (buffer_share [1, 2, 3] 3)) = Inr [1, 2] \<and>
   buffer_read (buffer_resize 5 (buffer_share [1, 2, 3] 3)) = Inl Out_of_bounds"
proof -
  have h: "bf_buf (buffer_share [1, 2, 3] 3) = Some [1, 2, 3]" by (simp add: buffer_share_def)
  show ?thesis
    using buffer_resize_read [OF h, of 2] buffer_resize_read [OF h, of 5] by (simp add: eval_nat_numeral)
qed

end
