(* ===== verification/Token_Bucket.thy ===== *)
theory Token_Bucket
  imports Prelude
begin

text \<open>
  The byte allowance that limits the bandwidth appears three times in the code: per
  connection direction (\<open>available_bytes_pair\<close> in \<open>tcp_proxy.cpp\<close>), per UDP endpoint
  (\<open>recv_avail_bytes\<close>, \<open>send_avail_bytes\<close> in \<open>udp_proxy.cpp\<close>) and per client address
  (\<open>avail_bytes\<close> in \<open>ip_proxy.cpp\<close>). Each is topped up only while it is negative and
  pays for a packet only while it is not negative. This theory states that contract over
  unbounded integers, proves once how many bytes it lets through, and gives the locale
  that each of the three is an interpretation of.
\<close>

section \<open>The specification\<close>

definition bucket_refill :: "int \<Rightarrow> int \<Rightarrow> int" where
  "bucket_refill n a = (if a < 0 then a + n else a)"

definition bucket_pay :: "int \<Rightarrow> int \<Rightarrow> int option" where
  "bucket_pay c a = (if 0 \<le> a then Some (a - c) else None)"

datatype bucket_op = Refill int | Pay int

text \<open>A run of the bucket: the allowance at the end and the bytes paid for.\<close>

fun bucket_run :: "int \<Rightarrow> bucket_op list \<Rightarrow> int \<times> int" where
  "bucket_run a [] = (a, 0)"
| "bucket_run a (Refill n # os) = bucket_run (bucket_refill n a) os"
| "bucket_run a (Pay c # os) =
     (case bucket_pay c a of
        None \<Rightarrow> bucket_run a os
      | Some a' \<Rightarrow> (let (b, t) = bucket_run a' os in (b, c + t)))"

fun refills :: "bucket_op list \<Rightarrow> int" where
  "refills [] = 0"
| "refills (Refill n # os) = n + refills os"
| "refills (Pay c # os) = refills os"

fun ops_within :: "int \<Rightarrow> int \<Rightarrow> bucket_op list \<Rightarrow> bool" where
  "ops_within N M [] = True"
| "ops_within N M (Refill n # os) = (0 \<le> n \<and> n \<le> N \<and> ops_within N M os)"
| "ops_within N M (Pay c # os) = (0 \<le> c \<and> c \<le> M \<and> ops_within N M os)"

lemma refills_nonneg: "ops_within N M os \<Longrightarrow> 0 \<le> refills os"
  by (induction os rule: refills.induct) auto

lemma bucket_run_balance:
  "ops_within N M os \<Longrightarrow> fst (bucket_run a os) + snd (bucket_run a os) \<le> a + refills os"
  by (induction a os rule: bucket_run.induct)
     (auto simp: bucket_refill_def bucket_pay_def split: option.splits prod.splits)

lemma bucket_run_floor:
  "ops_within N M os \<Longrightarrow> - M \<le> a \<Longrightarrow> 0 \<le> M \<Longrightarrow> - M \<le> fst (bucket_run a os)"
  by (induction a os rule: bucket_run.induct)
     (auto simp: bucket_refill_def bucket_pay_def split: option.splits prod.splits)

lemma bucket_run_ceiling:
  "ops_within N M os \<Longrightarrow> a \<le> N \<Longrightarrow> fst (bucket_run a os) \<le> N"
  by (induction a os rule: bucket_run.induct)
     (auto simp: bucket_refill_def bucket_pay_def split: option.splits prod.splits)

text \<open>
  The bandwidth bound: what is paid for is at most the allowance at the start, all the
  refills and one packet.
\<close>

lemma bucket_run_rate:
  assumes "ops_within N M os" and "- M \<le> a" and "0 \<le> M"
  shows "snd (bucket_run a os) \<le> a + refills os + M"
  using bucket_run_balance [OF assms(1), of a] bucket_run_floor [OF assms] by linarith

section \<open>The locale\<close>

text \<open>
  An implementation: a state with an allowance that stays in the range of \<open>int\<close>, an
  operation that tops it up and one that pays. Refills up to \<open>N\<close> and packets up to
  \<open>M\<close> bytes must not leave the range.
\<close>

locale token_bucket =
  fixes avail :: "'s \<Rightarrow> int"
    and refill :: "int \<Rightarrow> 's \<Rightarrow> 's"
    and pay :: "int \<Rightarrow> 's \<Rightarrow> 's option"
    and ok :: "'s \<Rightarrow> bool"
    and N :: int
    and M :: int
  assumes refill_avail: "ok s \<Longrightarrow> 0 \<le> n \<Longrightarrow> n \<le> N \<Longrightarrow> avail (refill n s) = bucket_refill n (avail s)"
    and pay_avail: "ok s \<Longrightarrow> 0 \<le> c \<Longrightarrow> c \<le> M \<Longrightarrow> map_option avail (pay c s) = bucket_pay c (avail s)"
    and refill_ok: "ok s \<Longrightarrow> 0 \<le> n \<Longrightarrow> n \<le> N \<Longrightarrow> ok (refill n s)"
    and pay_ok: "ok s \<Longrightarrow> 0 \<le> c \<Longrightarrow> c \<le> M \<Longrightarrow> pay c s = Some t \<Longrightarrow> ok t"
    and M_nonneg: "0 \<le> M"
begin

fun run :: "'s \<Rightarrow> bucket_op list \<Rightarrow> 's \<times> int" where
  "run s [] = (s, 0)"
| "run s (Refill n # os) = run (refill n s) os"
| "run s (Pay c # os) =
     (case pay c s of
        None \<Rightarrow> run s os
      | Some s' \<Rightarrow> (let (t, k) = run s' os in (t, c + k)))"

lemma run_refines:
  "ok s \<Longrightarrow> ops_within N M os \<Longrightarrow>
     (avail (fst (run s os)), snd (run s os)) = bucket_run (avail s) os \<and> ok (fst (run s os))"
proof (induction s os rule: run.induct)
  case (1 s)
  then show ?case by simp
next
  case (2 s n os)
  then show ?case by (simp add: refill_ok refill_avail)
next
  case (3 s c os)
  then have "map_option avail (pay c s) = bucket_pay c (avail s)"
    using pay_avail by simp
  then have "bucket_pay c (avail s) = map_option avail (pay c s)" by (rule sym)
  with 3 pay_ok [of s c] show ?case
    by (cases "pay c s") (auto split: prod.splits simp: prod_eq_iff)
qed

lemma run_rate:
  assumes "ok s" and "ops_within N M os" and "- M \<le> avail s"
  shows "snd (run s os) \<le> avail s + refills os + M"
  using bucket_run_rate [OF assms(2,3) M_nonneg] run_refines [OF assms(1,2)]
  by (metis snd_conv)

lemma run_floor:
  assumes "ok s" and "ops_within N M os" and "- M \<le> avail s"
  shows "- M \<le> avail (fst (run s os))"
  using bucket_run_floor [OF assms(2,3) M_nonneg] run_refines [OF assms(1,2)]
  by (metis fst_conv)

end

end
