(* ===== verification/Ip_Proxy.thy ===== *)
theory Ip_Proxy
  imports Net_Common Token_Bucket "HOL-Library.Multiset"
begin

text \<open>
  \<open>ip_proxy.h\<close> and \<open>ip_proxy.cpp\<close>: the table of client addresses with their byte
  allowances, reference counted by the TCP connections and UDP endpoints that hold a
  pointer into it, and the routine thread that tops the allowances up and erases entries
  that nobody holds. A pointer \<open>IPProxy*\<close> is the key of its entry (\<open>None\<close> for
  \<open>NULL\<close>); following it fails when the entry is gone.
\<close>

section \<open>State\<close>

record ip_proxy =
  ip_avail_bytes :: "idx2 \<Rightarrow> int"   \<comment> \<open>\<open>I0\<close>: send, \<open>I1\<close>: receive\<close>
  ip_ref_cnt :: int

record 'a ip_proxies =
  ipx_addrs :: "('a, ip_proxy) smap"
  ipx_threads :: nat               \<comment> \<open>threads in \<open>grp\<close>\<close>
  ipx_bandwidth :: "idx2 \<Rightarrow> int"

definition new_ip_proxy :: ip_proxy where
  "new_ip_proxy = \<lparr>ip_avail_bytes = (\<lambda>_. 0), ip_ref_cnt = 0\<rparr>"

definition new_ip_proxies :: "'a ip_proxies" where
  "new_ip_proxies = \<lparr>ipx_addrs = [], ipx_threads = 0, ipx_bandwidth = (\<lambda>_. 0)\<rparr>"

section \<open>Operations\<close>

definition ip_start :: "int \<Rightarrow> int \<Rightarrow> 'a ip_proxies \<Rightarrow> 'a ip_proxies" where
  "ip_start send_bandwidth recv_bandwidth x =
     (let x = x\<lparr>ipx_bandwidth := (ipx_bandwidth x)(I0 := send_bandwidth, I1 := recv_bandwidth)\<rparr>
      in if 0 < ipx_bandwidth x I0 \<or> 0 < ipx_bandwidth x I1
         then x\<lparr>ipx_threads := Suc (ipx_threads x)\<rparr> else x)"

definition getIPProxy :: "'a::linorder \<Rightarrow> 'a ip_proxies \<Rightarrow> 'a option \<times> 'a ip_proxies" where
  "getIPProxy a x =
     (if ipx_bandwidth x I0 = 0 \<and> ipx_bandwidth x I1 = 0 then (None, x)
      else
        let p = (case smap_find (ipx_addrs x) a of None \<Rightarrow> new_ip_proxy | Some p \<Rightarrow> p);
            p = p\<lparr>ip_ref_cnt := i32 (ip_ref_cnt p + 1)\<rparr>
        in (Some a, x\<lparr>ipx_addrs := smap_put a p (ipx_addrs x)\<rparr>))"

text \<open>The destructors \<open>~TcpConnection\<close> and \<open>~UdpEndpointProxy\<close>.\<close>

definition ip_release :: "'a::linorder option \<Rightarrow> 'a ip_proxies \<Rightarrow> failure + 'a ip_proxies" where
  "ip_release client_ip x =
     (case client_ip of
        None \<Rightarrow> Inr x
      | Some a \<Rightarrow>
          (case smap_find (ipx_addrs x) a of
             None \<Rightarrow> Inl Dangling_deref
           | Some p \<Rightarrow> Inr (x\<lparr>ipx_addrs :=
               smap_put a (p\<lparr>ip_ref_cnt := i32 (ip_ref_cnt p - 1)\<rparr>) (ipx_addrs x)\<rparr>)))"

text \<open>
  Paying for a packet out of the allowance of the client address: the block that
  \<open>TcpConnection::handleWrite\<close> and the UDP routine run under \<open>ip_proxies.bandwidth[i] > 0\<close>.
  \<open>True\<close> when the packet may go.
\<close>

definition ip_pay_entry :: "idx2 \<Rightarrow> int \<Rightarrow> ip_proxy \<Rightarrow> ip_proxy option" where
  "ip_pay_entry i cost p =
     (if 0 \<le> ip_avail_bytes p i
      then Some (p\<lparr>ip_avail_bytes := (ip_avail_bytes p)(i := i32 (ip_avail_bytes p i - cost))\<rparr>)
      else None)"

definition ip_pay :: "idx2 \<Rightarrow> int \<Rightarrow> 'a::linorder option \<Rightarrow> 'a ip_proxies \<Rightarrow> failure + (bool \<times> 'a ip_proxies)" where
  "ip_pay i cost client_ip x =
     (if ipx_bandwidth x i \<le> 0 then Inr (True, x)
      else
        case client_ip of
          None \<Rightarrow> Inl Null_deref
        | Some a \<Rightarrow>
            (case smap_find (ipx_addrs x) a of
               None \<Rightarrow> Inl Dangling_deref
             | Some p \<Rightarrow>
                 (case ip_pay_entry i cost p of
                    None \<Rightarrow> Inr (False, x)
                  | Some p' \<Rightarrow> Inr (True, x\<lparr>ipx_addrs := smap_put a p' (ipx_addrs x)\<rparr>))))"

text \<open>One pass of the loop of \<open>routineThreadHandler\<close>; \<open>now\<close> is the clock read in it.\<close>

definition ip_bytes :: "'a ip_proxies \<Rightarrow> int \<Rightarrow> idx2 \<Rightarrow> int" where
  "ip_bytes x interval i = i32 (i32 (interval * ipx_bandwidth x i) sdiv 1000)"

definition ip_refill_entry :: "(idx2 \<Rightarrow> int) \<Rightarrow> ip_proxy \<Rightarrow> ip_proxy" where
  "ip_refill_entry bytes p =
     p\<lparr>ip_avail_bytes := (\<lambda>i. if ip_avail_bytes p i < 0
        then i32 (ip_avail_bytes p i + bytes i) else ip_avail_bytes p i)\<rparr>"

definition ip_tick :: "msec \<Rightarrow> msec \<Rightarrow> 'a::linorder ip_proxies \<Rightarrow> msec \<times> 'a ip_proxies" where
  "ip_tick now last_flush_tm x =
     (let interval = i32 (now - last_flush_tm) in
      if interval \<le> 0 then (last_flush_tm, x)
      else
        let bytes = ip_bytes x interval;
            delete_proies = map fst (filter (\<lambda>(a, p). ip_ref_cnt p \<le> 0) (ipx_addrs x));
            addrs = map (\<lambda>(a, p). (a, if ip_ref_cnt p \<le> 0 then p else ip_refill_entry bytes p))
                      (ipx_addrs x)
        in (now, x\<lparr>ipx_addrs := fold smap_erase delete_proies addrs\<rparr>))"

text \<open>
  The thread: one pass per clock reading until \<open>args.running_flag\<close> is cleared, which is
  the end of the list of readings.
\<close>

fun ip_routine :: "msec list \<Rightarrow> msec \<Rightarrow> 'a::linorder ip_proxies \<Rightarrow> msec \<times> 'a ip_proxies" where
  "ip_routine [] last_flush_tm x = (last_flush_tm, x)"
| "ip_routine (now # nows) last_flush_tm x =
     (let (t, x) = ip_tick now last_flush_tm x in ip_routine nows t x)"

section \<open>What the operations do to the table\<close>

definition ipx_ok :: "'a::linorder ip_proxies \<Rightarrow> bool" where
  "ipx_ok x \<longleftrightarrow> smap_ok (ipx_addrs x)"

abbreviation ip_lookup :: "'a ip_proxies \<Rightarrow> 'a \<Rightarrow> ip_proxy option" where
  "ip_lookup x \<equiv> smap_find (ipx_addrs x)"

lemma new_ip_proxies_ok [simp]: "ipx_ok new_ip_proxies"
  by (simp add: ipx_ok_def new_ip_proxies_def)

lemma ip_lookup_new [simp]: "ip_lookup new_ip_proxies a = None"
  by (simp add: new_ip_proxies_def)

lemma getIPProxy_ok: "ipx_ok x \<Longrightarrow> ipx_ok (snd (getIPProxy a x))"
  by (simp add: getIPProxy_def ipx_ok_def Let_def sm.ok_put)

lemma getIPProxy_bandwidth [simp]: "ipx_bandwidth (snd (getIPProxy a x)) = ipx_bandwidth x"
  by (simp add: getIPProxy_def Let_def)

lemma getIPProxy_fst:
  "fst (getIPProxy a x) = (if ipx_bandwidth x I0 = 0 \<and> ipx_bandwidth x I1 = 0 then None else Some a)"
  by (simp add: getIPProxy_def Let_def)

lemma getIPProxy_lookup:
  assumes "fst (getIPProxy a x) = Some a"
  shows "ip_lookup (snd (getIPProxy a x)) =
    (ip_lookup x)(a \<mapsto> (case ip_lookup x a of None \<Rightarrow> new_ip_proxy | Some p \<Rightarrow> p)
       \<lparr>ip_ref_cnt := i32 ((case ip_lookup x a of None \<Rightarrow> 0 | Some p \<Rightarrow> ip_ref_cnt p) + 1)\<rparr>)"
  using assms
  by (auto simp: getIPProxy_def Let_def smap_find_put new_ip_proxy_def split: if_splits option.splits)

lemma ip_release_ok: "ip_release c x = Inr y \<Longrightarrow> ipx_ok x \<Longrightarrow> ipx_ok y"
  by (auto simp: ip_release_def ipx_ok_def sm.ok_put split: option.splits)

lemma ip_release_bandwidth: "ip_release c x = Inr y \<Longrightarrow> ipx_bandwidth y = ipx_bandwidth x"
  by (auto simp: ip_release_def split: option.splits)

lemma ip_pay_ok: "ip_pay i c p x = Inr (b, y) \<Longrightarrow> ipx_ok x \<Longrightarrow> ipx_ok y"
  by (auto simp: ip_pay_def ipx_ok_def sm.ok_put split: option.splits if_splits)

lemma ip_pay_bandwidth: "ip_pay i c p x = Inr (b, y) \<Longrightarrow> ipx_bandwidth y = ipx_bandwidth x"
  by (auto simp: ip_pay_def split: option.splits if_splits)

lemma ip_pay_ref_cnt:
  "ip_pay i c p x = Inr (b, y) \<Longrightarrow>
     map_option ip_ref_cnt (ip_lookup y a) = map_option ip_ref_cnt (ip_lookup x a)"
  by (auto simp: ip_pay_def ip_pay_entry_def smap_find_put split: option.splits if_splits)

lemma ip_tick_bandwidth [simp]: "ipx_bandwidth (snd (ip_tick now t0 x)) = ipx_bandwidth x"
  by (simp add: ip_tick_def Let_def)

lemma smap_keys_map_same: "smap_keys (map (\<lambda>(k, v). (k, f k v)) m) = smap_keys m"
  by (induction m) (auto simp: smap_keys_def)

lemma smap_ok_map_same: "smap_ok m \<Longrightarrow> smap_ok (map (\<lambda>(k, v). (k, f k v)) m)"
  by (simp add: smap_ok_def smap_keys_map_same)

lemma smap_find_map_same:
  "smap_find (map (\<lambda>(k, v). (k, f k v)) m) k = map_option (f k) (smap_find m k)"
  by (induction m) auto

lemma ip_tick_ok: "ipx_ok x \<Longrightarrow> ipx_ok (snd (ip_tick now t0 x))"
  by (simp add: ip_tick_def ipx_ok_def Let_def sm.ok_fold_erase smap_ok_map_same)

lemma dead_keys:
  assumes "smap_ok m"
  shows "a \<in> set (map fst (filter (\<lambda>(a, p). Q p) m)) \<longleftrightarrow> (\<exists>p. smap_find m a = Some p \<and> Q p)"
proof -
  have "distinct (map fst m)" using sm.distinct_keys [OF assms] by (simp add: smap_keys_def)
  then show ?thesis by (force simp: map_of_eq_Some_iff)
qed

lemma ip_tick_stay: "\<not> 0 < i32 (now - t0) \<Longrightarrow> ip_tick now t0 x = (t0, x)"
  by (simp add: ip_tick_def Let_def)

text \<open>What a pass does to an entry: erased when nobody holds it, topped up otherwise.\<close>

lemma ip_tick_lookup:
  assumes "ipx_ok x" and "0 < i32 (now - t0)"
  shows "ip_lookup (snd (ip_tick now t0 x)) a =
    (case ip_lookup x a of None \<Rightarrow> None
     | Some p \<Rightarrow> if ip_ref_cnt p \<le> 0 then None
                 else Some (ip_refill_entry (ip_bytes x (i32 (now - t0))) p))"
proof -
  have ok: "smap_ok (ipx_addrs x)" using assms(1) by (simp add: ipx_ok_def)
  have eq: "(\<lambda>(a, p). (a, if ip_ref_cnt p \<le> 0 then p else ip_refill_entry b p)) =
      (\<lambda>(a, p). (a, (\<lambda>_ p. if ip_ref_cnt p \<le> 0 then p else ip_refill_entry b p) a p))" for b
    by auto
  show ?thesis
    using assms(2) dead_keys [OF ok, of a "\<lambda>p. ip_ref_cnt p \<le> 0"]
    by (auto simp: ip_tick_def Let_def sm.find_fold_erase [OF smap_ok_map_same [OF ok]]
        smap_find_map_same split: option.splits)
qed

text \<open>The members of the entries are \<open>int\<close>s.\<close>

definition ip_typed :: "'a ip_proxies \<Rightarrow> bool" where
  "ip_typed x \<longleftrightarrow> (\<forall>a p. ip_lookup x a = Some p \<longrightarrow> in_i32 (ip_ref_cnt p) \<and> (\<forall>i. in_i32 (ip_avail_bytes p i)))"

lemma ip_typed_get:
  assumes "ip_typed x" and "getIPProxy a x = (c, y)"
  shows "ip_typed y"
proof -
  define p where "p = (case ip_lookup x a of None \<Rightarrow> new_ip_proxy | Some p \<Rightarrow> p)"
  have "in_i32 (ip_avail_bytes p i)" for i
    using assms(1) by (auto simp: p_def ip_typed_def new_ip_proxy_def in_i32_def split: option.split)
  then show ?thesis
    using assms by (auto simp: ip_typed_def getIPProxy_def Let_def p_def [symmetric] smap_find_put split: if_splits)
qed

lemma ip_typed_release: "ip_typed x \<Longrightarrow> ip_release c x = Inr y \<Longrightarrow> ip_typed y"
  by (auto simp: ip_typed_def ip_release_def smap_find_put split: option.splits if_splits)

lemma ip_typed_pay: "ip_typed x \<Longrightarrow> ip_pay i cost c x = Inr (go, y) \<Longrightarrow> ip_typed y"
  by (auto simp: ip_typed_def ip_pay_def ip_pay_entry_def smap_find_put split: option.splits if_splits)

lemma ip_typed_tick: "ipx_ok x \<Longrightarrow> ip_typed x \<Longrightarrow> ip_typed (snd (ip_tick now t0 x))"
proof (cases "0 < i32 (now - t0)")
  case False
  then show "ip_typed x \<Longrightarrow> ip_typed (snd (ip_tick now t0 x))" by (simp add: ip_tick_stay)
next
  case True
  then show "ipx_ok x \<Longrightarrow> ip_typed x \<Longrightarrow> ip_typed (snd (ip_tick now t0 x))"
    by (auto simp: ip_typed_def ip_tick_lookup ip_refill_entry_def split: option.splits if_splits)
qed

end
