(* ===== verification/Ip_Proxy_Props.thy ===== *)
theory Ip_Proxy_Props
  imports Ip_Proxy
begin

text \<open>
  What makes the table of client addresses correct: the reference counts keep every held
  entry alive (a step system over the table and its holders), the allowance of an entry is
  a token bucket, and the bandwidth of a client address is bounded over any run of ticks
  and packets. The amount added by a tick is a 32-bit product, exact up to \<open>2 ^ 31\<close>.
\<close>

section \<open>Reference counts\<close>

text \<open>
  The holders are the live \<open>TcpConnection\<close>s and \<open>UdpEndpointProxy\<close>s, as a multiset of
  the addresses they point to. A step is one operation under the locks of the code.
\<close>

record 'a ip_world =
  iw_x :: "'a ip_proxies"
  iw_held :: "'a multiset"
  iw_last :: msec

definition ip_world_init :: "'a::linorder ip_world \<Rightarrow> bool" where
  "ip_world_init w \<longleftrightarrow> iw_x w = new_ip_proxies \<and> iw_held w = {#}"

inductive ip_step :: "'a::linorder ip_world \<Rightarrow> 'a ip_world \<Rightarrow> bool" where
  start: "ip_step w (w\<lparr>iw_x := ip_start s r (iw_x w)\<rparr>)"
| acquire: "size (iw_held w) < 2147483647 \<Longrightarrow> getIPProxy a (iw_x w) = (c, x) \<Longrightarrow>
     ip_step w (w\<lparr>iw_x := x, iw_held := iw_held w + (case c of None \<Rightarrow> {#} | Some b \<Rightarrow> {#b#})\<rparr>)"
| release: "a \<in># iw_held w \<Longrightarrow> ip_release (Some a) (iw_x w) = Inr x \<Longrightarrow>
     ip_step w (w\<lparr>iw_x := x, iw_held := iw_held w - {#a#}\<rparr>)"
| pay: "a \<in># iw_held w \<Longrightarrow> ip_pay i cost (Some a) (iw_x w) = Inr (b, x) \<Longrightarrow>
     ip_step w (w\<lparr>iw_x := x\<rparr>)"
| tick: "ip_tick now (iw_last w) (iw_x w) = (t, x) \<Longrightarrow>
     ip_step w (w\<lparr>iw_x := x, iw_last := t\<rparr>)"

definition ip_inv :: "'a::linorder ip_world \<Rightarrow> bool" where
  "ip_inv w \<longleftrightarrow> ipx_ok (iw_x w) \<and> size (iw_held w) < 2147483648 \<and>
     (\<forall>a. (case ip_lookup (iw_x w) a of None \<Rightarrow> 0 | Some p \<Rightarrow> ip_ref_cnt p) = int (count (iw_held w) a))"

lemma ip_inv_count:
  "ip_inv w \<Longrightarrow> (case ip_lookup (iw_x w) a of None \<Rightarrow> 0 | Some p \<Rightarrow> ip_ref_cnt p) = int (count (iw_held w) a)"
  by (simp add: ip_inv_def)

lemma ip_inv_held:
  assumes "ip_inv w" and "a \<in># iw_held w"
  obtains p where "ip_lookup (iw_x w) a = Some p" and "ip_ref_cnt p = int (count (iw_held w) a)"
    and "0 < ip_ref_cnt p"
proof -
  have pos: "count (iw_held w) a \<noteq> 0" using assms(2) by (simp add: not_in_iff)
  show thesis
  proof (cases "ip_lookup (iw_x w) a")
    case None
    with ip_inv_count [OF assms(1), of a] pos show thesis by simp
  next
    case (Some p)
    with ip_inv_count [OF assms(1), of a] pos that show thesis by simp
  qed
qed

lemma ip_inv_init: "ip_world_init w \<Longrightarrow> ip_inv w"
  by (simp add: ip_world_init_def ip_inv_def)

lemma ip_start_lookup [simp]: "ipx_addrs (ip_start s r x) = ipx_addrs x"
  by (simp add: ip_start_def Let_def)

lemma count_bound: "size M < n \<Longrightarrow> count M a < n"
  using count_le_size [of M a] by linarith

lemma ip_inv_acquire:
  assumes inv: "ip_inv w" and room: "size (iw_held w) < 2147483647"
    and get: "getIPProxy a (iw_x w) = (c, x)"
  shows "ip_inv (w\<lparr>iw_x := x, iw_held := iw_held w + (case c of None \<Rightarrow> {#} | Some b \<Rightarrow> {#b#})\<rparr>)"
proof (cases "ipx_bandwidth (iw_x w) I0 = 0 \<and> ipx_bandwidth (iw_x w) I1 = 0")
  case True
  with inv get show ?thesis by (auto simp: getIPProxy_def ip_inv_def)
next
  case False
  then have c: "c = Some a" and get': "fst (getIPProxy a (iw_x w)) = Some a"
    using get getIPProxy_fst [of a "iw_x w"] by (auto simp: split: if_splits)
  have x: "x = snd (getIPProxy a (iw_x w))" using get by simp
  have ok: "ipx_ok x" using inv x by (simp add: ip_inv_def getIPProxy_ok)
  have "count (iw_held w) a < 2147483647" using room by (rule count_bound)
  then have "i32 (int (count (iw_held w) a) + 1) = int (count (iw_held w) a) + 1"
    by (intro i32_id) (simp add: in_i32_def)
  with inv ok room show ?thesis
    by (auto simp: ip_inv_def x c getIPProxy_lookup [OF get'])
qed

lemma ip_inv_release:
  assumes inv: "ip_inv w" and held: "a \<in># iw_held w"
    and rel: "ip_release (Some a) (iw_x w) = Inr x"
  shows "ip_inv (w\<lparr>iw_x := x, iw_held := iw_held w - {#a#}\<rparr>)"
proof -
  obtain p where p: "ip_lookup (iw_x w) a = Some p" "ip_ref_cnt p = int (count (iw_held w) a)"
    "0 < ip_ref_cnt p"
    using inv held by (rule ip_inv_held)
  have size: "size (iw_held w) < 2147483648" and ok: "ipx_ok (iw_x w)"
    using inv by (simp_all add: ip_inv_def)
  have "count (iw_held w) a < 2147483648" using size by (rule count_bound)
  then have "i32 (ip_ref_cnt p - 1) = ip_ref_cnt p - 1"
    using p by (intro i32_id) (simp add: in_i32_def)
  moreover have "size (iw_held w - {#a#}) < 2147483648" using held size by (simp add: size_Diff_singleton)
  ultimately show ?thesis
    using inv p rel ip_release_ok [OF rel ok]
    by (auto simp: ip_inv_def ip_release_def smap_find_put)
qed

lemma ip_inv_pay:
  assumes inv: "ip_inv w" and pay: "ip_pay i cost (Some a) (iw_x w) = Inr (b, x)"
  shows "ip_inv (w\<lparr>iw_x := x\<rparr>)"
proof -
  have "(case ip_lookup x d of None \<Rightarrow> 0 | Some p \<Rightarrow> ip_ref_cnt p) =
        (case ip_lookup (iw_x w) d of None \<Rightarrow> 0 | Some p \<Rightarrow> ip_ref_cnt p)" for d
    using ip_pay_ref_cnt [OF pay, of d] by (auto split: option.splits)
  with inv ip_pay_ok [OF pay] show ?thesis by (simp add: ip_inv_def)
qed

lemma ip_inv_tick:
  assumes inv: "ip_inv w" and tick: "ip_tick now (iw_last w) (iw_x w) = (t, x)"
  shows "ip_inv (w\<lparr>iw_x := x, iw_last := t\<rparr>)"
proof (cases "0 < i32 (now - iw_last w)")
  case False
  with inv tick show ?thesis by (simp add: ip_tick_stay ip_inv_def)
next
  case True
  have ok: "ipx_ok (iw_x w)" using inv by (simp add: ip_inv_def)
  have x: "x = snd (ip_tick now (iw_last w) (iw_x w))" using tick by simp
  have "(case ip_lookup x a of None \<Rightarrow> 0 | Some p \<Rightarrow> ip_ref_cnt p) = int (count (iw_held w) a)" for a
    using ip_inv_count [OF inv, of a]
    by (auto simp: x ip_tick_lookup [OF ok True] ip_refill_entry_def split: option.splits)
  with inv ip_tick_ok [OF ok] show ?thesis by (simp add: ip_inv_def x)
qed

lemma ip_inv_start: "ip_inv w \<Longrightarrow> ip_inv (w\<lparr>iw_x := ip_start s r (iw_x w)\<rparr>)"
  by (simp add: ip_inv_def ipx_ok_def)

lemma ip_inv_step:
  assumes "ip_inv w" and "ip_step w w'"
  shows "ip_inv w'"
  using assms(2,1)
  by cases (blast intro: ip_inv_start ip_inv_acquire ip_inv_release ip_inv_pay ip_inv_tick)+

interpretation ipw: step_invariant "ip_world_init :: 'a::linorder ip_world \<Rightarrow> bool" ip_step ip_inv
  by unfold_locales (fact ip_inv_init, fact ip_inv_step)

text \<open>
  No pointer into the table dangles (\<open>ip_proxy.cpp\<close>): in every state reached by
  \<open>start\<close>, \<open>getIPProxy\<close>, the destructors, payments and ticks of the routine thread in any
  order, with fewer than \<open>2 ^ 31\<close> holders, the entry of an address that somebody holds is
  in the table with a count equal to the number of its holders, so neither paying nor
  releasing through the pointer fails, and the next tick of the routine thread keeps it.
\<close>

lemma ip_no_dangling:
  assumes "reachable ip_world_init ip_step w" and "a \<in># iw_held w"
  shows "(\<exists>p. ip_lookup (iw_x w) a = Some p \<and> ip_ref_cnt p = int (count (iw_held w) a)) \<and>
         (\<exists>x. ip_release (Some a) (iw_x w) = Inr x) \<and>
         (\<exists>r. ip_pay i cost (Some a) (iw_x w) = Inr r) \<and>
         ip_lookup (snd (ip_tick now (iw_last w) (iw_x w))) a \<noteq> None"
proof -
  have inv: "ip_inv w" using assms(1) by (rule ipw.reachable_inv)
  then obtain p where p: "ip_lookup (iw_x w) a = Some p" "ip_ref_cnt p = int (count (iw_held w) a)"
    "0 < ip_ref_cnt p"
    using assms(2) by (rule ip_inv_held)
  have ok: "ipx_ok (iw_x w)" using inv by (simp add: ip_inv_def)
  have "ip_lookup (snd (ip_tick now (iw_last w) (iw_x w))) a \<noteq> None"
    using p ip_tick_lookup [OF ok, of now "iw_last w" a] ip_tick_stay [of now "iw_last w" "iw_x w"]
    by (cases "0 < i32 (now - iw_last w)") simp_all
  moreover have "\<exists>x. ip_release (Some a) (iw_x w) = Inr x"
    using p by (simp add: ip_release_def)
  moreover have "\<exists>r. ip_pay i cost (Some a) (iw_x w) = Inr r"
    using p by (auto simp: ip_pay_def split: option.splits)
  ultimately show ?thesis using p by blast
qed

definition ip_world0 :: "nat ip_world" where
  "ip_world0 = \<lparr>iw_x = new_ip_proxies, iw_held = {#}, iw_last = 0\<rparr>"

definition ip_world1 :: "nat ip_world" where
  "ip_world1 = ip_world0\<lparr>iw_x := ip_start 1000 0 new_ip_proxies\<rparr>"

definition ip_world2 :: "nat ip_world" where
  "ip_world2 = ip_world1\<lparr>iw_x := snd (getIPProxy 7 (iw_x ip_world1)), iw_held := {#7#}\<rparr>"

lemma ip_world2_reachable: "reachable ip_world_init ip_step ip_world2"
proof -
  have "reachable ip_world_init ip_step ip_world0"
    by (rule reach_init) (simp add: ip_world_init_def ip_world0_def)
  moreover have "ip_step ip_world0 ip_world1"
    using ip_step.start [of ip_world0 1000 0] by (simp add: ip_world1_def ip_world0_def)
  ultimately have r1: "reachable ip_world_init ip_step ip_world1" by (rule reach_step)
  have "getIPProxy 7 (iw_x ip_world1) = (Some 7, snd (getIPProxy 7 (iw_x ip_world1)))"
    by (simp add: prod_eq_iff getIPProxy_fst ip_world1_def ip_start_def new_ip_proxies_def)
  from ip_step.acquire [OF _ this] have "ip_step ip_world1 ip_world2"
    by (simp add: ip_world2_def ip_world1_def ip_world0_def)
  with r1 show ?thesis by (rule reach_step)
qed

lemma ip_no_dangling_witness:
  "7 \<in># iw_held ip_world2 \<and> ip_lookup (snd (ip_tick 10 0 (iw_x ip_world2))) 7 \<noteq> None"
  using ip_no_dangling [OF ip_world2_reachable, of 7 I0 100 10]
  by (simp add: ip_world2_def ip_world1_def ip_world0_def)

text \<open>
  Entries are collected (\<open>ip_proxy.cpp\<close>, \<open>routineThreadHandler\<close>): in every reachable
  state, a tick with a positive interval erases exactly the entries that nobody holds.
\<close>

lemma ip_tick_collects:
  assumes "reachable ip_world_init ip_step w" and "0 < i32 (now - iw_last w)"
  shows "ip_lookup (snd (ip_tick now (iw_last w) (iw_x w))) a = None \<longleftrightarrow> a \<notin># iw_held w"
proof -
  have inv: "ip_inv w" using assms(1) by (rule ipw.reachable_inv)
  then have ok: "ipx_ok (iw_x w)" by (simp add: ip_inv_def)
  show ?thesis
    using ip_inv_count [OF inv, of a] ip_tick_lookup [OF ok assms(2), of a]
    by (auto simp: not_in_iff split: option.splits if_splits)
qed

lemma ip_tick_collects_witness:
  "ip_lookup (snd (ip_tick 10 0 (iw_x ip_world2))) 7 \<noteq> None \<and>
   ip_lookup (snd (ip_tick 10 0 (iw_x ip_world2))) 8 = None"
proof -
  have h: "0 < i32 (10 - iw_last ip_world2)"
    by (simp add: ip_world2_def ip_world1_def ip_world0_def i32_def)
  show ?thesis
    using ip_tick_collects [OF ip_world2_reachable h, of 7] ip_tick_collects [OF ip_world2_reachable h, of 8]
    by (simp add: ip_world2_def ip_world1_def ip_world0_def)
qed

section \<open>The amount a tick adds\<close>

text \<open>
  The refill of a tick (\<open>bytes[i] = interval * bandwidth[i] / 1000\<close> in
  \<open>ip_proxy.cpp\<close>) is a 32-bit product: it is \<open>interval * bandwidth / 1000\<close> while the product
  stays below \<open>2 ^ 31\<close>, and from there to \<open>2 ^ 32\<close> it is negative or zero, so that a client
  in debt is pushed further into debt instead of being paid.
\<close>

lemma ip_bytes_wrap:
  assumes "0 \<le> interval * ipx_bandwidth x i" and "interval * ipx_bandwidth x i < 4294967296"
  shows "ip_bytes x interval i =
    (if interval * ipx_bandwidth x i < 2147483648 then interval * ipx_bandwidth x i div 1000
     else - ((4294967296 - interval * ipx_bandwidth x i) div 1000))"
proof -
  define q where "q = interval * ipx_bandwidth x i"
  have range: "0 \<le> q" "q < 4294967296" using assms by (simp_all add: q_def)
  show ?thesis
  proof (cases "q < 2147483648")
    case True
    then have "in_i32 q" and "in_i32 (q div 1000)" using range by (auto simp: in_i32_def)
    moreover have "q sdiv 1000 = q div 1000" using range by (simp add: signed_divide_int_def sgn_if)
    ultimately show ?thesis
      using True by (simp add: ip_bytes_def q_def [symmetric] i32_id)
  next
    case False
    have "(q + 2147483648) mod 4294967296 = q - 2147483648"
      using False range by (simp add: mod_pos_geq mod_pos_pos_trivial)
    then have w: "i32 q = - (4294967296 - q)" by (simp add: i32_def)
    have "(- (4294967296 - q)) sdiv 1000 = - ((4294967296 - q) div 1000)"
      using False range by (simp add: signed_divide_int_def sgn_if)
    moreover have "in_i32 (- ((4294967296 - q) div 1000))"
      using False range by (auto simp: in_i32_def)
    ultimately show ?thesis
      using False by (simp add: ip_bytes_def q_def [symmetric] w i32_id)
  qed
qed

theorem ip_bytes_wrap_witness:
  "ip_bytes (ip_start 125000000 0 (new_ip_proxies :: nat ip_proxies)) 10 I0 = 1250000 \<and>
   ip_bytes (ip_start 125000000 0 (new_ip_proxies :: nat ip_proxies)) 18 I0 = - 2044967"
proof -
  have b: "ipx_bandwidth (ip_start 125000000 0 (new_ip_proxies :: nat ip_proxies)) I0 = 125000000"
    by (simp add: ip_start_def Let_def new_ip_proxies_def)
  show ?thesis
    using ip_bytes_wrap [of 10 "ip_start 125000000 0 (new_ip_proxies :: nat ip_proxies)" I0]
      ip_bytes_wrap [of 18 "ip_start 125000000 0 (new_ip_proxies :: nat ip_proxies)" I0]
    by (simp add: b)
qed

section \<open>The allowance of an entry is a token bucket\<close>

definition ip_avail_ok :: "idx2 \<Rightarrow> ip_proxy \<Rightarrow> bool" where
  "ip_avail_ok i p \<longleftrightarrow> in_i32 (ip_avail_bytes p i)"

interpretation ipb: token_bucket "\<lambda>p. ip_avail_bytes p i" "\<lambda>n. ip_refill_entry (\<lambda>_. n)"
    "ip_pay_entry i" "ip_avail_ok i" 2147483647 2147483647 for i :: idx2
  by unfold_locales
     (auto simp: ip_refill_entry_def ip_pay_entry_def bucket_refill_def bucket_pay_def
       ip_avail_ok_def in_i32_def i32_id split: if_splits)

text \<open>
  A client address between ticks: the routine thread reads the clock, or a packet of
  \<open>cost\<close> bytes asks to be paid for in direction \<open>i\<close>.
\<close>

datatype ip_event = Ip_tick msec | Ip_packet int

fun ip_client_run :: "idx2 \<Rightarrow> 'a::linorder \<Rightarrow> ip_event list \<Rightarrow> msec \<Rightarrow> 'a ip_proxies \<Rightarrow>
    failure + (int \<times> msec \<times> 'a ip_proxies)" where
  "ip_client_run i a [] t0 x = Inr (0, t0, x)"
| "ip_client_run i a (Ip_tick now # es) t0 x =
     (let (t, x) = ip_tick now t0 x in ip_client_run i a es t x)"
| "ip_client_run i a (Ip_packet cost # es) t0 x =
     and_then (ip_pay i cost (Some a) x) (\<lambda>(go, x).
       and_then (ip_client_run i a es t0 x) (\<lambda>(paid, t, x).
         Inr ((if go then cost else 0) + paid, t, x)))"

text \<open>The packets are at most \<open>M\<close> bytes, the clock does not go back, no refill overflows.\<close>

fun ip_events_ok :: "int \<Rightarrow> int \<Rightarrow> msec \<Rightarrow> ip_event list \<Rightarrow> bool" where
  "ip_events_ok bw M t0 [] = True"
| "ip_events_ok bw M t0 (Ip_tick now # es) =
     (t0 \<le> now \<and> (now - t0) * bw < 2147483648 \<and> now - t0 < 2147483648 \<and> ip_events_ok bw M now es)"
| "ip_events_ok bw M t0 (Ip_packet cost # es) = (0 \<le> cost \<and> cost \<le> M \<and> ip_events_ok bw M t0 es)"

text \<open>The run of the bucket that the events stand for.\<close>

fun ip_ops :: "int \<Rightarrow> msec \<Rightarrow> ip_event list \<Rightarrow> bucket_op list" where
  "ip_ops bw t0 [] = []"
| "ip_ops bw t0 (Ip_tick now # es) = Refill ((now - t0) * bw div 1000) # ip_ops bw now es"
| "ip_ops bw t0 (Ip_packet cost # es) = Pay cost # ip_ops bw t0 es"

fun ip_end :: "msec \<Rightarrow> ip_event list \<Rightarrow> msec" where
  "ip_end t0 [] = t0"
| "ip_end t0 (Ip_tick now # es) = ip_end now es"
| "ip_end t0 (Ip_packet cost # es) = ip_end t0 es"

lemma ip_ops_within:
  "ip_events_ok bw M t0 es \<Longrightarrow> 0 < bw \<Longrightarrow> ops_within 2147483647 M (ip_ops bw t0 es)"
proof (induction bw M t0 es rule: ip_events_ok.induct)
  case (2 bw M t0 now es)
  then have "0 \<le> (now - t0) * bw div 1000" by (simp add: pos_imp_zdiv_nonneg_iff)
  with 2 show ?case by auto
qed auto

lemma ip_ops_refills:
  "ip_events_ok bw M t0 es \<Longrightarrow> 0 < bw \<Longrightarrow>
     1000 * refills (ip_ops bw t0 es) \<le> bw * (ip_end t0 es - t0)"
proof (induction bw M t0 es rule: ip_events_ok.induct)
  case (2 bw M t0 now es)
  have "1000 * ((now - t0) * bw div 1000) \<le> (now - t0) * bw" by simp
  with 2 show ?case by (simp add: algebra_simps)
qed auto

lemma ip_tick_entry:
  assumes ok: "ipx_ok x" and a: "ip_lookup x a = Some p" and live: "0 < ip_ref_cnt p"
    and av: "ip_avail_ok i p" and bw: "0 < ipx_bandwidth x i"
    and t: "t0 \<le> now" "(now - t0) * ipx_bandwidth x i < 2147483648" "now - t0 < 2147483648"
  shows "\<exists>p'. ip_lookup (snd (ip_tick now t0 x)) a = Some p' \<and> 0 < ip_ref_cnt p' \<and>
    ip_avail_ok i p' \<and> fst (ip_tick now t0 x) = now \<and>
    ip_avail_bytes p' i = bucket_refill ((now - t0) * ipx_bandwidth x i div 1000) (ip_avail_bytes p i)"
proof (cases "now = t0")
  case True
  with a live av show ?thesis by (simp add: ip_tick_stay i32_def bucket_refill_def)
next
  case False
  with t have iv: "i32 (now - t0) = now - t0" and pos: "0 < now - t0"
    by (auto intro: i32_id simp: in_i32_def)
  define n where "n = (now - t0) * ipx_bandwidth x i div 1000"
  have q: "0 \<le> (now - t0) * ipx_bandwidth x i" using bw t by simp
  have "ip_bytes x (now - t0) i = n"
    using ip_bytes_wrap [of "now - t0" x i] q t(2) by (simp add: n_def)
  moreover have "0 \<le> n" "n \<le> 2147483647" using q t(2) by (auto simp: n_def)
  ultimately have "ip_avail_bytes (ip_refill_entry (ip_bytes x (now - t0)) p) i =
      ip_avail_bytes (ip_refill_entry (\<lambda>_. n) p) i"
    and "ip_avail_ok i (ip_refill_entry (ip_bytes x (now - t0)) p)"
    using ipb.refill_ok [OF av, of n] av by (auto simp: ip_refill_entry_def ip_avail_ok_def)
  moreover have "fst (ip_tick now t0 x) = now"
    using pos by (simp add: ip_tick_def iv)
  moreover have "ip_lookup (snd (ip_tick now t0 x)) a = Some (ip_refill_entry (ip_bytes x (now - t0)) p)"
    using ip_tick_lookup [OF ok, of now t0 a] pos a live by (simp add: iv)
  ultimately show ?thesis
    using live ipb.refill_avail [OF av \<open>0 \<le> n\<close> \<open>n \<le> 2147483647\<close>]
    by (simp add: n_def [symmetric] ip_refill_entry_def)
qed

lemma ip_pay_entry_result:
  assumes a: "ip_lookup x a = Some p" and av: "ip_avail_ok i p" and bw: "0 < ipx_bandwidth x i"
    and c: "0 \<le> cost" "cost \<le> 2147483647"
  shows "\<exists>go y p'. ip_pay i cost (Some a) x = Inr (go, y) \<and> ip_lookup y a = Some p' \<and>
    ip_ref_cnt p' = ip_ref_cnt p \<and> ip_avail_ok i p' \<and> ipx_bandwidth y = ipx_bandwidth x \<and>
    (ipx_ok x \<longrightarrow> ipx_ok y) \<and>
    (case bucket_pay cost (ip_avail_bytes p i) of
       None \<Rightarrow> \<not> go \<and> ip_avail_bytes p' i = ip_avail_bytes p i
     | Some b \<Rightarrow> go \<and> ip_avail_bytes p' i = b)"
proof (cases "ip_pay_entry i cost p")
  case None
  with ipb.pay_avail [OF av c] have "bucket_pay cost (ip_avail_bytes p i) = None" by simp
  with None a av bw show ?thesis by (auto simp: ip_pay_def)
next
  case (Some p')
  with ipb.pay_avail [OF av c] have "bucket_pay cost (ip_avail_bytes p i) = Some (ip_avail_bytes p' i)"
    by simp
  moreover have "ip_ref_cnt p' = ip_ref_cnt p"
    using Some by (auto simp: ip_pay_entry_def split: if_splits)
  ultimately show ?thesis
    using Some a bw ipb.pay_ok [OF av c Some]
    by (auto simp: ip_pay_def smap_find_put ipx_ok_def sm.ok_put)
qed

lemma ip_client_run_bucket:
  assumes "ipx_ok x" and "ip_lookup x a = Some p" and "0 < ip_ref_cnt p" and "ip_avail_ok i p"
    and "0 < ipx_bandwidth x i" and "ip_events_ok (ipx_bandwidth x i) M t0 es" and "M \<le> 2147483647"
  shows "\<exists>y. ip_client_run i a es t0 x =
    Inr (snd (bucket_run (ip_avail_bytes p i) (ip_ops (ipx_bandwidth x i) t0 es)), ip_end t0 es, y)"
  using assms
proof (induction es arbitrary: t0 x p)
  case Nil
  then show ?case by simp
next
  case (Cons e es)
  show ?case
  proof (cases e)
    case (Ip_tick now)
    then obtain p' where "ip_lookup (snd (ip_tick now t0 x)) a = Some p'" "0 < ip_ref_cnt p'"
      "ip_avail_ok i p'" "fst (ip_tick now t0 x) = now"
      "ip_avail_bytes p' i = bucket_refill ((now - t0) * ipx_bandwidth x i div 1000) (ip_avail_bytes p i)"
      using ip_tick_entry [OF Cons.prems(1-5), of t0 now] Cons.prems(6) by auto
    with Cons.IH [of "snd (ip_tick now t0 x)" p' now] Cons.prems Ip_tick
    show ?thesis by (simp add: ip_tick_ok Let_def case_prod_beta)
  next
    case (Ip_packet cost)
    then have c: "0 \<le> cost" "cost \<le> 2147483647" using Cons.prems(6,7) by auto
    obtain go y p' where y: "ip_pay i cost (Some a) x = Inr (go, y)" "ip_lookup y a = Some p'"
      "ip_ref_cnt p' = ip_ref_cnt p" "ip_avail_ok i p'" "ipx_bandwidth y = ipx_bandwidth x" "ipx_ok y"
      "case bucket_pay cost (ip_avail_bytes p i) of
         None \<Rightarrow> \<not> go \<and> ip_avail_bytes p' i = ip_avail_bytes p i
       | Some b \<Rightarrow> go \<and> ip_avail_bytes p' i = b"
      using ip_pay_entry_result [OF Cons.prems(2,4,5) c] Cons.prems(1) by auto
    obtain z where "ip_client_run i a es t0 y =
        Inr (snd (bucket_run (ip_avail_bytes p' i) (ip_ops (ipx_bandwidth x i) t0 es)), ip_end t0 es, z)"
      using Cons.IH [of y p' t0] Cons.prems y Ip_packet by auto
    with y Ip_packet show ?thesis by (auto split: option.splits prod.splits)
  qed
qed

text \<open>
  C14. The bandwidth of a client address (\<open>ip_proxy.cpp\<close> with the payments of
  \<open>tcp_proxy.cpp\<close> and \<open>udp_proxy.cpp\<close>): over any run of clock readings and packets of at
  most \<open>M\<close> bytes in a direction with a bandwidth limit, starting from an allowance in
  \<open>[-M, 2 ^ 31)\<close> and with no overflow in a refill, the run does not fail and the bytes let
  through are at most the allowance at the start, one packet, and bandwidth times elapsed
  milliseconds over 1000.
\<close>

theorem ip_client_rate:
  assumes "ipx_ok x" and "ip_lookup x a = Some p" and "0 < ip_ref_cnt p"
    and "- M \<le> ip_avail_bytes p i" and "ip_avail_bytes p i < 2147483648"
    and "0 < ipx_bandwidth x i" and "ip_events_ok (ipx_bandwidth x i) M t0 es"
    and "0 \<le> M" and "M \<le> 2147483647"
  shows "\<exists>paid t y. ip_client_run i a es t0 x = Inr (paid, t, y) \<and>
    1000 * paid \<le> 1000 * (ip_avail_bytes p i + M) + ipx_bandwidth x i * (t - t0)"
proof -
  let ?ops = "ip_ops (ipx_bandwidth x i) t0 es"
  have "ip_avail_ok i p" using assms(4,5,9) by (auto simp: ip_avail_ok_def in_i32_def)
  then obtain y where y: "ip_client_run i a es t0 x =
      Inr (snd (bucket_run (ip_avail_bytes p i) ?ops), ip_end t0 es, y)"
    using ip_client_run_bucket [OF assms(1-3) _ assms(6,7,9)] by blast
  have "snd (bucket_run (ip_avail_bytes p i) ?ops) \<le> ip_avail_bytes p i + refills ?ops + M"
    using bucket_run_rate [OF ip_ops_within [OF assms(7,6)] assms(4,8)] .
  with ip_ops_refills [OF assms(7,6)] y show ?thesis by auto
qed

definition ip_rate_x :: "nat ip_proxies" where
  "ip_rate_x = snd (getIPProxy 7 (ip_start 100000 0 new_ip_proxies))"

theorem ip_client_rate_witness:
  "\<exists>paid t y. ip_client_run I0 7 [Ip_packet 1054, Ip_tick 10, Ip_packet 500, Ip_tick 20] 0 ip_rate_x =
     Inr (paid, t, y) \<and> 1000 * paid \<le> 1000 * 1054 + 100000 * t"
proof -
  have x: "ip_rate_x = \<lparr>ipx_addrs = [(7, \<lparr>ip_avail_bytes = \<lambda>_. 0, ip_ref_cnt = 1\<rparr>)], ipx_threads = 1,
      ipx_bandwidth = (\<lambda>_. 0)(I0 := 100000, I1 := 0)\<rparr>"
    by (simp add: ip_rate_x_def getIPProxy_def ip_start_def new_ip_proxies_def new_ip_proxy_def
        Let_def i32_def)
  have "ipx_ok ip_rate_x" by (simp add: x ipx_ok_def smap_ok_def smap_keys_def)
  then show ?thesis
    using ip_client_rate [of ip_rate_x 7 "\<lparr>ip_avail_bytes = \<lambda>_. 0, ip_ref_cnt = 1\<rparr>" 1054 I0 0
        "[Ip_packet 1054, Ip_tick 10, Ip_packet 500, Ip_tick 20]"]
    by (simp add: x)
qed

end
