(* ===== verification/Ip_Race.thy ===== *)
theory Ip_Race
  imports Ip_Proxy_Props
begin

text \<open>
  The locks around \<open>ref_cnt\<close>. \<open>IPProxies::getIPProxy\<close> increments it under
  \<open>IPProxies::mtx\<close>; the destructors \<open>~TcpConnection\<close> and \<open>~UdpEndpointProxy\<close> decrement
  it under \<open>IPProxy::mtx\<close>. The reference-count theorems of \<open>Ip_Proxy_Props\<close> take each of
  the two as one step; this theory looks below that, at the load and the store that
  \<open>++\<close> and \<open>--\<close> on a plain \<open>int\<close> are, under the locks the code takes.
\<close>

section \<open>Two threads, two locks\<close>

datatype ref_mutex = Map_mtx | Entry_mtx

datatype ref_instr = Lock ref_mutex | Load | Store int | Unlock ref_mutex

text \<open>
  \<open>getIPProxy\<close> locks the map around \<open>++proxy.ref_cnt\<close>; the destructor locks the entry
  around \<open>--client_ip->ref_cnt\<close>. The lock is a parameter, to compare the code with the
  same program under one lock.
\<close>

definition get_prog :: "ref_mutex \<Rightarrow> ref_instr list" where
  "get_prog m = [Lock m, Load, Store 1, Unlock m]"

definition release_prog :: "ref_mutex \<Rightarrow> ref_instr list" where
  "release_prog m = [Lock m, Load, Store (- 1), Unlock m]"

record ref_race =
  rr_cnt :: int
  rr_owner :: "ref_mutex \<Rightarrow> idx2 option"
  rr_reg :: "idx2 \<Rightarrow> int"
  rr_prog :: "idx2 \<Rightarrow> ref_instr list"

text \<open>Thread \<open>t\<close> runs its next instruction; \<open>None\<close> when it has none or is blocked.\<close>

definition ref_exec :: "idx2 \<Rightarrow> ref_race \<Rightarrow> ref_race option" where
  "ref_exec t s =
     (case rr_prog s t of
        [] \<Rightarrow> None
      | ins # rest \<Rightarrow>
          let s' = s\<lparr>rr_prog := (rr_prog s)(t := rest)\<rparr> in
          (case ins of
             Lock m \<Rightarrow> if rr_owner s m = None then Some (s'\<lparr>rr_owner := (rr_owner s)(m \<mapsto> t)\<rparr>) else None
           | Load \<Rightarrow> Some (s'\<lparr>rr_reg := (rr_reg s)(t := rr_cnt s)\<rparr>)
           | Store d \<Rightarrow> Some (s'\<lparr>rr_cnt := i32 (rr_reg s t + d)\<rparr>)
           | Unlock m \<Rightarrow> Some (s'\<lparr>rr_owner := (rr_owner s)(m := None)\<rparr>)))"

fun ref_sched :: "idx2 list \<Rightarrow> ref_race \<Rightarrow> ref_race option" where
  "ref_sched [] s = Some s"
| "ref_sched (t # ts) s = (case ref_exec t s of None \<Rightarrow> None | Some s' \<Rightarrow> ref_sched ts s')"

text \<open>Thread \<open>I0\<close> runs \<open>getIPProxy\<close>, thread \<open>I1\<close> a destructor, on a count of \<open>n\<close>.\<close>

definition ref_race_start :: "ref_mutex \<Rightarrow> ref_mutex \<Rightarrow> int \<Rightarrow> ref_race" where
  "ref_race_start mget mrel n =
     \<lparr>rr_cnt = n, rr_owner = (\<lambda>_. None), rr_reg = (\<lambda>_. 0),
      rr_prog = (\<lambda>t. if t = I0 then get_prog mget else release_prog mrel)\<rparr>"

definition ref_done :: "ref_race \<Rightarrow> bool" where
  "ref_done s \<longleftrightarrow> rr_prog s I0 = [] \<and> rr_prog s I1 = []"

lemmas ref_eval = ref_exec_def ref_race_start_def get_prog_def release_prog_def ref_done_def

section \<open>Under the locks of the code an update is lost\<close>

definition lost_schedule :: "idx2 list" where
  "lost_schedule = [I0, I1, I0, I1, I0, I1, I0, I1]"

lemma lost_schedule_run:
  "\<exists>s. ref_sched lost_schedule (ref_race_start Map_mtx Entry_mtx n) = Some s \<and> ref_done s \<and>
     rr_cnt s = i32 (n - 1)"
  by (simp add: lost_schedule_def ref_eval)

text \<open>
  C31. The count of a held entry can reach 0 (\<open>ip_proxy.cpp\<close>, \<open>tcp_proxy.cpp\<close>): on an
  entry with one holder, \<open>getIPProxy\<close> for a second holder and the destructor of the first
  can interleave under the two locks the code takes so that both complete and leave a count
  of 0, although one holder remains; the next tick of the routine thread then erases the
  entry, and the destructor of the remaining holder follows a dangling pointer.
\<close>

theorem ref_cnt_lost_update:
  "\<exists>sch s. ref_sched sch (ref_race_start Map_mtx Entry_mtx 1) = Some s \<and> ref_done s \<and>
     ip_release (Some a) (snd (ip_tick 10 0
       \<lparr>ipx_addrs = [(a, new_ip_proxy\<lparr>ip_ref_cnt := rr_cnt s\<rparr>)], ipx_threads = 1, ipx_bandwidth = bw\<rparr>))
     = Inl Dangling_deref"
proof -
  obtain s where s: "ref_sched lost_schedule (ref_race_start Map_mtx Entry_mtx 1) = Some s"
    "ref_done s" "rr_cnt s = 0"
    using lost_schedule_run [of 1] by (auto simp: i32_def)
  moreover have "ip_release (Some a) (snd (ip_tick 10 0
       \<lparr>ipx_addrs = [(a, new_ip_proxy\<lparr>ip_ref_cnt := rr_cnt s\<rparr>)], ipx_threads = 1, ipx_bandwidth = bw\<rparr>))
     = Inl Dangling_deref"
    using s(3) by (simp add: ip_tick_def ip_release_def i32_def)
  ultimately show ?thesis by blast
qed

section \<open>Under one lock it is not\<close>

text \<open>
  Were both done under the same lock, every schedule that completes would leave the right
  count: the two locks are the cause.
\<close>

lemma ref_sched_cases:
  "ref_sched sch s = Some s' \<longleftrightarrow> sch = [] \<and> s' = s \<or>
     (\<exists>ts. sch = I0 # ts \<and> (case ref_exec I0 s of None \<Rightarrow> False | Some s1 \<Rightarrow> ref_sched ts s1 = Some s')) \<or>
     (\<exists>ts. sch = I1 # ts \<and> (case ref_exec I1 s of None \<Rightarrow> False | Some s1 \<Rightarrow> ref_sched ts s1 = Some s'))"
proof (cases sch)
  case (Cons t ts)
  then show ?thesis by (cases t) (auto split: option.splits)
qed auto

lemma ref_cnt_one_lock:
  assumes "ref_sched sch (ref_race_start m m n) = Some s" and "ref_done s"
  shows "rr_cnt s = i32 n"
  using assms
  by (simp add: ref_sched_cases ref_eval)
     (auto simp: i32_add_left i32_diff_left get_prog_def release_prog_def)

end
