(* ===== verification/Ip_Account.thy ===== *)
theory Ip_Account
  imports Ip_Proxy_Props
begin

text \<open>
  Who holds which entry of the table of client addresses. Every part of the process that
  takes entries (\<open>getIPProxy\<close>) and gives them back (the destructors) keeps one law, the
  locale \<open>ip_holder\<close>: its steps change the counts of the table by what it takes and gives
  back, whatever the others hold, and it does not mind what the others do. Parts put side by
  side keep the law again, so the counts are right in the whole process.
\<close>

section \<open>The table and its holders\<close>

definition ip_acc :: "'a::linorder ip_proxies \<Rightarrow> 'a multiset \<Rightarrow> bool" where
  "ip_acc x H \<longleftrightarrow> ip_inv \<lparr>iw_x = x, iw_held = H, iw_last = 0\<rparr> \<and> ip_typed x"

text \<open>What one pointer holds.\<close>

definition opt_mset :: "'a option \<Rightarrow> 'a multiset" where
  "opt_mset c = (case c of None \<Rightarrow> {#} | Some a \<Rightarrow> {#a#})"

lemma opt_mset_simps [simp]: "opt_mset None = {#}" "opt_mset (Some a) = {#a#}"
  by (simp_all add: opt_mset_def)

lemma ip_acc_ok: "ip_acc x H \<Longrightarrow> ipx_ok x"
  by (simp add: ip_acc_def ip_inv_def)

lemma ip_acc_size: "ip_acc x H \<Longrightarrow> size H < 2147483648"
  by (simp add: ip_acc_def ip_inv_def)

lemma ip_acc_start: "ipx_addrs x = [] \<Longrightarrow> ip_acc x {#}"
  by (simp add: ip_acc_def ip_inv_def ipx_ok_def smap_ok_def smap_keys_def ip_typed_def)

lemma ip_acc_held:
  assumes "ip_acc x H" and "a \<in># H"
  obtains p where "ip_lookup x a = Some p" and "ip_ref_cnt p = int (count H a)" and "0 < ip_ref_cnt p"
  using ip_inv_held [of "\<lparr>iw_x = x, iw_held = H, iw_last = 0\<rparr>" a] assms by (auto simp: ip_acc_def)

lemma ip_acc_get:
  assumes "ip_acc x H" and "size H < 2147483647" and "getIPProxy a x = (c, y)"
  shows "ip_acc y (opt_mset c + H)"
proof -
  have "ip_inv (\<lparr>iw_x = x, iw_held = H, iw_last = 0\<rparr>\<lparr>iw_x := y, iw_held := H + opt_mset c\<rparr>)"
    using ip_inv_acquire [of "\<lparr>iw_x = x, iw_held = H, iw_last = 0\<rparr>" a c y] assms by (simp add: ip_acc_def opt_mset_def)
  then show ?thesis using assms(1) ip_typed_get [OF _ assms(3)] by (simp add: ip_acc_def ac_simps)
qed

lemma ip_acc_release:
  assumes "ip_acc x (opt_mset c + H)" and "ip_release c x = Inr y"
  shows "ip_acc y H"
proof (cases c)
  case None
  then show ?thesis using assms by (simp add: ip_release_def)
next
  case (Some a)
  then show ?thesis
    using ip_inv_release [of "\<lparr>iw_x = x, iw_held = opt_mset c + H, iw_last = 0\<rparr>" a y] assms ip_typed_release [OF _ assms(2)]
    by (simp add: ip_acc_def)
qed

lemma ip_acc_release_total:
  assumes "ip_acc x (opt_mset c + H)"
  obtains y where "ip_release c x = Inr y" and "ip_acc y H"
proof (cases c)
  case None
  then show thesis using that [of x] assms by (simp add: ip_release_def)
next
  case (Some a)
  then obtain p where "ip_lookup x a = Some p" using ip_acc_held [OF assms, of a] by auto
  then obtain y where "ip_release c x = Inr y" using Some by (simp add: ip_release_def)
  then show thesis using that ip_acc_release [OF assms] by blast
qed

lemma ip_acc_pay:
  assumes "ip_acc x H" and "ip_pay i cost c x = Inr (go, y)"
  shows "ip_acc y H"
proof (cases c)
  case None
  then have "y = x" using assms(2) by (auto simp: ip_pay_def split: if_splits)
  then show ?thesis using assms(1) by simp
next
  case (Some a)
  then show ?thesis
    using ip_inv_pay [of "\<lparr>iw_x = x, iw_held = H, iw_last = 0\<rparr>" i cost a go y] assms ip_typed_pay [OF _ assms(2)]
    by (simp add: ip_acc_def)
qed

lemma ip_acc_tick: "ip_acc x H \<Longrightarrow> ip_acc (snd (ip_tick now t0 x)) H"
  using ip_inv_tick [of "\<lparr>iw_x = x, iw_held = H, iw_last = t0\<rparr>" now] ip_typed_tick [of x now t0]
  by (cases "ip_tick now t0 x") (simp add: ip_acc_def ip_inv_def)

section \<open>The law of a holder\<close>

text \<open>
  \<open>held s\<close> are the entries that the part holds in the state \<open>s\<close>, \<open>load s\<close> bounds how many
  it may take in one step, \<open>step x s y t\<close> takes it from \<open>s\<close> to \<open>t\<close> and the table from \<open>x\<close> to
  \<open>y\<close>, and \<open>inv\<close> is what it relies on.
\<close>

locale ip_holder =
  fixes held :: "'s \<Rightarrow> 'a::linorder multiset"
    and load :: "'s \<Rightarrow> nat"
    and inv :: "'a ip_proxies \<Rightarrow> 's \<Rightarrow> bool"
    and step :: "'a ip_proxies \<Rightarrow> 's \<Rightarrow> 'a ip_proxies \<Rightarrow> 's \<Rightarrow> bool"
  assumes step_acc: "inv x s \<Longrightarrow> step x s y t \<Longrightarrow> ip_acc x (held s + H) \<Longrightarrow>
      size (held s + H) + load s < 2147483648 \<Longrightarrow>
      inv y t \<and> ip_acc y (held t + H) \<and> ipx_bandwidth y = ipx_bandwidth x"
    and others_inv: "inv x s \<Longrightarrow> ip_acc y (held s + H) \<Longrightarrow> ipx_bandwidth y = ipx_bandwidth x \<Longrightarrow> inv y s"
begin

text \<open>The state of the part and the table, where the part is all there is.\<close>

definition settled :: "'a ip_proxies \<Rightarrow> 's \<Rightarrow> bool" where
  "settled x s \<longleftrightarrow> inv x s \<and> ip_acc x (held s)"

lemma settled_step:
  "settled x s \<Longrightarrow> step x s y t \<Longrightarrow> size (held s) + load s < 2147483648 \<Longrightarrow> settled y t"
  using step_acc [of x s y t "{#}"] by (simp add: settled_def)

lemma settled_tick: "settled x s \<Longrightarrow> settled (snd (ip_tick now t0 x)) s"
  using others_inv [of x s "snd (ip_tick now t0 x)" "{#}"] by (simp add: settled_def ip_acc_tick)

text \<open>What is held is there with its count, and the tick of the table's thread keeps it.\<close>

lemma settled_held:
  assumes "settled x s" and "a \<in># held s"
  shows "\<exists>p. ip_lookup x a = Some p \<and> ip_ref_cnt p = int (count (held s) a)"
    and "ip_lookup (snd (ip_tick now t0 x)) a \<noteq> None"
proof -
  have acc: "ip_acc x (held s)" using assms(1) by (simp add: settled_def)
  show "\<exists>p. ip_lookup x a = Some p \<and> ip_ref_cnt p = int (count (held s) a)"
    by (rule ip_acc_held [OF acc assms(2)]) simp
  show "ip_lookup (snd (ip_tick now t0 x)) a \<noteq> None"
    by (rule ip_acc_held [OF ip_acc_tick [OF acc, of now t0] assms(2)]) simp
qed

lemma settled_only: "settled x s \<Longrightarrow> ip_lookup x a = Some p \<Longrightarrow> ip_ref_cnt p = int (count (held s) a)"
  using ip_inv_count [of "\<lparr>iw_x = x, iw_held = held s, iw_last = 0\<rparr>" a] by (simp add: settled_def ip_acc_def)

end

section \<open>Holders side by side\<close>

text \<open>A list of parts of one kind, of which any one may take a step.\<close>

definition list_step :: "('x \<Rightarrow> 's \<Rightarrow> 'x \<Rightarrow> 's \<Rightarrow> bool) \<Rightarrow> 'x \<Rightarrow> 's list \<Rightarrow> 'x \<Rightarrow> 's list \<Rightarrow> bool" where
  "list_step step x ss y ts \<longleftrightarrow> (\<exists>i t. i < length ss \<and> step x (ss ! i) y t \<and> ts = ss[i := t])"

lemma sum_list_take_drop:
  fixes f :: "'s \<Rightarrow> 'b::comm_monoid_add"
  assumes "i < length ss"
  shows "sum_list (map f ss) = f (ss ! i) + (sum_list (map f (take i ss)) + sum_list (map f (drop (Suc i) ss)))"
    and "sum_list (map f (ss[i := t])) = f t + (sum_list (map f (take i ss)) + sum_list (map f (drop (Suc i) ss)))"
proof -
  have "ss = take i ss @ ss ! i # drop (Suc i) ss" using assms by (simp add: id_take_nth_drop)
  then show "sum_list (map f ss) = f (ss ! i) + (sum_list (map f (take i ss)) + sum_list (map f (drop (Suc i) ss)))"
    by (metis (no_types, lifting) add.left_commute list.simps(9) map_append sum_list.Cons sum_list_append)
  show "sum_list (map f (ss[i := t])) = f t + (sum_list (map f (take i ss)) + sum_list (map f (drop (Suc i) ss)))"
    using assms by (simp add: upd_conv_take_nth_drop ac_simps)
qed

locale ip_holder_list = ip_holder held load inv step
  for held :: "'s \<Rightarrow> 'a::linorder multiset" and load :: "'s \<Rightarrow> nat"
    and inv :: "'a ip_proxies \<Rightarrow> 's \<Rightarrow> bool" and step :: "'a ip_proxies \<Rightarrow> 's \<Rightarrow> 'a ip_proxies \<Rightarrow> 's \<Rightarrow> bool"
begin

lemma list_others:
  assumes "\<forall>s \<in> set ss. inv x s" and "ip_acc y (sum_list (map held ss) + H)" and "ipx_bandwidth y = ipx_bandwidth x"
  shows "\<forall>s \<in> set ss. inv y s"
proof
  fix s assume s: "s \<in> set ss"
  then obtain i where i: "i < length ss" "s = ss ! i" by (metis in_set_conv_nth)
  then show "inv y s"
    using others_inv [of x s y "sum_list (map held (take i ss)) + sum_list (map held (drop (Suc i) ss)) + H"] assms s
    by (simp add: sum_list_take_drop(1) [OF i(1)] ac_simps)
qed

lemma list_step_acc:
  assumes inv: "\<forall>s \<in> set ss. inv x s" and "list_step step x ss y ts"
    and acc: "ip_acc x (sum_list (map held ss) + H)"
    and room: "size (sum_list (map held ss) + H) + sum_list (map load ss) < 2147483648"
  shows "(\<forall>s \<in> set ts. inv y s) \<and> ip_acc y (sum_list (map held ts) + H) \<and> ipx_bandwidth y = ipx_bandwidth x"
proof -
  obtain i t where i: "i < length ss" "step x (ss ! i) y t" "ts = ss[i := t]"
    using assms(2) by (auto simp: list_step_def)
  have own: "inv x (ss ! i)" using inv i(1) by simp
  let ?rest = "sum_list (map held (take i ss)) + sum_list (map held (drop (Suc i) ss)) + H"
  have "inv y t \<and> ip_acc y (held t + ?rest) \<and> ipx_bandwidth y = ipx_bandwidth x"
  proof (rule step_acc [OF own i(2)])
    show "ip_acc x (held (ss ! i) + ?rest)" using acc by (simp add: sum_list_take_drop(1) [OF i(1)] ac_simps)
    show "size (held (ss ! i) + ?rest) + load (ss ! i) < 2147483648"
      using room by (simp add: sum_list_take_drop(1) [OF i(1)] ac_simps)
  qed
  then have t: "inv y t" and acc': "ip_acc y (sum_list (map held ts) + H)" and bw: "ipx_bandwidth y = ipx_bandwidth x"
    by (simp_all add: i(3) sum_list_take_drop(2) [OF i(1)] ac_simps)
  have "inv y (ts ! j)" if j: "j < length ts" for j
  proof (cases "j = i")
    case True
    then show ?thesis using t i(1,3) by simp
  next
    case False
    then have "inv x (ts ! j)" using inv j by (simp add: i(3))
    then show ?thesis
      using others_inv [of x "ts ! j" y "sum_list (map held (take j ts)) + sum_list (map held (drop (Suc j) ts)) + H"]
        acc' bw
      by (simp add: sum_list_take_drop(1) [OF j] ac_simps)
  qed
  then have "\<forall>s \<in> set ts. inv y s" by (metis in_set_conv_nth)
  then show ?thesis using acc' bw by blast
qed

end

sublocale ip_holder_list \<subseteq> ls: ip_holder
  "\<lambda>ss. sum_list (map held ss)" "\<lambda>ss. sum_list (map load ss)" "\<lambda>x ss. \<forall>s \<in> set ss. inv x s" "list_step step"
  by unfold_locales (fact list_step_acc, fact list_others)

text \<open>Two parts of different kinds, of which either may take a step.\<close>

definition pair_step :: "('x \<Rightarrow> 's \<Rightarrow> 'x \<Rightarrow> 's \<Rightarrow> bool) \<Rightarrow> ('x \<Rightarrow> 't \<Rightarrow> 'x \<Rightarrow> 't \<Rightarrow> bool) \<Rightarrow>
    'x \<Rightarrow> 's \<times> 't \<Rightarrow> 'x \<Rightarrow> 's \<times> 't \<Rightarrow> bool" where
  "pair_step f g x p y q \<longleftrightarrow> f x (fst p) y (fst q) \<and> snd q = snd p \<or> g x (snd p) y (snd q) \<and> fst q = fst p"

locale ip_holder_pair = l: ip_holder heldl loadl invl stepl + r: ip_holder heldr loadr invr stepr
  for heldl :: "'s \<Rightarrow> 'a::linorder multiset" and loadl :: "'s \<Rightarrow> nat"
    and invl :: "'a ip_proxies \<Rightarrow> 's \<Rightarrow> bool" and stepl :: "'a ip_proxies \<Rightarrow> 's \<Rightarrow> 'a ip_proxies \<Rightarrow> 's \<Rightarrow> bool"
    and heldr :: "'t \<Rightarrow> 'a multiset" and loadr :: "'t \<Rightarrow> nat"
    and invr :: "'a ip_proxies \<Rightarrow> 't \<Rightarrow> bool" and stepr :: "'a ip_proxies \<Rightarrow> 't \<Rightarrow> 'a ip_proxies \<Rightarrow> 't \<Rightarrow> bool"
begin

lemma pair_step_acc:
  assumes inv: "invl x (fst p) \<and> invr x (snd p)" and st: "pair_step stepl stepr x p y q"
    and acc: "ip_acc x (heldl (fst p) + heldr (snd p) + H)"
    and room: "size (heldl (fst p) + heldr (snd p) + H) + (loadl (fst p) + loadr (snd p)) < 2147483648"
  shows "(invl y (fst q) \<and> invr y (snd q)) \<and> ip_acc y (heldl (fst q) + heldr (snd q) + H) \<and>
    ipx_bandwidth y = ipx_bandwidth x"
proof -
  consider (l) "stepl x (fst p) y (fst q)" "snd q = snd p" | (r) "stepr x (snd p) y (snd q)" "fst q = fst p"
    using st by (auto simp: pair_step_def)
  then show ?thesis
  proof cases
    case l
    have "invl y (fst q) \<and> ip_acc y (heldl (fst q) + (heldr (snd p) + H)) \<and> ipx_bandwidth y = ipx_bandwidth x"
      by (rule l.step_acc [OF _ l(1)]) (use inv acc room in \<open>simp_all add: ac_simps\<close>)
    then show ?thesis
      using r.others_inv [of x "snd p" y "heldl (fst q) + H"] inv l(2)
      by (simp add: ac_simps)
  next
    case r
    have "invr y (snd q) \<and> ip_acc y (heldr (snd q) + (heldl (fst p) + H)) \<and> ipx_bandwidth y = ipx_bandwidth x"
      by (rule r.step_acc [OF _ r(1)]) (use inv acc room in \<open>simp_all add: ac_simps\<close>)
    then show ?thesis
      using l.others_inv [of x "fst p" y "heldr (snd q) + H"] inv r(2)
      by (simp add: ac_simps)
  qed
qed

lemma pair_others:
  "invl x (fst p) \<and> invr x (snd p) \<Longrightarrow> ip_acc y (heldl (fst p) + heldr (snd p) + H) \<Longrightarrow>
     ipx_bandwidth y = ipx_bandwidth x \<Longrightarrow> invl y (fst p) \<and> invr y (snd p)"
  using l.others_inv [of x "fst p" y "heldr (snd p) + H"] r.others_inv [of x "snd p" y "heldl (fst p) + H"]
  by (simp add: ac_simps)

end

sublocale ip_holder_pair \<subseteq> both: ip_holder "\<lambda>p. heldl (fst p) + heldr (snd p)" "\<lambda>p. loadl (fst p) + loadr (snd p)"
  "\<lambda>x p. invl x (fst p) \<and> invr x (snd p)" "pair_step stepl stepr"
  by unfold_locales (fact pair_step_acc, fact pair_others)

end
