(* ===== verification/Tcp_Conn.thy ===== *)
theory Tcp_Conn
  imports Ip_Proxy
begin

text \<open>
  \<open>TcpConnection\<close> of \<open>tcp_proxy.h\<close> and \<open>tcp_proxy.cpp\<close>: a pair of sockets (\<open>I0\<close> the
  accepted client, \<open>I1\<close> the destination), a message queue per direction, and the handlers
  that Boost.Asio calls. A handler returns the asynchronous operations it starts, the table
  of client addresses it pays from and the new connection, or the failure that ends it.
  Fields keep the names of the code with the prefix \<open>tc_\<close>; the members of \<open>TcpProxy\<close> that
  a connection reads (\<open>getNow\<close>, \<open>getBandWidth\<close>, \<open>getDelayMs\<close>) are arguments.
\<close>

section \<open>State\<close>

datatype sock = Sock_open | Sock_closed

text \<open>Asynchronous operations and closes, in the order they are requested.\<close>

datatype tcp_io =
    Tcp_connect
  | Tcp_read idx2
  | Tcp_write idx2 "byte list"
  | Tcp_close idx2

type_synonym tcp_msg = "msec \<times> buffer"

record 'a tcp_conn =
  tc_close_flag :: bool
  tc_socket :: "idx2 \<Rightarrow> sock option"             \<comment> \<open>\<open>None\<close>: an empty \<open>shared_ptr\<close>\<close>
  tc_recv_buf :: "idx2 \<Rightarrow> byte list option"
  tc_msg_queue :: "idx2 \<Rightarrow> tcp_msg list"
  tc_available_bytes :: "idx2 \<Rightarrow> int"
  tc_writing_flag :: "idx2 \<Rightarrow> bool"
  tc_reading_flag :: "idx2 \<Rightarrow> bool"
  tc_active_time :: msec
  tc_full_open :: bool
  tc_client_ip :: "'a option"

section \<open>Construction, start, stop\<close>

text \<open>
  The constructor; \<open>remote\<close> is the address \<open>socket->remote_endpoint()\<close> yields, \<open>None\<close>
  when that call throws because the peer is gone already.
\<close>

definition tc_new :: "msec \<Rightarrow> 'a::linorder option \<Rightarrow> 'a ip_proxies \<Rightarrow> failure + ('a tcp_conn \<times> 'a ip_proxies)" where
  "tc_new now remote x =
     (case remote of
        None \<Rightarrow> Inl Remote_endpoint_throws
      | Some a \<Rightarrow>
          let (client_ip, x) = getIPProxy a x in
          Inr (\<lparr>tc_close_flag = False,
                tc_socket = (\<lambda>_. None)(I0 := Some Sock_open),
                tc_recv_buf = (\<lambda>_. None),
                tc_msg_queue = (\<lambda>_. []),
                tc_available_bytes = (\<lambda>_. 0),
                tc_writing_flag = (\<lambda>_. False),
                tc_reading_flag = (\<lambda>_. True),
                tc_active_time = now,
                tc_full_open = False,
                tc_client_ip = client_ip\<rparr>, x))"

definition tc_delete :: "'a::linorder tcp_conn \<Rightarrow> 'a ip_proxies \<Rightarrow> failure + 'a ip_proxies" where
  "tc_delete c x = ip_release (tc_client_ip c) x"

definition tc_start :: "'a tcp_conn \<Rightarrow> tcp_io list \<times> 'a tcp_conn" where
  "tc_start c = ([Tcp_connect], c\<lparr>tc_socket := (tc_socket c)(I1 := Some Sock_open)\<rparr>)"

definition tc_stop :: "'a tcp_conn \<Rightarrow> failure + (tcp_io list \<times> 'a tcp_conn)" where
  "tc_stop c =
     (let c = c\<lparr>tc_close_flag := True\<rparr> in
      if tc_socket c I0 = None \<or> tc_socket c I1 = None then Inl Null_deref
      else Inr ([Tcp_close I0, Tcp_close I1],
                c\<lparr>tc_socket := (tc_socket c)(I0 := Some Sock_closed, I1 := Some Sock_closed)\<rparr>))"

section \<open>Handlers\<close>

definition tc_asyncRead :: "idx2 \<Rightarrow> 'a tcp_conn \<Rightarrow> failure + (tcp_io list \<times> 'a tcp_conn)" where
  "tc_asyncRead p c =
     (let c = c\<lparr>tc_recv_buf := (tc_recv_buf c)(p := Some (new_bytes (int TCP_BUFFER_SIZE)))\<rparr> in
      if tc_socket c p = None then Inl Null_deref else Inr ([Tcp_read p], c))"

text \<open>
  The allowance of a direction: paid from when a write starts, topped up by the timer while
  it is negative, both only under a bandwidth limit \<open>bw\<close>.
\<close>

definition tc_charge :: "int \<Rightarrow> idx2 \<Rightarrow> int \<Rightarrow> 'a tcp_conn \<Rightarrow> 'a tcp_conn" where
  "tc_charge bw p cost c =
     (if 0 < bw
      then c\<lparr>tc_available_bytes :=
        (tc_available_bytes c)(p := i32 (tc_available_bytes c p - cost))\<rparr>
      else c)"

definition tc_refill :: "int \<Rightarrow> idx2 \<Rightarrow> int \<Rightarrow> 'a tcp_conn \<Rightarrow> 'a tcp_conn" where
  "tc_refill bw p flush_bytes c =
     (if 0 < bw \<and> tc_available_bytes c p < 0
      then c\<lparr>tc_available_bytes :=
        (tc_available_bytes c)(p := i32 (tc_available_bytes c p + flush_bytes))\<rparr>
      else c)"

text \<open>The second half of \<open>handleWrite\<close>: start the next write of side \<open>p\<close> if it may go.\<close>

definition tc_next_write :: "'a tcp_rule \<Rightarrow> msec \<Rightarrow> idx2 \<Rightarrow> 'a::linorder ip_proxies \<Rightarrow> 'a tcp_conn \<Rightarrow>
    failure + (tcp_io list \<times> 'a ip_proxies \<times> 'a tcp_conn)" where
  "tc_next_write rule now p x c =
     (case tc_msg_queue c p of
        [] \<Rightarrow> Inr ([], x, c\<lparr>tc_writing_flag := (tc_writing_flag c)(p := False)\<rparr>)
      | (tm, buf) # ms \<Rightarrow>
          if 0 \<le> tc_available_bytes c p \<and> tm \<le> now then
            let cost = i32 (buffer_get_size buf + TCP_PACKET_EXTRA_OVERHEAD) in
            and_then (ip_pay (flip p) cost (tc_client_ip c) x) (\<lambda>(go, x).
              if \<not> go then Inr ([], x, c\<lparr>tc_writing_flag := (tc_writing_flag c)(p := False)\<rparr>)
              else if tc_socket c p = None then Inl Null_deref
              else and_then (buffer_read buf) (\<lambda>bytes.
                let c = tc_charge (tr_max_bandwidth rule) p cost c
                in Inr ([Tcp_write p bytes], x,
                        c\<lparr>tc_writing_flag := (tc_writing_flag c)(p := True)\<rparr>)))
          else Inr ([], x, c\<lparr>tc_writing_flag := (tc_writing_flag c)(p := False)\<rparr>))"

text \<open>
  \<open>peer\<close> says whether \<open>remote_endpoint()\<close> in the error message succeeds: it throws when
  the connection is no longer there.
\<close>

definition tc_handleWrite :: "'a tcp_rule \<Rightarrow> msec \<Rightarrow> idx2 \<Rightarrow> error_code \<Rightarrow> bool \<Rightarrow> 'a::linorder ip_proxies \<Rightarrow>
    'a tcp_conn \<Rightarrow> failure + (tcp_io list \<times> 'a ip_proxies \<times> 'a tcp_conn)" where
  "tc_handleWrite rule now p ec peer x c =
     (if ec \<noteq> Success then
        (if ec \<noteq> Operation_aborted then
           (if \<not> peer then Inl Remote_endpoint_throws
            else and_then (tc_stop c) (\<lambda>(io, c). Inr (io, x, c)))
         else Inr ([], x, c))
      else if tc_writing_flag c p then
        (case tc_msg_queue c p of
           [] \<Rightarrow> Inl Assert_failed
         | m # ms \<Rightarrow>
             let c = c\<lparr>tc_msg_queue := (tc_msg_queue c)(p := ms)\<rparr> in
             if \<not> tc_full_open c \<and> tc_msg_queue c I0 = [] \<and> tc_msg_queue c I1 = []
             then and_then (tc_stop c) (\<lambda>(io, c). Inr (io, x, c))
             else if \<not> tc_reading_flag c (flip p)
             then and_then (tc_asyncRead (flip p)
                    (c\<lparr>tc_reading_flag := (tc_reading_flag c)(flip p := True)\<rparr>)) (\<lambda>(io, c).
                  and_then (tc_next_write rule now p x c) (\<lambda>(io', x, c).
                    Inr (io @ io', x, c)))
             else tc_next_write rule now p x c)
      else tc_next_write rule now p x c)"

definition tc_handleConnect :: "msec \<Rightarrow> error_code \<Rightarrow> 'a tcp_conn \<Rightarrow> failure + (tcp_io list \<times> 'a tcp_conn)" where
  "tc_handleConnect now ec c =
     (if ec \<noteq> Success then
        (if ec \<noteq> Operation_aborted then tc_stop c else Inr ([], c))
      else
        let c = c\<lparr>tc_active_time := now, tc_full_open := True\<rparr> in
        and_then (tc_asyncRead I0 c) (\<lambda>(io0, c).
        and_then (tc_asyncRead I1 c) (\<lambda>(io1, c).
          Inr (io0 @ io1, c))))"

definition tc_handleRead :: "'a tcp_rule \<Rightarrow> msec \<Rightarrow> idx2 \<Rightarrow> error_code \<Rightarrow> nat \<Rightarrow> 'a tcp_conn \<Rightarrow>
    failure + (tcp_io list \<times> 'a tcp_conn)" where
  "tc_handleRead rule now p ec bytes_transferred c =
     (if ec \<noteq> Success then
        (if ec \<noteq> Operation_aborted then
           (if tc_msg_queue c (flip p) \<noteq> [] then Inr ([], c\<lparr>tc_full_open := False\<rparr>)
            else tc_stop c)
         else Inr ([], c))
      else
        let c = (if tc_full_open c then c\<lparr>tc_active_time := now\<rparr> else c);
            msg = (tc_active_time c + tr_delay_ms rule,
                   \<lparr>bf_buf = tc_recv_buf c p, bf_size = int bytes_transferred\<rparr>);
            c = c\<lparr>tc_msg_queue := (tc_msg_queue c)(flip p := tc_msg_queue c (flip p) @ [msg])\<rparr>
        in if MAX_TCP_MSG_QUEUE_SIZE < length (tc_msg_queue c (flip p))
           then Inr ([], c\<lparr>tc_reading_flag := (tc_reading_flag c)(p := False)\<rparr>)
           else tc_asyncRead p c)"

section \<open>The routine of the proxy's timer\<close>

definition tc_flush_side :: "'a tcp_rule \<Rightarrow> msec \<Rightarrow> int \<Rightarrow> idx2 \<Rightarrow> 'a::linorder ip_proxies \<Rightarrow> 'a tcp_conn \<Rightarrow>
    failure + (tcp_io list \<times> 'a ip_proxies \<times> 'a tcp_conn)" where
  "tc_flush_side rule now flush_bytes p x c =
     (let c = tc_refill (tr_max_bandwidth rule) p flush_bytes c
      in if \<not> tc_writing_flag c p then tc_handleWrite rule now p Success True x c
         else Inr ([], x, c))"

definition tc_flushMsgs :: "'a tcp_rule \<Rightarrow> msec \<Rightarrow> int \<Rightarrow> msec \<Rightarrow> 'a::linorder ip_proxies \<Rightarrow> 'a tcp_conn \<Rightarrow>
    failure + (bool \<times> tcp_io list \<times> 'a ip_proxies \<times> 'a tcp_conn)" where
  "tc_flushMsgs rule now flush_bytes expire_time x c =
     (if tc_close_flag c then Inr (False, [], x, c)
      else if tc_active_time c < expire_time then
        and_then (tc_stop c) (\<lambda>(io, c). Inr (False, io, x, c))
      else if \<not> tc_full_open c \<and> tc_msg_queue c I0 = [] \<and> tc_msg_queue c I1 = []
      then Inr (True, [], x, c)
      else
        and_then (tc_flush_side rule now flush_bytes I0 x c) (\<lambda>(io0, x, c).
        and_then (tc_flush_side rule now flush_bytes I1 x c) (\<lambda>(io1, x, c).
          Inr (True, io0 @ io1, x, c))))"

end
