(* ===== verification/Tcp_World.thy ===== *)
theory Tcp_World
  imports Tcp_Conn
begin

text \<open>
  A \<open>TcpConnection\<close> with the operations it has outstanding in Boost.Asio. A step is a
  completion that Boost.Asio delivers (with the result it chooses), a tick of the proxy's
  timer, a change of the table of client addresses by other threads, or something the proxy
  does between ticks (it reads the clock, or stops its connections). What is relied on
  of Boost.Asio: a handler runs once for an operation that was started, a successful read
  has written at least one byte into the buffer it was given and at most its length, a
  successful \<open>async_write\<close> has sent the whole buffer and a failed one a prefix of it, and
  \<open>operation_aborted\<close> is delivered only after the socket was closed.
\<close>

section \<open>State and steps\<close>

record 'a tcp_world =
  tw_rule :: "'a tcp_rule"
  tw_now :: msec
  tw_x :: "'a ip_proxies"
  tw_c :: "'a tcp_conn"
  tw_alive :: bool                        \<comment> \<open>still in \<open>tcp_connections\<close>\<close>
  tw_connects :: nat                      \<comment> \<open>outstanding \<open>async_connect\<close>\<close>
  tw_reads :: "idx2 \<Rightarrow> nat"               \<comment> \<open>outstanding \<open>async_read_some\<close> per side\<close>
  tw_writes :: "idx2 \<Rightarrow> byte list list"   \<comment> \<open>outstanding \<open>async_write\<close> per side\<close>
  tw_rx :: "idx2 \<Rightarrow> byte list"            \<comment> \<open>bytes read from a side\<close>
  tw_tx :: "idx2 \<Rightarrow> byte list"            \<comment> \<open>bytes written to a side\<close>

fun tcp_issue :: "tcp_io \<Rightarrow> 'a tcp_world \<Rightarrow> 'a tcp_world" where
  "tcp_issue Tcp_connect w = w\<lparr>tw_connects := Suc (tw_connects w)\<rparr>"
| "tcp_issue (Tcp_read p) w = w\<lparr>tw_reads := (tw_reads w)(p := Suc (tw_reads w p))\<rparr>"
| "tcp_issue (Tcp_write p bs) w = w\<lparr>tw_writes := (tw_writes w)(p := tw_writes w p @ [bs])\<rparr>"
| "tcp_issue (Tcp_close p) w = w"

definition tcp_put :: "tcp_io list \<Rightarrow> 'a ip_proxies \<Rightarrow> 'a tcp_conn \<Rightarrow> 'a tcp_world \<Rightarrow> 'a tcp_world" where
  "tcp_put io x c w = fold tcp_issue io (w\<lparr>tw_x := x, tw_c := c\<rparr>)"

text \<open>The client address can be charged: its entry is there when its bandwidth is limited.\<close>

definition tcp_ip_ok :: "'a::linorder ip_proxies \<Rightarrow> 'a tcp_conn \<Rightarrow> bool" where
  "tcp_ip_ok x c \<longleftrightarrow> (\<forall>i. 0 < ipx_bandwidth x i \<longrightarrow>
     (\<exists>a. tc_client_ip c = Some a \<and> ip_lookup x a \<noteq> None))"

text \<open>
  A new connection as \<open>TcpProxy::handleAccept\<close> makes it: constructed, then started.
\<close>

definition tcp_accept_world :: "'a tcp_rule \<Rightarrow> msec \<Rightarrow> 'a ip_proxies \<Rightarrow> 'a tcp_conn \<Rightarrow> 'a tcp_world" where
  "tcp_accept_world rule now x c =
     tcp_put (fst (tc_start c)) x (snd (tc_start c))
       \<lparr>tw_rule = rule, tw_now = now, tw_x = x, tw_c = c, tw_alive = True, tw_connects = 0,
        tw_reads = (\<lambda>_. 0), tw_writes = (\<lambda>_. []), tw_rx = (\<lambda>_. []), tw_tx = (\<lambda>_. [])\<rparr>"

definition tcp_init :: "'a::linorder tcp_world \<Rightarrow> bool" where
  "tcp_init w \<longleftrightarrow> (\<exists>rule now a x0 x c. ipx_ok x0 \<and>
     tc_new now (Some a) x0 = Inr (c, x) \<and> w = tcp_accept_world rule now x c)"

definition tcp_recv_data :: "idx2 \<Rightarrow> byte list \<Rightarrow> 'a tcp_conn \<Rightarrow> 'a tcp_conn" where
  "tcp_recv_data p data c =
     c\<lparr>tc_recv_buf := (tc_recv_buf c)(p :=
         map_option (\<lambda>arr. data @ drop (length data) arr) (tc_recv_buf c p))\<rparr>"

text \<open>The completions of the operations of the connection.\<close>

inductive tcp_event :: "'a::linorder tcp_world \<Rightarrow> 'a tcp_world \<Rightarrow> bool" where
  connect: "tw_alive w \<Longrightarrow> 0 < tw_connects w \<Longrightarrow>
     tc_handleConnect (tw_now w) ec (tw_c w) = Inr (io, c) \<Longrightarrow>
     tcp_event w (tcp_put io (tw_x w) c (w\<lparr>tw_connects := tw_connects w - 1\<rparr>))"
| read: "tw_alive w \<Longrightarrow> 0 < tw_reads w p \<Longrightarrow> data \<noteq> [] \<Longrightarrow> length data \<le> TCP_BUFFER_SIZE \<Longrightarrow>
     tc_handleRead (tw_rule w) (tw_now w) p Success (length data) (tcp_recv_data p data (tw_c w)) = Inr (io, c) \<Longrightarrow>
     tcp_event w (tcp_put io (tw_x w) c
       (w\<lparr>tw_reads := (tw_reads w)(p := tw_reads w p - 1), tw_rx := (tw_rx w)(p := tw_rx w p @ data)\<rparr>))"
| read_error: "tw_alive w \<Longrightarrow> 0 < tw_reads w p \<Longrightarrow> ec \<noteq> Success \<Longrightarrow>
     tc_handleRead (tw_rule w) (tw_now w) p ec 0 (tw_c w) = Inr (io, c) \<Longrightarrow>
     tcp_event w (tcp_put io (tw_x w) c (w\<lparr>tw_reads := (tw_reads w)(p := tw_reads w p - 1)\<rparr>))"
| written: "tw_alive w \<Longrightarrow> tw_writes w p = bs # rest \<Longrightarrow>
     tc_handleWrite (tw_rule w) (tw_now w) p Success peer (tw_x w) (tw_c w) = Inr (io, x, c) \<Longrightarrow>
     tcp_event w (tcp_put io x c
       (w\<lparr>tw_writes := (tw_writes w)(p := rest), tw_tx := (tw_tx w)(p := tw_tx w p @ bs)\<rparr>))"
| write_error: "tw_alive w \<Longrightarrow> tw_writes w p = bs # rest \<Longrightarrow> ec \<noteq> Success \<Longrightarrow>
     (ec = Operation_aborted \<longrightarrow> tc_close_flag (tw_c w)) \<Longrightarrow>
     tc_handleWrite (tw_rule w) (tw_now w) p ec peer (tw_x w) (tw_c w) = Inr (io, x, c) \<Longrightarrow>
     tcp_event w (tcp_put io x c
       (w\<lparr>tw_writes := (tw_writes w)(p := rest), tw_tx := (tw_tx w)(p := tw_tx w p @ take k bs)\<rparr>))"

text \<open>
  What goes on around it: other connections and the routine thread change the table of
  client addresses, the proxy reads the clock, and it stops its connections when it closes.
\<close>

inductive tcp_io_step :: "'a::linorder tcp_world \<Rightarrow> 'a tcp_world \<Rightarrow> bool" where
  event: "tcp_event w w' \<Longrightarrow> tcp_io_step w w'"
| others: "tw_alive w \<Longrightarrow> ipx_ok x \<Longrightarrow> ipx_bandwidth x = ipx_bandwidth (tw_x w) \<Longrightarrow>
     (\<forall>a. tc_client_ip (tw_c w) = Some a \<longrightarrow> ip_lookup (tw_x w) a \<noteq> None \<longrightarrow> ip_lookup x a \<noteq> None) \<Longrightarrow>
     tcp_io_step w (w\<lparr>tw_x := x\<rparr>)"
| clock: "tw_alive w \<Longrightarrow> tcp_io_step w (w\<lparr>tw_now := now\<rparr>)"
| closed: "tw_alive w \<Longrightarrow> tc_stop (tw_c w) = Inr (io, c) \<Longrightarrow> tcp_io_step w (tcp_put io (tw_x w) c w)"

lemma tcp_io_step_cases [consumes 1, case_names connect read read_error written write_error others clock closed]:
  assumes "tcp_io_step w w'"
  obtains (connect) ec io c where "w' = tcp_put io (tw_x w) c (w\<lparr>tw_connects := tw_connects w - 1\<rparr>)"
      "tw_alive w" "0 < tw_connects w" "tc_handleConnect (tw_now w) ec (tw_c w) = Inr (io, c)"
  | (read) p data io c where
      "w' = tcp_put io (tw_x w) c
         (w\<lparr>tw_reads := (tw_reads w)(p := tw_reads w p - 1), tw_rx := (tw_rx w)(p := tw_rx w p @ data)\<rparr>)"
      "tw_alive w" "0 < tw_reads w p" "data \<noteq> []" "length data \<le> TCP_BUFFER_SIZE"
      "tc_handleRead (tw_rule w) (tw_now w) p Success (length data) (tcp_recv_data p data (tw_c w)) = Inr (io, c)"
  | (read_error) p ec io c where
      "w' = tcp_put io (tw_x w) c (w\<lparr>tw_reads := (tw_reads w)(p := tw_reads w p - 1)\<rparr>)"
      "tw_alive w" "0 < tw_reads w p" "ec \<noteq> Success" "tc_handleRead (tw_rule w) (tw_now w) p ec 0 (tw_c w) = Inr (io, c)"
  | (written) p bs rest peer io x c where
      "w' = tcp_put io x c (w\<lparr>tw_writes := (tw_writes w)(p := rest), tw_tx := (tw_tx w)(p := tw_tx w p @ bs)\<rparr>)"
      "tw_alive w" "tw_writes w p = bs # rest"
      "tc_handleWrite (tw_rule w) (tw_now w) p Success peer (tw_x w) (tw_c w) = Inr (io, x, c)"
  | (write_error) p bs rest ec peer io x c k where
      "w' = tcp_put io x c (w\<lparr>tw_writes := (tw_writes w)(p := rest), tw_tx := (tw_tx w)(p := tw_tx w p @ take k bs)\<rparr>)"
      "tw_alive w" "tw_writes w p = bs # rest" "ec \<noteq> Success" "ec = Operation_aborted \<longrightarrow> tc_close_flag (tw_c w)"
      "tc_handleWrite (tw_rule w) (tw_now w) p ec peer (tw_x w) (tw_c w) = Inr (io, x, c)"
  | (others) x where "w' = w\<lparr>tw_x := x\<rparr>" "tw_alive w" "ipx_ok x" "ipx_bandwidth x = ipx_bandwidth (tw_x w)"
      "\<forall>a. tc_client_ip (tw_c w) = Some a \<longrightarrow> ip_lookup (tw_x w) a \<noteq> None \<longrightarrow> ip_lookup x a \<noteq> None"
  | (clock) now where "w' = w\<lparr>tw_now := now\<rparr>" "tw_alive w"
  | (closed) io c where "w' = tcp_put io (tw_x w) c w" "tw_alive w" "tc_stop (tw_c w) = Inr (io, c)"
  using assms
proof cases
  case event
  then show thesis by cases (rule connect read read_error written write_error; assumption)+
qed (rule others clock closed; assumption)+

text \<open>The timer of the proxy calls \<open>flushMsgs\<close>; the connection is erased when it returns false.\<close>

inductive tcp_step :: "'a::linorder tcp_world \<Rightarrow> 'a tcp_world \<Rightarrow> bool" where
  io: "tcp_io_step w w' \<Longrightarrow> tcp_step w w'"
| flush: "tw_alive w \<Longrightarrow>
     tc_flushMsgs (tw_rule w) now flush_bytes expire (tw_x w) (tw_c w) = Inr (stay, io, x, c) \<Longrightarrow>
     tcp_step w (tcp_put io x c (w\<lparr>tw_now := now, tw_alive := stay\<rparr>))"

section \<open>One direction of the connection\<close>

text \<open>
  Everything that belongs to the bytes on their way to side \<open>p\<close>: they are read from side
  \<open>flip p\<close>, wait in the queue of \<open>p\<close> and are written to \<open>p\<close>. Every handler works on one
  direction only.
\<close>

record tcp_dir =
  td_reads :: nat
  td_reading :: bool
  td_buf :: "byte list option"
  td_queue :: "tcp_msg list"
  td_writing :: bool
  td_writes :: "byte list list"
  td_rx :: "byte list"
  td_tx :: "byte list"

definition tcp_dir :: "'a tcp_world \<Rightarrow> idx2 \<Rightarrow> tcp_dir" where
  "tcp_dir w p =
     \<lparr>td_reads = tw_reads w (flip p), td_reading = tc_reading_flag (tw_c w) (flip p),
      td_buf = tc_recv_buf (tw_c w) (flip p), td_queue = tc_msg_queue (tw_c w) p,
      td_writing = tc_writing_flag (tw_c w) p, td_writes = tw_writes w p,
      td_rx = tw_rx w (flip p), td_tx = tw_tx w p\<rparr>"

definition td_view :: "tcp_msg \<Rightarrow> byte list" where
  "td_view m = buffer_view (snd m)"

definition td_bytes :: "tcp_dir \<Rightarrow> byte list" where
  "td_bytes d = concat (map td_view (td_queue d))"

text \<open>
  The invariant of a direction; \<open>closed\<close> is \<open>close_flag\<close>. At most one read and one write
  are outstanding, a write is of the front of the queue, the queue holds at most two
  messages and reading stops exactly when it holds two, and the bytes read are the bytes
  written followed by the queue, up to the part of the front that a failed write sent.
\<close>

definition td_read_ok :: "tcp_dir \<Rightarrow> bool" where
  "td_read_ok d \<longleftrightarrow> td_reads d \<le> 1 \<and>
     (td_reads d = 1 \<longrightarrow> td_reading d \<and>
        (\<exists>arr. td_buf d = Some arr \<and> length arr = TCP_BUFFER_SIZE))"

definition td_queue_ok :: "tcp_dir \<Rightarrow> bool" where
  "td_queue_ok d \<longleftrightarrow> length (td_queue d) \<le> 2 \<and>
     (td_reading d \<longleftrightarrow> length (td_queue d) \<le> 1) \<and>
     (\<forall>m \<in> set (td_queue d). buffer_ok (snd m) \<and> length (td_view m) \<le> TCP_BUFFER_SIZE)"

definition td_write_ok :: "bool \<Rightarrow> tcp_dir \<Rightarrow> bool" where
  "td_write_ok closed d \<longleftrightarrow>
     (td_writes d = [] \<or> (td_queue d \<noteq> [] \<and> td_writing d \<and> td_writes d = [td_view (hd (td_queue d))])) \<and>
     (td_writing d \<longrightarrow> td_writes d \<noteq> [] \<or> closed)"

definition td_exact :: "tcp_dir \<Rightarrow> bool" where
  "td_exact d \<longleftrightarrow> td_rx d = td_tx d @ td_bytes d"

definition td_broken :: "tcp_dir \<Rightarrow> bool" where
  "td_broken d \<longleftrightarrow> td_writing d \<and> td_writes d = [] \<and> td_queue d \<noteq> [] \<and>
     (\<exists>sent k. td_rx d = sent @ td_bytes d \<and> td_tx d = sent @ take k (td_view (hd (td_queue d))))"

definition td_inv :: "bool \<Rightarrow> tcp_dir \<Rightarrow> bool" where
  "td_inv closed d \<longleftrightarrow>
     td_read_ok d \<and> td_queue_ok d \<and> td_write_ok closed d \<and> (td_exact d \<or> td_broken d)"

definition tcp_inv :: "'a::linorder tcp_world \<Rightarrow> bool" where
  "tcp_inv w \<longleftrightarrow>
     (\<forall>p. tc_socket (tw_c w) p \<noteq> None) \<and>
     (\<forall>p. td_inv (tc_close_flag (tw_c w)) (tcp_dir w p)) \<and>
     tw_connects w \<le> 1 \<and>
     (tw_connects w = 1 \<longrightarrow> (\<forall>p. tw_reads w p = 0 \<and> tc_msg_queue (tw_c w) p = [])) \<and>
     ipx_ok (tw_x w) \<and> tcp_ip_ok (tw_x w) (tw_c w)"

lemmas td_defs = td_inv_def td_read_ok_def td_queue_ok_def td_write_ok_def

section \<open>What happens to a direction\<close>

lemma td_inv_closed: "td_inv closed d \<Longrightarrow> td_inv (closed \<or> b) d"
  by (auto simp: td_inv_def td_write_ok_def)

lemma td_inv_idle:
  "td_read_ok d \<Longrightarrow> td_queue_ok d \<Longrightarrow> td_exact d \<Longrightarrow> td_writes d = [] \<Longrightarrow>
     td_inv closed (d\<lparr>td_writing := False\<rparr>)"
  by (simp add: td_defs td_exact_def td_bytes_def)

lemma td_inv_begin:
  "td_read_ok d \<Longrightarrow> td_queue_ok d \<Longrightarrow> td_exact d \<Longrightarrow> td_writes d = [] \<Longrightarrow> td_queue d \<noteq> [] \<Longrightarrow>
     td_inv closed (d\<lparr>td_writing := True, td_writes := [td_view (hd (td_queue d))]\<rparr>)"
  by (simp add: td_defs td_exact_def td_bytes_def)

lemma td_writing_exact: "td_inv closed d \<Longrightarrow> td_writes d = bs # rest \<Longrightarrow>
   td_exact d \<and> rest = [] \<and> td_writing d \<and> (\<exists>m ms. td_queue d = m # ms \<and> bs = td_view m)"
  by (cases "td_queue d") (auto simp: td_defs td_broken_def)

text \<open>The front has been written: it leaves the queue.\<close>

definition td_pop :: "tcp_dir \<Rightarrow> tcp_dir" where
  "td_pop d = d\<lparr>td_queue := tl (td_queue d), td_writes := [],
     td_tx := td_tx d @ td_view (hd (td_queue d))\<rparr>"

lemma td_pop_exact: "td_exact d \<Longrightarrow> td_queue d \<noteq> [] \<Longrightarrow> td_exact (td_pop d)"
  by (cases "td_queue d") (auto simp: td_exact_def td_pop_def td_bytes_def)

lemma td_pop_read_ok: "td_read_ok d \<Longrightarrow> td_read_ok (td_pop d)"
  by (simp add: td_read_ok_def td_pop_def)

lemma td_pop_queue_ok:
  "td_queue_ok d \<Longrightarrow> td_reading d \<Longrightarrow> td_queue_ok (td_pop d)"
  by (cases "td_queue d") (auto simp: td_queue_ok_def td_pop_def)

text \<open>Reading of the direction starts again, into a fresh buffer.\<close>

definition td_restart :: "tcp_dir \<Rightarrow> tcp_dir" where
  "td_restart d = d\<lparr>td_reading := True, td_reads := Suc (td_reads d),
     td_buf := Some (new_bytes (int TCP_BUFFER_SIZE))\<rparr>"

lemma length_new_bytes [simp]: "length (new_bytes (int n)) = n"
  by (simp add: new_bytes_def)

lemma td_restart_read_ok: "td_reads d = 0 \<Longrightarrow> td_read_ok (td_restart d)"
  by (simp add: td_read_ok_def td_restart_def)

lemma td_restart_exact [simp]: "td_exact (td_restart d) = td_exact d"
  by (simp add: td_exact_def td_restart_def td_bytes_def)

lemma td_restart_pop_queue_ok:
  "td_queue_ok d \<Longrightarrow> td_queue_ok (td_restart (td_pop d))"
  by (cases "td_queue d") (auto simp: td_queue_ok_def td_pop_def td_restart_def)

text \<open>A message arrives at the back of the queue.\<close>

definition td_push :: "tcp_msg \<Rightarrow> tcp_dir \<Rightarrow> tcp_dir" where
  "td_push m d = d\<lparr>td_queue := td_queue d @ [m], td_reads := td_reads d - 1,
     td_rx := td_rx d @ td_view m\<rparr>"

lemma td_push_data: "td_exact d \<or> td_broken d \<Longrightarrow> td_exact (td_push m d) \<or> td_broken (td_push m d)"
  by (auto simp: td_exact_def td_broken_def td_push_def td_bytes_def)

lemma td_inv_push_more:
  assumes "td_inv closed d" and "td_reads d = 1" and "buffer_ok (snd m)"
    and "length (td_view m) \<le> TCP_BUFFER_SIZE" and "td_queue d = []"
  shows "td_inv closed (td_restart (td_push m d))"
  using assms td_push_data [of d m]
  by (auto simp: td_defs td_push_def td_restart_def td_exact_def td_broken_def td_bytes_def)

lemma td_inv_push_last:
  assumes "td_inv closed d" and "td_reads d = 1" and "buffer_ok (snd m)"
    and "length (td_view m) \<le> TCP_BUFFER_SIZE" and "td_queue d \<noteq> []"
  shows "td_inv closed ((td_push m d)\<lparr>td_reading := False, td_buf := b\<rparr>)"
proof -
  have "length (td_queue d) = 1"
    using assms by (cases "td_queue d") (auto simp: td_defs)
  then show ?thesis
    using assms td_push_data [of d m]
    by (auto simp: td_defs td_push_def td_exact_def td_broken_def td_bytes_def)
qed

lemma td_inv_read_end: "td_inv closed d \<Longrightarrow> td_inv closed (d\<lparr>td_reads := td_reads d - 1\<rparr>)"
  by (auto simp: td_defs td_exact_def td_broken_def td_bytes_def)

lemma td_inv_write_failed:
  assumes "td_inv closed d" and "td_writes d = bs # rest"
  shows "td_inv True (d\<lparr>td_writes := rest, td_tx := td_tx d @ take k bs\<rparr>)"
  using assms td_writing_exact [OF assms]
  by (auto simp: td_defs td_exact_def td_broken_def td_bytes_def)

end
