(* ===== verification/Tcp_Inv.thy ===== *)
theory Tcp_Inv
  imports Tcp_World
begin

text \<open>
  The invariant of \<open>Tcp_World\<close> holds in every reachable state: what each handler does is
  summarised once (which operations it starts, which direction it touches), and each step is
  a few of those summaries.
\<close>

section \<open>The table of client addresses under payments\<close>

definition ip_same :: "'a::linorder ip_proxies \<Rightarrow> 'a ip_proxies \<Rightarrow> bool" where
  "ip_same x y \<longleftrightarrow> (ipx_ok x \<longrightarrow> ipx_ok y) \<and> ipx_bandwidth y = ipx_bandwidth x \<and>
     (\<forall>a. map_option ip_ref_cnt (ip_lookup y a) = map_option ip_ref_cnt (ip_lookup x a)) \<and> (ip_typed x \<longrightarrow> ip_typed y)"

lemma ip_same_refl [simp]: "ip_same x x"
  by (simp add: ip_same_def)

lemma ip_same_trans: "ip_same x y \<Longrightarrow> ip_same y z \<Longrightarrow> ip_same x z"
  by (simp add: ip_same_def)

lemma ip_pay_same: "ip_pay i c p x = Inr (go, y) \<Longrightarrow> ip_same x y"
  using ip_pay_ok [of i c p x go y] ip_pay_bandwidth [of i c p x go y] ip_pay_ref_cnt [of i c p x go y]
  by (simp add: ip_same_def ip_typed_pay)

lemma ip_same_None: "ip_same x y \<Longrightarrow> ip_lookup y a = None \<longleftrightarrow> ip_lookup x a = None"
  by (metis ip_same_def option.map_disc_iff)

lemma tcp_ip_ok_same:
  "ip_same x y \<Longrightarrow> tc_client_ip c' = tc_client_ip c \<Longrightarrow> tcp_ip_ok x c \<Longrightarrow> tcp_ip_ok y c'"
  using ip_same_None [of x y] by (simp add: tcp_ip_ok_def ip_same_def)

lemma ip_pay_total:
  assumes "tcp_ip_ok x c"
  shows "\<exists>go y. ip_pay i cost (tc_client_ip c) x = Inr (go, y)"
proof (cases "0 < ipx_bandwidth x i")
  case True
  with assms obtain a p where "tc_client_ip c = Some a" "ip_lookup x a = Some p"
    by (auto simp: tcp_ip_ok_def)
  with True show ?thesis by (cases "ip_pay_entry i cost p") (auto simp: ip_pay_def)
qed (auto simp: ip_pay_def)

section \<open>Starting a write\<close>

lemma tc_charge_avail: "\<exists>av. tc_charge bw p cost c = c\<lparr>tc_available_bytes := av\<rparr>"
proof (cases "0 < bw")
  case False
  then have "tc_charge bw p cost c = c\<lparr>tc_available_bytes := tc_available_bytes c\<rparr>"
    by (simp add: tc_charge_def)
  then show ?thesis by blast
qed (auto simp: tc_charge_def)

lemma tc_refill_avail: "\<exists>av. tc_refill bw p n c = c\<lparr>tc_available_bytes := av\<rparr>"
proof (cases "0 < bw \<and> tc_available_bytes c p < 0")
  case False
  then have "tc_refill bw p n c = c\<lparr>tc_available_bytes := tc_available_bytes c\<rparr>"
    by (auto simp: tc_refill_def)
  then show ?thesis by blast
qed (auto simp: tc_refill_def)

lemma tc_next_write_cases:
  assumes "tc_next_write rule now p x c = Inr (io, y, c')"
  obtains (idle) "io = []" "c' = c\<lparr>tc_writing_flag := (tc_writing_flag c)(p := False)\<rparr>" "ip_same x y"
  | (go) m ms bs av where "tc_msg_queue c p = m # ms" "buffer_read (snd m) = Inr bs"
      "fst m \<le> now" "0 \<le> tc_available_bytes c p" "io = [Tcp_write p bs]"
      "c' = c\<lparr>tc_available_bytes := av, tc_writing_flag := (tc_writing_flag c)(p := True)\<rparr>"
      "ip_same x y"
proof (cases "tc_msg_queue c p")
  case Nil
  with assms idle show thesis by (simp add: tc_next_write_def)
next
  case (Cons m ms)
  obtain tm buf where m: "m = (tm, buf)" by force
  show thesis
  proof (cases "0 \<le> tc_available_bytes c p \<and> tm \<le> now")
    case False
    with assms idle Cons m show thesis by (auto simp: tc_next_write_def)
  next
    case True
    let ?cost = "i32 (buffer_get_size buf + TCP_PACKET_EXTRA_OVERHEAD)"
    obtain g z where pay: "ip_pay (flip p) ?cost (tc_client_ip c) x = Inr (g, z)"
      using assms True Cons m by (auto simp: tc_next_write_def Let_def result_simps)
    show thesis
    proof (cases g)
      case False
      with assms idle True Cons m pay ip_pay_same [OF pay] show thesis
        by (simp add: tc_next_write_def)
    next
      case g: True
      with assms True Cons m pay obtain bs where bs: "buffer_read buf = Inr bs"
        by (auto simp: tc_next_write_def Let_def result_simps split: if_splits)
      from assms g True Cons m pay bs have "io = [Tcp_write p bs]" "y = z"
        "c' = (tc_charge (tr_max_bandwidth rule) p ?cost c)
           \<lparr>tc_writing_flag := (tc_writing_flag (tc_charge (tr_max_bandwidth rule) p ?cost c))(p := True)\<rparr>"
        by (auto simp: tc_next_write_def Let_def split: if_splits)
      moreover obtain av where "tc_charge (tr_max_bandwidth rule) p ?cost c = c\<lparr>tc_available_bytes := av\<rparr>"
        using tc_charge_avail by blast
      ultimately have "io = [Tcp_write p bs]" "y = z"
        "c' = c\<lparr>tc_available_bytes := av, tc_writing_flag := (tc_writing_flag c)(p := True)\<rparr>"
        by simp_all
      with go [of m ms bs av] Cons m bs True ip_pay_same [OF pay] show thesis by simp
    qed
  qed
qed

lemma tc_next_write_total:
  assumes "tcp_ip_ok x c" and "tc_socket c p \<noteq> None" and "\<forall>m \<in> set (tc_msg_queue c p). buffer_ok (snd m)"
  shows "\<exists>r. tc_next_write rule now p x c = Inr r"
proof (cases "tc_msg_queue c p")
  case Nil
  then show ?thesis by (simp add: tc_next_write_def)
next
  case (Cons m ms)
  obtain tm buf where m: "m = (tm, buf)" by force
  obtain g z where "ip_pay (flip p) (i32 (buffer_get_size buf + TCP_PACKET_EXTRA_OVERHEAD)) (tc_client_ip c) x = Inr (g, z)"
    using ip_pay_total [OF assms(1)] by blast
  with assms Cons m show ?thesis
    by (auto simp: tc_next_write_def Let_def buffer_read_ok)
qed

section \<open>Putting results into the world\<close>

lemma tcp_issue_put:
  "tcp_issue i (w\<lparr>tw_x := x, tw_c := c\<rparr>) = (tcp_issue i w)\<lparr>tw_x := x, tw_c := c\<rparr>"
  by (cases i) simp_all

lemma fold_tcp_issue_put:
  "fold tcp_issue io (w\<lparr>tw_x := x, tw_c := c\<rparr>) = (fold tcp_issue io w)\<lparr>tw_x := x, tw_c := c\<rparr>"
  by (induction io arbitrary: w) (simp_all add: tcp_issue_put)

lemma tcp_put_append:
  "tcp_put (io @ io') x c w = tcp_put io' x c (tcp_put io y d w)"
  by (simp add: tcp_put_def fold_tcp_issue_put)

text \<open>What a step leaves alone besides the direction it works on.\<close>

definition tcp_frame :: "'a::linorder tcp_world \<Rightarrow> 'a tcp_world \<Rightarrow> bool" where
  "tcp_frame w w' \<longleftrightarrow>
     (\<forall>q. tc_socket (tw_c w) q \<noteq> None \<longrightarrow> tc_socket (tw_c w') q \<noteq> None) \<and>
     (tc_close_flag (tw_c w) \<longrightarrow> tc_close_flag (tw_c w')) \<and>
     tc_client_ip (tw_c w') = tc_client_ip (tw_c w) \<and> tw_connects w' = tw_connects w \<and>
     ip_same (tw_x w) (tw_x w')"

lemma tcp_frame_trans: "tcp_frame u v \<Longrightarrow> tcp_frame v w \<Longrightarrow> tcp_frame u w"
  by (auto simp: tcp_frame_def intro: ip_same_trans)

lemma tcp_next_write_dir:
  assumes "tc_next_write rule now p (tw_x w) (tw_c w) = Inr (io, y, c')"
    and "td_read_ok (tcp_dir w p)" and "td_queue_ok (tcp_dir w p)"
    and "td_exact (tcp_dir w p)" and "tw_writes w p = []"
  shows "td_inv closed (tcp_dir (tcp_put io y c' w) p)"
    and "tcp_dir (tcp_put io y c' w) (flip p) = tcp_dir w (flip p)"
    and "tcp_frame w (tcp_put io y c' w)"
    and "tc_msg_queue c' = tc_msg_queue (tw_c w)"
    and "tw_reads (tcp_put io y c' w) = tw_reads w"
proof -
  have wr: "td_writes (tcp_dir w p) = []" using assms(5) by (simp add: tcp_dir_def)
  from assms(1) have "td_inv closed (tcp_dir (tcp_put io y c' w) p) \<and>
    tcp_dir (tcp_put io y c' w) (flip p) = tcp_dir w (flip p) \<and>
    tcp_frame w (tcp_put io y c' w) \<and> tc_msg_queue c' = tc_msg_queue (tw_c w) \<and>
    tw_reads (tcp_put io y c' w) = tw_reads w"
  proof (cases rule: tc_next_write_cases)
    case idle
    then show ?thesis using td_inv_idle [OF assms(2-4) wr, of closed]
      by (simp add: tcp_dir_def tcp_put_def tcp_frame_def)
  next
    case (go m ms bs av)
    moreover have "bs = td_view m" using go by (simp add: td_view_def buffer_view_def)
    ultimately show ?thesis using td_inv_begin [OF assms(2-4) wr, of closed] assms(5)
      by (simp add: tcp_dir_def tcp_put_def tcp_frame_def)
  qed
  then show "td_inv closed (tcp_dir (tcp_put io y c' w) p)"
    and "tcp_dir (tcp_put io y c' w) (flip p) = tcp_dir w (flip p)"
    and "tcp_frame w (tcp_put io y c' w)"
    and "tc_msg_queue c' = tc_msg_queue (tw_c w)"
    and "tw_reads (tcp_put io y c' w) = tw_reads w"
    by blast+
qed

section \<open>The invariant from one direction\<close>

lemma tcp_inv_dir: "tcp_inv w \<Longrightarrow> td_inv (tc_close_flag (tw_c w)) (tcp_dir w p)"
  by (simp add: tcp_inv_def)

lemma tcp_inv_frame:
  assumes inv: "tcp_inv w" and frame: "tcp_frame w w'"
    and one: "td_inv (tc_close_flag (tw_c w')) (tcp_dir w' p)"
    and other: "tcp_dir w' (flip p) = tcp_dir w (flip p)"
    and conn: "tw_connects w = 1 \<Longrightarrow> \<forall>q. tw_reads w' q = 0 \<and> tc_msg_queue (tw_c w') q = []"
  shows "tcp_inv w'"
proof -
  have "td_inv (tc_close_flag (tw_c w')) (tcp_dir w' (flip p))"
    using tcp_inv_dir [OF inv, of "flip p"] frame td_inv_closed [of "tc_close_flag (tw_c w)" _ "tc_close_flag (tw_c w')"]
    by (auto simp: other tcp_frame_def)
  then have "\<forall>q. td_inv (tc_close_flag (tw_c w')) (tcp_dir w' q)"
    using one by (simp add: all_idx2_flip [of _ p])
  then show ?thesis
    using inv frame conn tcp_ip_ok_same [of "tw_x w" "tw_x w'" "tw_c w'" "tw_c w"]
    by (auto simp: tcp_inv_def tcp_frame_def ip_same_def)
qed

lemma tc_stop_cases:
  assumes "tc_stop c = Inr (io, c')"
  shows "io = [Tcp_close I0, Tcp_close I1]" and "tc_close_flag c'"
    and "c' = c\<lparr>tc_close_flag := True,
           tc_socket := (tc_socket c)(I0 := Some Sock_closed, I1 := Some Sock_closed)\<rparr>"
  using assms by (auto simp: tc_stop_def Let_def split: if_splits)

lemma tc_stop_total: "\<forall>p. tc_socket c p \<noteq> None \<Longrightarrow> \<exists>r. tc_stop c = Inr r"
  by (auto simp: tc_stop_def Let_def)

section \<open>Each step\<close>

lemma tc_handleRead_result:
  assumes "tc_socket c p \<noteq> None"
  shows "tc_handleRead rule now p Success n c =
    (let t = (if tc_full_open c then now else tc_active_time c);
         m = (t + tr_delay_ms rule, \<lparr>bf_buf = tc_recv_buf c p, bf_size = int n\<rparr>);
         q = (tc_msg_queue c)(flip p := tc_msg_queue c (flip p) @ [m])
     in if tc_msg_queue c (flip p) = []
        then Inr ([Tcp_read p], c\<lparr>tc_active_time := t, tc_msg_queue := q,
               tc_recv_buf := (tc_recv_buf c)(p := Some (new_bytes (int TCP_BUFFER_SIZE)))\<rparr>)
        else Inr ([], c\<lparr>tc_active_time := t, tc_msg_queue := q,
               tc_reading_flag := (tc_reading_flag c)(p := False)\<rparr>))"
  using assms
  by (cases "tc_full_open c")
     (auto simp add: tc_handleRead_def tc_asyncRead_def Let_def MAX_TCP_MSG_QUEUE_SIZE_def)

lemma tc_handleRead_total:
  assumes "\<forall>q. tc_socket c q \<noteq> None"
  shows "\<exists>io c'. tc_handleRead rule now p ec n c = Inr (io, c')"
proof (cases "ec = Success")
  case True
  have "tc_socket c p \<noteq> None" using assms by simp
  from tc_handleRead_result [OF this, of rule now n] True show ?thesis
    by (cases "tc_msg_queue c (flip p) = []") (auto simp: Let_def)
next
  case False
  with tc_stop_total [OF assms] show ?thesis by (auto simp: tc_handleRead_def)
qed

lemma tcp_inv_read:
  assumes inv: "tcp_inv w" and rd: "0 < tw_reads w p"
    and data: "data \<noteq> []" "length data \<le> TCP_BUFFER_SIZE"
    and h: "tc_handleRead rule now p Success (length data) (tcp_recv_data p data (tw_c w)) = Inr (io, c)"
  shows "tcp_inv (tcp_put io (tw_x w) c
       (w\<lparr>tw_reads := (tw_reads w)(p := tw_reads w p - 1), tw_rx := (tw_rx w)(p := tw_rx w p @ data)\<rparr>))"
    (is "tcp_inv ?w'")
proof -
  let ?d = "tcp_dir w (flip p)"
  have d: "td_inv (tc_close_flag (tw_c w)) ?d" using inv by (rule tcp_inv_dir)
  have one: "td_reads ?d = 1" using d rd by (auto simp: tcp_dir_def td_inv_def td_read_ok_def)
  then obtain arr where arr: "tc_recv_buf (tw_c w) p = Some arr" "length arr = TCP_BUFFER_SIZE"
      "tc_reading_flag (tw_c w) p"
    using d by (auto simp: tcp_dir_def td_inv_def td_read_ok_def)
  define c1 where "c1 = tcp_recv_data p data (tw_c w)"
  define tm where "tm = (if tc_full_open c1 then now else tc_active_time c1) + tr_delay_ms rule"
  define m where "m = (tm, \<lparr>bf_buf = Some (data @ drop (length data) arr), bf_size = int (length data)\<rparr>)"
  have view: "td_view m = data" and ok: "buffer_ok (snd m)"
    by (simp_all add: m_def td_view_def buffer_view_def buffer_ok_def buffer_read_def)
  have len: "length (td_view m) \<le> TCP_BUFFER_SIZE" using data by (simp add: view)
  have sock: "tc_socket (tw_c w) q \<noteq> None" for q using inv by (simp add: tcp_inv_def)
  have conn: "tw_connects w \<noteq> 1" using inv rd by (auto simp: tcp_inv_def)
  have sock1: "tc_socket c1 p \<noteq> None" using sock by (simp add: c1_def tcp_recv_data_def)
  note res = h [folded c1_def, unfolded tc_handleRead_result [OF sock1] Let_def]
  note defs = tcp_dir_def td_restart_def td_push_def tcp_put_def tcp_recv_data_def tcp_frame_def
    m_def tm_def c1_def
  show ?thesis
  proof (cases "td_queue ?d")
    case Nil
    then have "tcp_dir ?w' (flip p) = td_restart (td_push m ?d)" and "tcp_dir ?w' p = tcp_dir w p"
      and "tcp_frame w ?w'" and "tc_close_flag (tw_c ?w') = tc_close_flag (tw_c w)"
      using res arr view by (auto simp: defs)
    with td_inv_push_more [OF d one ok len Nil] tcp_inv_frame [OF inv, of ?w' "flip p"] conn
    show ?thesis by simp
  next
    case (Cons m' ms)
    then have "tcp_dir ?w' (flip p) = (td_push m ?d)\<lparr>td_reading := False, td_buf := Some (data @ drop (length data) arr)\<rparr>" and "tcp_dir ?w' p = tcp_dir w p"
      and "tcp_frame w ?w'" and "tc_close_flag (tw_c ?w') = tc_close_flag (tw_c w)"
      using res arr view by (auto simp: defs)
    with td_inv_push_last [OF d one ok len] tcp_inv_frame [OF inv, of ?w' "flip p"] conn Cons
    show ?thesis by simp
  qed
qed

lemma tcp_inv_read_error:
  assumes inv: "tcp_inv w" and rd: "0 < tw_reads w p" and ec: "ec \<noteq> Success"
    and h: "tc_handleRead rule now p ec 0 (tw_c w) = Inr (io, c)"
  shows "tcp_inv (tcp_put io (tw_x w) c (w\<lparr>tw_reads := (tw_reads w)(p := tw_reads w p - 1)\<rparr>))"
    (is "tcp_inv ?w'")
proof -
  let ?d = "tcp_dir w (flip p)"
  have d: "td_inv (tc_close_flag (tw_c w)) ?d" using inv by (rule tcp_inv_dir)
  have conn: "tw_connects w \<noteq> 1" using inv rd by (auto simp: tcp_inv_def)
  have "tcp_dir ?w' (flip p) = ?d\<lparr>td_reads := td_reads ?d - 1\<rparr> \<and> tcp_dir ?w' p = tcp_dir w p \<and>
      tcp_frame w ?w'"
    using h ec
    by (auto simp: tc_handleRead_def tcp_dir_def tcp_put_def tcp_frame_def tc_stop_def Let_def split: if_splits)
  moreover from this have "td_inv (tc_close_flag (tw_c ?w')) (?d\<lparr>td_reads := td_reads ?d - 1\<rparr>)"
    using td_inv_closed [OF td_inv_read_end [OF d], of "tc_close_flag (tw_c ?w')"]
    by (auto simp: tcp_frame_def)
  ultimately show ?thesis
    using tcp_inv_frame [OF inv, of ?w' "flip p"] conn by simp
qed

lemma tcp_inv_write_error:
  assumes inv: "tcp_inv w" and wr: "tw_writes w p = bs # rest" and ec: "ec \<noteq> Success"
    and ab: "ec = Operation_aborted \<longrightarrow> tc_close_flag (tw_c w)"
    and h: "tc_handleWrite rule now p ec peer (tw_x w) (tw_c w) = Inr (io, x, c)"
  shows "tcp_inv (tcp_put io x c
       (w\<lparr>tw_writes := (tw_writes w)(p := rest), tw_tx := (tw_tx w)(p := tw_tx w p @ take k bs)\<rparr>))"
    (is "tcp_inv ?w'")
proof -
  let ?d = "tcp_dir w p"
  have d: "td_inv (tc_close_flag (tw_c w)) ?d" using inv by (rule tcp_inv_dir)
  have wr': "td_writes ?d = bs # rest" using wr by (simp add: tcp_dir_def)
  then have "td_queue ?d \<noteq> []" using td_writing_exact [OF d] by auto
  then have conn: "tw_connects w \<noteq> 1" using inv by (auto simp: tcp_inv_def tcp_dir_def)
  have "tcp_dir ?w' p = ?d\<lparr>td_writes := rest, td_tx := td_tx ?d @ take k bs\<rparr> \<and>
      tcp_dir ?w' (flip p) = tcp_dir w (flip p) \<and> tcp_frame w ?w' \<and> tc_close_flag (tw_c ?w')"
    using h ec ab
    by (auto simp: tc_handleWrite_def tcp_dir_def tcp_put_def tcp_frame_def tc_stop_def Let_def
        result_simps split: if_splits)
  with td_inv_write_failed [OF d wr', of k] tcp_inv_frame [OF inv, of ?w' p] conn
  show ?thesis by simp
qed

lemma tcp_inv_connect:
  assumes inv: "tcp_inv w" and cn: "0 < tw_connects w"
    and h: "tc_handleConnect now ec (tw_c w) = Inr (io, c)"
  shows "tcp_inv (tcp_put io (tw_x w) c (w\<lparr>tw_connects := tw_connects w - 1\<rparr>))"
    (is "tcp_inv ?w'")
proof -
  have d: "td_inv (tc_close_flag (tw_c w)) (tcp_dir w p)" for p using inv by (rule tcp_inv_dir)
  have one: "tw_connects w = 1" using inv cn by (auto simp: tcp_inv_def)
  have sock: "tc_socket (tw_c w) p \<noteq> None" for p using inv by (simp add: tcp_inv_def)
  have no: "tw_reads w p = 0" "tc_msg_queue (tw_c w) p = []" for p
    using inv one by (simp_all add: tcp_inv_def)
  show ?thesis
  proof (cases "ec = Success")
    case True
    define c2 where "c2 = tw_c w\<lparr>tc_active_time := now, tc_full_open := True,
      tc_recv_buf := (\<lambda>_. Some (new_bytes (int TCP_BUFFER_SIZE)))\<rparr>"
    have "(tc_recv_buf (tw_c w))(I0 := v, I1 := v) = (\<lambda>_. v)" for v
      by (rule ext, rename_tac i, case_tac i) simp_all
    then have res: "io = [Tcp_read I0, Tcp_read I1]" "c = c2"
      using h sock True by (auto simp: tc_handleConnect_def tc_asyncRead_def Let_def c2_def)
    have w': "?w' = w\<lparr>tw_c := c2, tw_connects := 0, tw_reads := (\<lambda>_. 1)\<rparr>"
    proof -
      have "(tw_reads w)(I0 := Suc (tw_reads w I0), I1 := Suc (tw_reads w I1)) = (\<lambda>_. 1)"
        by (rule ext, rename_tac i, case_tac i) (simp_all add: no)
      with one show ?thesis by (simp add: res tcp_put_def)
    qed
    have rf: "tc_reading_flag (tw_c w) (flip p)" for p
      using d [of p] no [of p] by (auto simp: td_defs tcp_dir_def)
    have "tcp_dir ?w' p = td_restart (tcp_dir w p)" for p
      using no [of "flip p"] rf [of p] unfolding w' by (simp add: c2_def tcp_dir_def td_restart_def)
    moreover have "tc_close_flag (tw_c ?w') = tc_close_flag (tw_c w)"
      and "tc_socket (tw_c ?w') = tc_socket (tw_c w)" and "tw_x ?w' = tw_x w"
      and "tc_client_ip (tw_c ?w') = tc_client_ip (tw_c w)" and "tw_connects ?w' = 0"
      unfolding w' by (simp_all add: c2_def)
    moreover have "td_inv (tc_close_flag (tw_c w)) (td_restart (tcp_dir w p))" for p
      using d [of p] no by (auto simp: td_defs td_restart_def tcp_dir_def td_exact_def td_broken_def td_bytes_def)
    ultimately show ?thesis using inv by (simp add: tcp_inv_def tcp_ip_ok_def)
  next
    case False
    then have "tcp_dir ?w' p = tcp_dir w p" and "tw_connects ?w' = 0" and "tw_x ?w' = tw_x w"
      and "tc_close_flag (tw_c w) \<longrightarrow> tc_close_flag (tw_c ?w')"
      and "tc_socket (tw_c ?w') p \<noteq> None"
      and "tc_client_ip (tw_c ?w') = tc_client_ip (tw_c w)" for p
      using h one sock
      by (auto simp: tc_handleConnect_def tcp_dir_def tcp_put_def tc_stop_def Let_def split: if_splits)
    moreover from this have "td_inv (tc_close_flag (tw_c ?w')) (tcp_dir w p)" for p
      using td_inv_closed [OF d [of p], of "tc_close_flag (tw_c ?w')"] by auto
    ultimately show ?thesis using inv by (simp add: tcp_inv_def tcp_ip_ok_def)
  qed
qed

lemma tcp_inv_next_write:
  assumes inv: "tcp_inv w" and frame: "tcp_frame w v" and other: "tcp_dir v (flip p) = tcp_dir w (flip p)"
    and conn: "tw_connects w = 1 \<Longrightarrow> \<forall>q. tw_reads v q = 0 \<and> tc_msg_queue (tw_c v) q = []"
    and ok: "td_read_ok (tcp_dir v p)" "td_queue_ok (tcp_dir v p)" "td_exact (tcp_dir v p)"
      "tw_writes v p = []"
    and h: "tc_next_write rule now p (tw_x v) (tw_c v) = Inr (io, y, c')"
  shows "tcp_inv (tcp_put io y c' v)"
proof -
  note n = tcp_next_write_dir [OF h ok]
  have "tcp_frame w (tcp_put io y c' v)" using frame n(3) by (rule tcp_frame_trans)
  moreover have "tcp_dir (tcp_put io y c' v) (flip p) = tcp_dir w (flip p)" using n(2) other by simp
  moreover have "tw_c (tcp_put io y c' v) = c'" by (simp add: tcp_put_def fold_tcp_issue_put)
  ultimately show ?thesis
    using tcp_inv_frame [OF inv, of "tcp_put io y c' v" p] n conn by simp
qed

lemma tw_put [simp]:
  "tw_c (tcp_put io x c w) = c" "tw_x (tcp_put io x c w) = x"
  by (simp_all add: tcp_put_def fold_tcp_issue_put)

lemma tc_handleWrite_written:
  assumes "tc_writing_flag c p" and "tc_msg_queue c p = m # ms"
    and "tc_handleWrite rule now p Success peer x c = Inr (io, y, c')"
    and sock: "\<forall>q. tc_socket c q \<noteq> None"
  obtains (stop) "ms = []" "io = [Tcp_close I0, Tcp_close I1]" "y = x" "tc_close_flag c'"
      "c' = c\<lparr>tc_msg_queue := (tc_msg_queue c)(p := ms), tc_close_flag := True,
              tc_socket := (tc_socket c)(I0 := Some Sock_closed, I1 := Some Sock_closed)\<rparr>"
      "\<not> tc_full_open c" "tc_msg_queue c (flip p) = []"
  | (restart) io' where "\<not> tc_reading_flag c (flip p)" "io = [Tcp_read (flip p)] @ io'"
      "tc_next_write rule now p x (c\<lparr>tc_msg_queue := (tc_msg_queue c)(p := ms),
         tc_reading_flag := (tc_reading_flag c)(flip p := True),
         tc_recv_buf := (tc_recv_buf c)(flip p := Some (new_bytes (int TCP_BUFFER_SIZE)))\<rparr>) = Inr (io', y, c')"
      "tc_full_open c \<or> ms \<noteq> [] \<or> tc_msg_queue c (flip p) \<noteq> []"
  | (more) "tc_reading_flag c (flip p)"
      "tc_next_write rule now p x (c\<lparr>tc_msg_queue := (tc_msg_queue c)(p := ms)\<rparr>) = Inr (io, y, c')"
      "tc_full_open c \<or> ms \<noteq> [] \<or> tc_msg_queue c (flip p) \<noteq> []"
proof -
  define c1 where "c1 = c\<lparr>tc_msg_queue := (tc_msg_queue c)(p := ms)\<rparr>"
  have sock1: "\<forall>q. tc_socket c1 q \<noteq> None" using sock by (simp add: c1_def)
  show thesis
  proof (cases "\<not> tc_full_open c1 \<and> tc_msg_queue c1 I0 = [] \<and> tc_msg_queue c1 I1 = []")
    case True
    then have "ms = []" "\<not> tc_full_open c" "tc_msg_queue c (flip p) = []"
      by (cases p; simp add: c1_def)+
    moreover obtain io' c2 where s: "tc_stop c1 = Inr (io', c2)"
      using tc_stop_total [OF sock1] by auto
    ultimately show thesis
      using stop assms(1-3) True s tc_stop_cases [OF s]
        by (auto simp: tc_handleWrite_def c1_def Let_def split: if_splits)
  next
    case False
    then have left: "tc_full_open c \<or> ms \<noteq> [] \<or> tc_msg_queue c (flip p) \<noteq> []"
      by (cases p) (auto simp: c1_def)
    show thesis
    proof (cases "tc_reading_flag c (flip p)")
      case True
      then show thesis using more assms(1-3) False left
        by (auto simp: tc_handleWrite_def c1_def Let_def split: if_splits)
    next
      case nr: False
      then show thesis
        using restart assms(1-3) False sock left
        by (auto simp: tc_handleWrite_def c1_def Let_def tc_asyncRead_def result_simps split: if_splits)
    qed
  qed
qed

lemma tcp_inv_written:
  assumes inv: "tcp_inv w" and wr: "tw_writes w p = bs # rest"
    and h: "tc_handleWrite rule now p Success peer (tw_x w) (tw_c w) = Inr (io, y, c')"
  shows "tcp_inv (tcp_put io y c'
       (w\<lparr>tw_writes := (tw_writes w)(p := rest), tw_tx := (tw_tx w)(p := tw_tx w p @ bs)\<rparr>))"
    (is "tcp_inv (tcp_put io y c' ?w)")
proof -
  let ?d = "tcp_dir w p"
  have d: "td_inv (tc_close_flag (tw_c w)) ?d" using inv by (rule tcp_inv_dir)
  obtain m ms where q: "td_queue ?d = m # ms" and bs: "bs = td_view m" and rest: "rest = []"
    and ex: "td_exact ?d" and wf: "td_writing ?d"
    using td_writing_exact [OF d, of bs rest] wr by (auto simp: tcp_dir_def)
  have sock: "\<forall>q. tc_socket (tw_c w) q \<noteq> None" using inv by (simp add: tcp_inv_def)
  have conn: "tw_connects w \<noteq> 1" using inv q by (auto simp: tcp_inv_def tcp_dir_def)
  have qc: "tc_msg_queue (tw_c w) p = m # ms" and wc: "tc_writing_flag (tw_c w) p"
    using q wf by (simp_all add: tcp_dir_def)
  have rok: "td_read_ok ?d" and qok: "td_queue_ok ?d" using d by (simp_all add: td_inv_def)
  have pex: "td_exact (td_pop ?d)" using td_pop_exact [OF ex] q by simp
  show ?thesis
    using wc qc h sock
  proof (cases rule: tc_handleWrite_written)
    case stop
    have "td_reading ?d" using qok q stop(1) by (simp add: td_queue_ok_def)
    then have "td_inv True (td_pop ?d)"
      using td_pop_queue_ok [OF qok] td_pop_read_ok [OF rok] pex
      by (simp add: td_inv_def td_write_ok_def td_pop_def)
    moreover have "tcp_dir (tcp_put io y c' ?w) p = td_pop ?d"
      "tcp_dir (tcp_put io y c' ?w) (flip p) = tcp_dir w (flip p)" "tcp_frame w (tcp_put io y c' ?w)"
      using stop q bs rest qc by (auto simp: tcp_dir_def tcp_put_def td_pop_def tcp_frame_def)
    ultimately show ?thesis
      using tcp_inv_frame [OF inv, of "tcp_put io y c' ?w" p] stop conn by simp
  next
    case (restart io')
    let ?c = "(tw_c w)\<lparr>tc_msg_queue := (tc_msg_queue (tw_c w))(p := ms),
         tc_reading_flag := (tc_reading_flag (tw_c w))(flip p := True),
         tc_recv_buf := (tc_recv_buf (tw_c w))(flip p := Some (new_bytes (int TCP_BUFFER_SIZE)))\<rparr>"
    let ?v = "tcp_put [Tcp_read (flip p)] (tw_x w) ?c ?w"
    have v: "tcp_dir ?v p = td_restart (td_pop ?d)" "tcp_dir ?v (flip p) = tcp_dir w (flip p)"
      "tcp_frame w ?v" "tw_writes ?v p = []"
      using q bs rest qc
      by (auto simp: tcp_dir_def tcp_put_def td_pop_def td_restart_def tcp_frame_def)
    have "td_reads (td_pop ?d) = 0" using rok restart(1) by (auto simp: td_read_ok_def td_pop_def tcp_dir_def)
    then have "td_read_ok (tcp_dir ?v p)" "td_queue_ok (tcp_dir ?v p)" "td_exact (tcp_dir ?v p)"
      using td_restart_read_ok td_restart_pop_queue_ok [OF qok] pex by (simp_all add: v)
    then have "tcp_inv (tcp_put io' y c' ?v)"
      using tcp_inv_next_write [OF inv v(3,2)] conn v(4) restart(3) by simp
    moreover have "tcp_put io y c' ?w = tcp_put io' y c' ?v"
      unfolding restart(2) by (rule tcp_put_append)
    ultimately show ?thesis by simp
  next
    case more
    let ?c = "(tw_c w)\<lparr>tc_msg_queue := (tc_msg_queue (tw_c w))(p := ms)\<rparr>"
    let ?v = "tcp_put [] (tw_x w) ?c ?w"
    have v: "tcp_dir ?v p = td_pop ?d" "tcp_dir ?v (flip p) = tcp_dir w (flip p)"
      "tcp_frame w ?v" "tw_writes ?v p = []"
      using q bs rest qc
      by (auto simp: tcp_dir_def tcp_put_def td_pop_def td_restart_def tcp_frame_def)
    have "td_reading ?d" using more by (simp add: tcp_dir_def)
    then have "td_read_ok (tcp_dir ?v p)" "td_queue_ok (tcp_dir ?v p)" "td_exact (tcp_dir ?v p)"
      using td_pop_read_ok [OF rok] td_pop_queue_ok [OF qok] pex by (simp_all add: v)
    then have "tcp_inv (tcp_put io y c' ?v)"
      using tcp_inv_next_write [OF inv v(3,2)] conn v(4) more(2) by simp
    moreover have "tcp_put io y c' ?w = tcp_put io y c' ?v"
      using tcp_put_append [of "[]" io y c' ?w "tw_x w" ?c] by simp
    ultimately show ?thesis by simp
  qed
qed

lemma tcp_inv_flush_side:
  assumes inv: "tcp_inv w"
    and h: "tc_flush_side rule now flush_bytes p (tw_x w) (tw_c w) = Inr (io, y, c')"
  shows "tcp_inv (tcp_put io y c' w)"
proof -
  define c1 where "c1 = tc_refill (tr_max_bandwidth rule) p flush_bytes (tw_c w)"
  obtain av where c1_av: "c1 = (tw_c w)\<lparr>tc_available_bytes := av\<rparr>"
    unfolding c1_def using tc_refill_avail by blast
  let ?v = "tcp_put [] (tw_x w) c1 w"
  have v: "tcp_dir ?v q = tcp_dir w q" "tcp_frame w ?v" "tw_reads ?v = tw_reads w"
      "tw_writes ?v = tw_writes w" for q
    by (simp_all add: tcp_dir_def tcp_put_def c1_av tcp_frame_def)
  have same: "tcp_put io y c' w = tcp_put io y c' ?v"
    using tcp_put_append [of "[]" io y c' w "tw_x w" c1] by simp
  have c1: "tc_flush_side rule now flush_bytes p (tw_x w) (tw_c w) =
      (if \<not> tc_writing_flag c1 p then tc_next_write rule now p (tw_x w) c1 else Inr ([], tw_x w, c1))"
    by (simp add: tc_flush_side_def c1_def tc_handleWrite_def Let_def)
  have d: "td_inv (tc_close_flag (tw_c w)) (tcp_dir w p)" using inv by (rule tcp_inv_dir)
  have conn: "tw_connects w = 1 \<Longrightarrow> \<forall>q. tw_reads ?v q = 0 \<and> tc_msg_queue (tw_c ?v) q = []"
  proof -
    have "tc_msg_queue (tw_c ?v) = tc_msg_queue (tw_c w)" by (simp add: c1_av)
    with v(3) inv show "tw_connects w = 1 \<Longrightarrow> \<forall>q. tw_reads ?v q = 0 \<and> tc_msg_queue (tw_c ?v) q = []"
      by (simp add: tcp_inv_def)
  qed
  show ?thesis
  proof (cases "tc_writing_flag c1 p")
    case True
    then have "tcp_put io y c' w = ?v" using h c1 by simp
    then show ?thesis
      using tcp_inv_frame [OF inv v(2), of p] d v conn by (simp add: c1_av)
  next
    case False
    then have "\<not> td_writing (tcp_dir w p)" by (simp add: tcp_dir_def c1_av)
    moreover have "td_writes (tcp_dir w p) = tw_writes w p" by (simp add: tcp_dir_def)
    ultimately have "td_read_ok (tcp_dir ?v p)" "td_queue_ok (tcp_dir ?v p)" "td_exact (tcp_dir ?v p)"
      "tw_writes ?v p = []"
      using d by (auto simp: v td_inv_def td_broken_def td_write_ok_def)
    then show ?thesis
      using tcp_inv_next_write [OF inv v(2) v(1) conn] h c1 False unfolding same by simp
  qed
qed

lemma tcp_inv_fields: "tcp_inv (w\<lparr>tw_now := n, tw_alive := b\<rparr>) = tcp_inv w"
  by (simp add: tcp_inv_def tcp_dir_def)

lemma tcp_inv_stop:
  assumes inv: "tcp_inv w" and "tc_stop (tw_c w) = Inr (io, c)"
  shows "tcp_inv (tcp_put io (tw_x w) c w)"
proof -
  note s = tc_stop_cases [OF assms(2)]
  have d: "td_inv True (tcp_dir w p)" for p
    using td_inv_closed [OF tcp_inv_dir [OF inv, of p], of True] by simp
  have "tcp_dir (tcp_put io (tw_x w) c w) p = tcp_dir w p" for p
    by (simp add: s tcp_dir_def tcp_put_def)
  with d inv show ?thesis
    by (simp add: tcp_inv_def s) (simp add: tcp_put_def tcp_ip_ok_def)
qed

lemma tcp_inv_flush:
  assumes inv: "tcp_inv w"
    and h: "tc_flushMsgs rule now flush_bytes expire (tw_x w) (tw_c w) = Inr (stay, io, y, c')"
  shows "tcp_inv (tcp_put io y c' (w\<lparr>tw_now := now, tw_alive := stay\<rparr>))"
    (is "tcp_inv (tcp_put io y c' ?w)")
proof -
  have inv': "tcp_inv ?w" using inv by (simp add: tcp_inv_fields)
  have same: "tcp_put [] (tw_x ?w) (tw_c ?w) ?w = ?w" by (simp add: tcp_put_def)
  consider (quiet) "io = []" "y = tw_x w" "c' = tw_c w"
    | (expired) "tc_stop (tw_c w) = Inr (io, c')" "y = tw_x w"
    | (sides) io0 io1 y0 c0 where "tc_flush_side rule now flush_bytes I0 (tw_x w) (tw_c w) = Inr (io0, y0, c0)"
        "tc_flush_side rule now flush_bytes I1 y0 c0 = Inr (io1, y, c')" "io = io0 @ io1"
    using h by (auto simp: tc_flushMsgs_def result_simps split: if_splits)
  then show ?thesis
  proof cases
    case quiet
    with inv' same show ?thesis by simp
  next
    case expired
    then show ?thesis using tcp_inv_stop [OF inv', of io c'] by simp
  next
    case sides
    have "tcp_inv (tcp_put io0 y0 c0 ?w)" using tcp_inv_flush_side [OF inv'] sides(1) by simp
    then have "tcp_inv (tcp_put io1 y c' (tcp_put io0 y0 c0 ?w))"
      using tcp_inv_flush_side sides(2) by (metis tw_put)
    then show ?thesis unfolding sides(3) by (simp only: tcp_put_append [of io0 io1 y c' _ y0 c0])
  qed
qed

lemma tcp_inv_others:
  assumes inv: "tcp_inv w" and x: "ipx_ok x" "ipx_bandwidth x = ipx_bandwidth (tw_x w)"
    "\<forall>a. tc_client_ip (tw_c w) = Some a \<longrightarrow> ip_lookup (tw_x w) a \<noteq> None \<longrightarrow> ip_lookup x a \<noteq> None"
  shows "tcp_inv (w\<lparr>tw_x := x\<rparr>)"
proof -
  have "tcp_ip_ok x (tw_c w)"
    using inv x by (fastforce simp: tcp_inv_def tcp_ip_ok_def)
  then show ?thesis using inv x(1) by (simp add: tcp_inv_def tcp_dir_def)
qed

lemma tcp_inv_io_step:
  assumes "tcp_inv w" and "tcp_io_step w w'"
  shows "tcp_inv w'"
  using assms(2,1)
proof (cases rule: tcp_io_step_cases)
  case connect then show ?thesis using tcp_inv_connect [OF assms(1) connect(3,4)] by simp
next
  case read then show ?thesis using tcp_inv_read [OF assms(1) read(3-6)] by simp
next
  case read_error then show ?thesis using tcp_inv_read_error [OF assms(1) read_error(3-5)] by simp
next
  case written then show ?thesis using tcp_inv_written [OF assms(1) written(3-4)] by simp
next
  case write_error then show ?thesis using tcp_inv_write_error [OF assms(1) write_error(3-6)] by simp
next
  case others then show ?thesis using tcp_inv_others [OF assms(1) others(3-5)] by simp
next
  case clock then show ?thesis using assms(1) by (simp add: tcp_inv_def tcp_dir_def)
next
  case closed then show ?thesis using tcp_inv_stop [OF assms(1) closed(3)] by simp
qed

lemma tcp_inv_step: "tcp_inv w \<Longrightarrow> tcp_step w w' \<Longrightarrow> tcp_inv w'"
  by (erule tcp_step.cases) (simp_all add: tcp_inv_io_step tcp_inv_flush)

lemma tcp_inv_init: "tcp_init w \<Longrightarrow> tcp_inv w"
proof -
  assume "tcp_init w"
  then obtain rule now a x0 x c where x0: "ipx_ok x0" and new: "tc_new now (Some a) x0 = Inr (c, x)"
    and w: "w = tcp_accept_world rule now x c"
    unfolding tcp_init_def by blast
  obtain ci where get: "getIPProxy a x0 = (ci, x)" and c: "tc_client_ip c = ci"
      "tc_msg_queue c = (\<lambda>_. [])" "tc_reading_flag c = (\<lambda>_. True)" "tc_writing_flag c = (\<lambda>_. False)"
      "tc_socket c = (\<lambda>_. None)(I0 := Some Sock_open)"
    using new by (auto simp: tc_new_def split: prod.splits)
  have "ipx_ok x" using getIPProxy_ok [OF x0, of a] get by simp
  moreover have "tcp_ip_ok x c"
  proof (cases "ipx_bandwidth x0 I0 = 0 \<and> ipx_bandwidth x0 I1 = 0")
    case True
    then have "ipx_bandwidth x i = 0" for i
      using getIPProxy_bandwidth [of a x0] get by (cases i) simp_all
    then show ?thesis by (simp add: tcp_ip_ok_def)
  next
    case False
    then have ci: "fst (getIPProxy a x0) = Some a" by (simp add: getIPProxy_fst)
    then show ?thesis using getIPProxy_lookup [OF ci] get c(1) by (simp add: tcp_ip_ok_def)
  qed
  moreover have "tc_socket (snd (tc_start c)) p \<noteq> None" for p
    by (cases p) (simp_all add: tc_start_def c)
  ultimately show ?thesis
    unfolding w tcp_inv_def
    by (auto simp: tcp_accept_world_def tc_start_def tcp_put_def tcp_dir_def td_defs td_exact_def
        td_bytes_def tcp_ip_ok_def c)
qed

interpretation tcw: step_invariant "tcp_init :: 'a::linorder tcp_world \<Rightarrow> bool" tcp_step tcp_inv
  by unfold_locales (fact tcp_inv_init, fact tcp_inv_step)

end
