(* ===== verification/Tcp_Props.thy ===== *)
theory Tcp_Props
  imports Tcp_Inv
begin

text \<open>
  What a \<open>TcpConnection\<close> does for its two peers, in every state that any order of
  completions, timer ticks and payments of other connections can reach: bytes arrive in
  order and complete, memory is bounded, handlers do not fail, writes start exactly when
  they may, and the connection is a bounded first-in first-out channel per direction.
\<close>

section \<open>A connection to evaluate on\<close>

text \<open>Steps as functions: the event is delivered when the handler returns.\<close>

definition tcp_do_connect :: "'a::linorder tcp_world \<Rightarrow> 'a tcp_world" where
  "tcp_do_connect w =
     (case tc_handleConnect (tw_now w) Success (tw_c w) of
        Inl _ \<Rightarrow> w
      | Inr (io, c) \<Rightarrow> tcp_put io (tw_x w) c (w\<lparr>tw_connects := tw_connects w - 1\<rparr>))"

definition tcp_do_read :: "idx2 \<Rightarrow> byte list \<Rightarrow> 'a::linorder tcp_world \<Rightarrow> 'a tcp_world" where
  "tcp_do_read p data w =
     (case tc_handleRead (tw_rule w) (tw_now w) p Success (length data) (tcp_recv_data p data (tw_c w)) of
        Inl _ \<Rightarrow> w
      | Inr (io, c) \<Rightarrow> tcp_put io (tw_x w) c
          (w\<lparr>tw_reads := (tw_reads w)(p := tw_reads w p - 1), tw_rx := (tw_rx w)(p := tw_rx w p @ data)\<rparr>))"

definition tcp_do_flush :: "msec \<Rightarrow> int \<Rightarrow> msec \<Rightarrow> 'a::linorder tcp_world \<Rightarrow> 'a tcp_world" where
  "tcp_do_flush now flush_bytes expire w =
     (case tc_flushMsgs (tw_rule w) now flush_bytes expire (tw_x w) (tw_c w) of
        Inl _ \<Rightarrow> w
      | Inr (stay, io, x, c) \<Rightarrow> tcp_put io x c (w\<lparr>tw_now := now, tw_alive := stay\<rparr>))"

abbreviation tcp_reach :: "'a::linorder tcp_world \<Rightarrow> bool" where
  "tcp_reach \<equiv> reachable tcp_init tcp_step"

lemma tcp_reach_inv: "tcp_reach w \<Longrightarrow> tcp_inv w"
  by (rule tcw.reachable_inv)

text \<open>
  A connection from address 7 under a limit of 100000 bytes per second: accepted at 0,
  connected, 3 bytes read from the client, flushed at 10.
\<close>

definition demo_rule :: "nat tcp_rule" where
  "demo_rule = \<lparr>tr_src_port = 80, tr_dst_endpoint = Endpoint 9 8080, tr_max_bandwidth = 100000,
     tr_delay_ms = 5\<rparr>"

definition demo_conn :: "nat tcp_conn" where
  "demo_conn = \<lparr>tc_close_flag = False, tc_socket = (\<lambda>_. None)(I0 := Some Sock_open),
     tc_recv_buf = (\<lambda>_. None), tc_msg_queue = (\<lambda>_. []), tc_available_bytes = (\<lambda>_. 0),
     tc_writing_flag = (\<lambda>_. False), tc_reading_flag = (\<lambda>_. True), tc_active_time = 0,
     tc_full_open = False, tc_client_ip = None\<rparr>"

definition demo0 :: "nat tcp_world" where
  "demo0 = tcp_accept_world demo_rule 0 new_ip_proxies demo_conn"

definition demo1 :: "nat tcp_world" where "demo1 = tcp_do_connect demo0"
definition demo2 :: "nat tcp_world" where "demo2 = tcp_do_read I0 [1, 2, 3] demo1"
definition demo3 :: "nat tcp_world" where "demo3 = tcp_do_flush 10 1000 0 demo2"

lemma demo0_eq:
  "demo0 = \<lparr>tw_rule = demo_rule, tw_now = 0, tw_x = new_ip_proxies,
     tw_c = demo_conn\<lparr>tc_socket := (\<lambda>_. Some Sock_open)\<rparr>, tw_alive = True, tw_connects = 1,
     tw_reads = (\<lambda>_. 0), tw_writes = (\<lambda>_. []), tw_rx = (\<lambda>_. []), tw_tx = (\<lambda>_. [])\<rparr>"
  by (simp add: demo0_def tcp_accept_world_def tc_start_def tcp_put_def demo_conn_def)

definition demo_buf :: "byte list option" where
  "demo_buf = Some (new_bytes (int TCP_BUFFER_SIZE))"

lemma demo1_eq:
  "demo1 = demo0\<lparr>tw_c := (tw_c demo0)\<lparr>tc_full_open := True, tc_recv_buf := (\<lambda>_. demo_buf)\<rparr>,
     tw_connects := 0, tw_reads := (\<lambda>_. 1)\<rparr>"
  by (simp add: demo1_def tcp_do_connect_def tc_handleConnect_def tc_asyncRead_def Let_def
      demo0_eq demo_conn_def tcp_put_def demo_buf_def)

definition demo_msg :: tcp_msg where
  "demo_msg = (5, \<lparr>bf_buf = Some ([1, 2, 3] @ drop 3 (new_bytes (int TCP_BUFFER_SIZE))), bf_size = 3\<rparr>)"

lemma demo2_eq:
  "demo2 = demo1\<lparr>tw_c := (tw_c demo1)\<lparr>tc_msg_queue := (\<lambda>_. [])(I1 := [demo_msg])\<rparr>,
     tw_rx := (\<lambda>_. [])(I0 := [1, 2, 3])\<rparr>"
  by (simp add: demo2_def tcp_do_read_def tc_handleRead_def tc_asyncRead_def Let_def tcp_recv_data_def
      demo1_eq demo0_eq demo_conn_def tcp_put_def demo_buf_def demo_msg_def demo_rule_def
      MAX_TCP_MSG_QUEUE_SIZE_def fun_upd_idem numeral_3_eq_3)

lemma demo_msg_read: "buffer_read (snd demo_msg) = Inr [1, 2, 3]"
proof -
  have "length ([1, 2, 3] @ drop 3 (new_bytes (int TCP_BUFFER_SIZE))) = 4096"
    by (simp only: length_append length_drop length_new_bytes) (simp add: TCP_BUFFER_SIZE_def)
  then show ?thesis by (simp add: demo_msg_def buffer_read_def del: length_append length_Cons)
qed

lemma demo3_eq:
  "demo3 = demo2\<lparr>tw_now := 10, tw_c := (tw_c demo2)\<lparr>tc_available_bytes := (\<lambda>_. 0)(I1 := -57),
     tc_writing_flag := (\<lambda>_. False)(I1 := True)\<rparr>, tw_writes := (\<lambda>_. [])(I1 := [[1, 2, 3]])\<rparr>"
  using demo_msg_read
  by (simp add: demo3_def tcp_do_flush_def tc_flushMsgs_def tc_flush_side_def tc_refill_def tc_charge_def
      tc_handleWrite_def tc_next_write_def Let_def ip_pay_def new_ip_proxies_def demo_msg_def
      demo2_eq demo1_eq demo0_eq demo_conn_def tcp_put_def demo_rule_def buffer_get_size_def i32_def
      TCP_PACKET_EXTRA_OVERHEAD_def fun_upd_idem)

lemma demo_init: "tcp_init demo0"
proof -
  have "tc_new 0 (Some 7) (new_ip_proxies :: nat ip_proxies) = Inr (demo_conn, new_ip_proxies)"
    by (simp add: tc_new_def getIPProxy_def new_ip_proxies_def demo_conn_def)
  then show ?thesis unfolding tcp_init_def demo0_def using new_ip_proxies_ok by blast
qed

lemma demo_socks: "tc_socket (tw_c demo0) p \<noteq> None" "tc_socket (tw_c demo1) p \<noteq> None"
  by (simp_all add: demo1_eq demo0_eq)

lemma demo_event1: "tcp_event demo0 demo1"
proof -
  obtain io c where h: "tc_handleConnect (tw_now demo0) Success (tw_c demo0) = Inr (io, c)"
    using demo_socks by (auto simp: tc_handleConnect_def tc_asyncRead_def Let_def)
  then have "demo1 = tcp_put io (tw_x demo0) c (demo0\<lparr>tw_connects := tw_connects demo0 - 1\<rparr>)"
    by (simp add: demo1_def tcp_do_connect_def)
  also have "tcp_event demo0 \<dots>"
    by (rule tcp_event.connect [OF _ _ h]) (simp_all add: demo0_eq)
  finally show ?thesis .
qed

lemma demo_event2: "tcp_event demo1 demo2"
proof -
  have "\<forall>q. tc_socket (tcp_recv_data I0 [1, 2, 3] (tw_c demo1)) q \<noteq> None"
    using demo_socks by (simp add: tcp_recv_data_def)
  then obtain io c where h: "tc_handleRead (tw_rule demo1) (tw_now demo1) I0 Success (length [1, 2, 3 :: byte])
      (tcp_recv_data I0 [1, 2, 3] (tw_c demo1)) = Inr (io, c)"
    using tc_handleRead_total by blast
  then have "demo2 = tcp_put io (tw_x demo1) c (demo1\<lparr>tw_reads := (tw_reads demo1)(I0 := tw_reads demo1 I0 - 1),
      tw_rx := (tw_rx demo1)(I0 := tw_rx demo1 I0 @ [1, 2, 3])\<rparr>)"
    by (simp add: demo2_def tcp_do_read_def)
  also have "tcp_event demo1 \<dots>"
    by (rule tcp_event.read [OF _ _ _ _ h]) (simp_all add: demo1_eq demo0_eq TCP_BUFFER_SIZE_def)
  finally show ?thesis .
qed

lemmas demo_step1 = tcp_io_step.event [OF demo_event1]
lemmas demo_step2 = tcp_io_step.event [OF demo_event2]

lemma demo_flush:
  "\<exists>stay io x c. tc_flushMsgs (tw_rule demo2) 10 1000 0 (tw_x demo2) (tw_c demo2) = Inr (stay, io, x, c) \<and>
     demo3 = tcp_put io x c (demo2\<lparr>tw_now := 10, tw_alive := stay\<rparr>)"
proof (cases "tc_flushMsgs (tw_rule demo2) 10 1000 0 (tw_x demo2) (tw_c demo2)")
  case (Inl f)
  then have "demo3 = demo2" by (simp add: demo3_def tcp_do_flush_def)
  moreover have "tw_now demo3 = 10" "tw_now demo2 = 0" by (simp_all add: demo3_eq demo2_eq demo1_eq demo0_eq)
  ultimately show ?thesis by simp
next
  case (Inr r)
  then show ?thesis by (cases r) (simp add: demo3_def tcp_do_flush_def)
qed

lemma demo_alive: "tw_alive demo0" "tw_alive demo2"
  by (simp_all add: demo2_eq demo1_eq demo0_eq)

lemma demo_reach: "tcp_reach demo0" "tcp_reach demo1" "tcp_reach demo2" "tcp_reach demo3"
proof -
  show r0: "tcp_reach demo0" using demo_init by (rule reach_init)
  show r1: "tcp_reach demo1" using r0 tcp_step.io [OF demo_step1] by (rule reach_step)
  show r2: "tcp_reach demo2" using r1 tcp_step.io [OF demo_step2] by (rule reach_step)
  obtain stay io x c where f: "tc_flushMsgs (tw_rule demo2) 10 1000 0 (tw_x demo2) (tw_c demo2) = Inr (stay, io, x, c)"
    and d: "demo3 = tcp_put io x c (demo2\<lparr>tw_now := 10, tw_alive := stay\<rparr>)"
    using demo_flush by blast
  show "tcp_reach demo3"
    using r2 tcp_step.flush [OF demo_alive(2) f] unfolding d by (rule reach_step)
qed

section \<open>Bytes arrive in order and complete\<close>

lemma tcp_dir_sel [simp]:
  "td_rx (tcp_dir w p) = tw_rx w (flip p)" "td_tx (tcp_dir w p) = tw_tx w p"
  "td_queue (tcp_dir w p) = tc_msg_queue (tw_c w) p" "td_writes (tcp_dir w p) = tw_writes w p"
  "td_reads (tcp_dir w p) = tw_reads w (flip p)" "td_writing (tcp_dir w p) = tc_writing_flag (tw_c w) p"
  "td_reading (tcp_dir w p) = tc_reading_flag (tw_c w) (flip p)" "td_buf (tcp_dir w p) = tc_recv_buf (tw_c w) (flip p)"
  by (simp_all add: tcp_dir_def)

text \<open>The bytes that wait in the queue of side \<open>p\<close>.\<close>

definition tcp_queued :: "'a tcp_world \<Rightarrow> idx2 \<Rightarrow> byte list" where
  "tcp_queued w p = concat (map (buffer_view \<circ> snd) (tc_msg_queue (tw_c w) p))"

lemma td_bytes_queued: "td_bytes (tcp_dir w p) = tcp_queued w p"
  by (simp add: td_bytes_def tcp_queued_def td_view_def [abs_def] comp_def)

lemma td_prefix:
  assumes "td_inv closed d"
  shows "prefix (td_tx d) (td_rx d)" and "length (td_rx d) \<le> length (td_tx d) + length (td_bytes d)"
proof -
  consider "td_exact d" | "td_broken d" using assms by (auto simp: td_inv_def)
  then have "prefix (td_tx d) (td_rx d) \<and> length (td_rx d) \<le> length (td_tx d) + length (td_bytes d)"
  proof cases
    case 1
    then show ?thesis by (simp add: td_exact_def)
  next
    case 2
    then obtain sent k m ms where q: "td_queue d = m # ms" and r: "td_rx d = sent @ td_bytes d"
      and t: "td_tx d = sent @ take k (td_view m)"
      by (cases "td_queue d") (auto simp: td_broken_def)
    have "td_bytes d = take k (td_view m) @ drop k (td_view m) @ concat (map td_view ms)"
      by (simp add: td_bytes_def q)
    with r t show ?thesis by auto
  qed
  then show "prefix (td_tx d) (td_rx d)" and "length (td_rx d) \<le> length (td_tx d) + length (td_bytes d)"
    by simp_all
qed

lemma tcp_reach_streams:
  assumes "tcp_reach w"
  shows "prefix (tw_tx w p) (tw_rx w (flip p)) \<and>
    (\<not> tc_close_flag (tw_c w) \<longrightarrow> tw_rx w (flip p) = tw_tx w p @ tcp_queued w p)"
proof -
  have d: "td_inv (tc_close_flag (tw_c w)) (tcp_dir w p)"
    using tcp_reach_inv [OF assms] by (rule tcp_inv_dir)
  then have "\<not> tc_close_flag (tw_c w) \<Longrightarrow> td_exact (tcp_dir w p)"
    by (auto simp: td_inv_def td_write_ok_def td_broken_def)
  with td_prefix [OF d] show ?thesis by (auto simp: td_exact_def td_bytes_queued)
qed

text \<open>
  C1. Data integrity (\<open>TcpConnection\<close>, all handlers): in every reachable state what was
  written to a side is a prefix of what was read from the other side, so nothing is
  reordered, repeated, invented or skipped; and while the connection is not closed the
  rest of what was read is exactly what waits in the queue, so nothing is lost either.
\<close>

theorem tcp_integrity:
  assumes "tcp_reach w"
  shows "prefix (tw_tx w p) (tw_rx w (flip p)) \<and>
    (\<not> tc_close_flag (tw_c w) \<longrightarrow> tw_rx w (flip p) = tw_tx w p @ tcp_queued w p)"
  using assms by (rule tcp_reach_streams)

theorem tcp_integrity_witness:
  "tw_rx demo3 I0 = [1, 2, 3] \<and> \<not> tc_close_flag (tw_c demo3) \<and> tw_rx demo3 I0 = tw_tx demo3 I1 @ tcp_queued demo3 I1"
  using tcp_integrity [OF demo_reach(4), of I1]
  by (simp add: demo3_eq demo2_eq demo1_eq demo0_eq demo_conn_def)

section \<open>Bounded memory, one operation at a time\<close>

lemma tcp_queued_bound:
  assumes "tcp_reach w"
  shows "length (tcp_queued w p) \<le> 8192"
proof -
  define q where "q = tc_msg_queue (tw_c w) p"
  have q: "length q \<le> 2" "\<forall>m \<in> set q. length (buffer_view (snd m)) \<le> 4096"
    using tcp_inv_dir [OF tcp_reach_inv [OF assms], of p]
    by (auto simp: td_defs q_def td_view_def TCP_BUFFER_SIZE_def)
  then have "length (concat (map (buffer_view \<circ> snd) q)) \<le> 4096 * length q"
    by (induction q) auto
  with q(1) show ?thesis by (simp add: tcp_queued_def q_def [symmetric])
qed

text \<open>
  C15. One read and one write at a time, bounded memory (\<open>TcpConnection\<close>): in every
  reachable state a side has at most one read and at most one write outstanding; the write
  is of the front of its queue, which is not empty (so the \<open>XASSERT\<close> of
  \<open>handleWrite\<close> holds and the buffer of a running write stays alive); the queue holds at
  most two messages and at most 8192 bytes; and reading from the peer is stopped exactly
  while it holds two.
\<close>

theorem tcp_single_io:
  assumes "tcp_reach w"
  shows "tw_reads w (flip p) \<le> 1 \<and>
    (tw_writes w p = [] \<or>
      (\<exists>m ms. tc_msg_queue (tw_c w) p = m # ms \<and> tc_writing_flag (tw_c w) p \<and>
        tw_writes w p = [buffer_view (snd m)])) \<and>
    length (tc_msg_queue (tw_c w) p) \<le> 2 \<and> length (tcp_queued w p) \<le> 8192 \<and>
    (tc_reading_flag (tw_c w) (flip p) \<longleftrightarrow> length (tc_msg_queue (tw_c w) p) < 2)"
proof -
  have d: "td_inv (tc_close_flag (tw_c w)) (tcp_dir w p)"
    using tcp_reach_inv [OF assms] by (rule tcp_inv_dir)
  with tcp_queued_bound [OF assms, of p]
  show ?thesis by (cases "tc_msg_queue (tw_c w) p") (auto simp: td_defs td_view_def)
qed

theorem tcp_single_io_witness:
  "tw_writes demo3 I1 = [[1, 2, 3]] \<and> tc_msg_queue (tw_c demo3) I1 = [demo_msg] \<and>
   length (tcp_queued demo3 I1) \<le> 8192"
proof -
  have "tw_writes demo3 I1 = [[1, 2, 3]]" and "tc_msg_queue (tw_c demo3) I1 = [demo_msg]"
    by (simp_all add: demo3_eq demo2_eq demo1_eq demo0_eq)
  with tcp_single_io [OF demo_reach(4), of I1] show ?thesis by simp
qed

section \<open>The abstract relay\<close>

text \<open>
  What a connection promises: for each side a first-in first-out channel of bounded
  capacity. Bytes enter at the back and leave at the front.
\<close>

record relay =
  rl_flight :: "idx2 \<Rightarrow> byte list"
  rl_out :: "idx2 \<Rightarrow> byte list"

inductive relay_step :: "nat \<Rightarrow> relay \<Rightarrow> relay \<Rightarrow> bool" for cap :: nat where
  idle: "relay_step cap r r"
| enter: "length (rl_flight r p) + length data \<le> cap \<Longrightarrow>
     relay_step cap r (r\<lparr>rl_flight := (rl_flight r)(p := rl_flight r p @ data)\<rparr>)"
| leave: "n \<le> length (rl_flight r p) \<Longrightarrow>
     relay_step cap r (r\<lparr>rl_flight := (rl_flight r)(p := drop n (rl_flight r p)),
       rl_out := (rl_out r)(p := rl_out r p @ take n (rl_flight r p))\<rparr>)"

definition tcp_relay :: "'a tcp_world \<Rightarrow> relay" where
  "tcp_relay w = \<lparr>rl_flight = (\<lambda>p. drop (length (tw_tx w p)) (tw_rx w (flip p))), rl_out = tw_tx w\<rparr>"

lemma tcp_put_streams [simp]:
  "tw_rx (tcp_put io x c w) = tw_rx w" "tw_tx (tcp_put io x c w) = tw_tx w"
proof -
  have "tw_rx (fold tcp_issue io v) = tw_rx v \<and> tw_tx (fold tcp_issue io v) = tw_tx v" for v :: "'a tcp_world"
  proof (induction io arbitrary: v)
    case (Cons i io)
    then show ?case by (cases i) simp_all
  qed simp
  then show "tw_rx (tcp_put io x c w) = tw_rx w" and "tw_tx (tcp_put io x c w) = tw_tx w"
    by (simp_all add: tcp_put_def)
qed

lemma relay_same: "tw_rx w' = tw_rx w \<Longrightarrow> tw_tx w' = tw_tx w \<Longrightarrow> relay_step cap (tcp_relay w) (tcp_relay w')"
  using relay_step.idle by (simp add: tcp_relay_def)

lemma relay_enter:
  assumes "tw_rx w' = (tw_rx w)(flip p := tw_rx w (flip p) @ data)" and "tw_tx w' = tw_tx w"
    and "length (tw_tx w p) \<le> length (tw_rx w (flip p))"
    and "length (tw_rx w' (flip p)) \<le> length (tw_tx w' p) + cap"
  shows "relay_step cap (tcp_relay w) (tcp_relay w')"
proof -
  have "tcp_relay w' = (tcp_relay w)\<lparr>rl_flight := (rl_flight (tcp_relay w))
      (p := rl_flight (tcp_relay w) p @ data)\<rparr>"
    using assms(1-3) by (auto simp: tcp_relay_def fun_eq_iff) (metis flip_flip)
  then show ?thesis
    using relay_step.enter [of "tcp_relay w" p data cap] assms by (simp add: tcp_relay_def)
qed

lemma relay_leave:
  assumes "tw_rx w' = tw_rx w" and "tw_tx w' = (tw_tx w)(p := tw_tx w p @ sent)"
    and "prefix (tw_tx w' p) (tw_rx w' (flip p))"
  shows "relay_step cap (tcp_relay w) (tcp_relay w')"
proof -
  obtain rest where rx: "tw_rx w (flip p) = tw_tx w p @ sent @ rest"
    using assms by (auto simp: prefix_def)
  have eq: "tcp_relay w' = (tcp_relay w)\<lparr>rl_flight := (rl_flight (tcp_relay w))
      (p := drop (length sent) (rl_flight (tcp_relay w) p)),
      rl_out := (rl_out (tcp_relay w))(p := rl_out (tcp_relay w) p @ take (length sent) (rl_flight (tcp_relay w) p))\<rparr>"
    using assms(1,2) by (auto simp: tcp_relay_def fun_eq_iff rx)
  have "length sent \<le> length (rl_flight (tcp_relay w) p)" by (simp add: tcp_relay_def rx)
  then show ?thesis unfolding eq by (rule relay_step.leave)
qed

lemma tcp_flight_bound:
  assumes "tcp_reach w"
  shows "length (tw_rx w (flip p)) \<le> length (tw_tx w p) + 8192"
    and "length (tw_tx w p) \<le> length (tw_rx w (flip p))"
proof -
  have d: "td_inv (tc_close_flag (tw_c w)) (tcp_dir w p)"
    using tcp_reach_inv [OF assms] by (rule tcp_inv_dir)
  with td_prefix(2) [OF d] tcp_queued_bound [OF assms, of p] show "length (tw_rx w (flip p)) \<le> length (tw_tx w p) + 8192"
    by (simp add: td_bytes_queued)
  show "length (tw_tx w p) \<le> length (tw_rx w (flip p))"
    using td_prefix(1) [OF d] by (simp add: prefix_length_le)
qed

lemma tcp_relay_io:
  assumes w: "tcp_reach w" and w': "tcp_reach w'" and step: "tcp_io_step w w'"
  shows "relay_step 8192 (tcp_relay w) (tcp_relay w')"
  using step
proof (cases rule: tcp_io_step_cases)
  case (read p data io c)
  show ?thesis
    by (rule relay_enter [where p = "flip p" and data = data])
       (use read tcp_flight_bound [OF w, of "flip p"] tcp_flight_bound [OF w', of "flip p"] in simp_all)
next
  case (written p bs rest peer io x c)
  have "prefix (tw_tx w' p) (tw_rx w' (flip p))"
    using td_prefix(1) [OF tcp_inv_dir [OF tcp_reach_inv [OF w'], of p]] by simp
  then show ?thesis
    by (intro relay_leave [where p = p and sent = bs]) (use written in simp_all)
next
  case (write_error p bs rest ec peer io x c k)
  have "prefix (tw_tx w' p) (tw_rx w' (flip p))"
    using td_prefix(1) [OF tcp_inv_dir [OF tcp_reach_inv [OF w'], of p]] by simp
  then show ?thesis
    by (intro relay_leave [where p = p and sent = "take k bs"]) (use write_error in simp_all)
qed (auto intro: relay_same)

text \<open>
  C6. Refinement (\<open>TcpConnection\<close> as a whole): every step of a reachable connection is
  a step of a pair of first-in first-out channels that hold at most 8192 bytes each: a
  completed read enters bytes, a completed or failed write makes the bytes sent leave at
  the front, and everything else leaves both channels alone.
\<close>

theorem tcp_relay_refines:
  assumes "tcp_reach w" and "tcp_step w w'"
  shows "relay_step 8192 (tcp_relay w) (tcp_relay w')"
proof -
  have w': "tcp_reach w'" using assms by (rule reach_step)
  from assms(2) show ?thesis
    by cases (use assms w' in \<open>auto intro: tcp_relay_io relay_same\<close>)
qed

theorem tcp_relay_refines_witness:
  "relay_step 8192 (tcp_relay demo1) (tcp_relay demo2) \<and>
   rl_flight (tcp_relay demo1) I1 = [] \<and> rl_flight (tcp_relay demo2) I1 = [1, 2, 3]"
proof -
  have "tcp_step demo1 demo2" using demo_step2 by (rule tcp_step.io)
  from tcp_relay_refines [OF demo_reach(2) this] show ?thesis
    by (simp add: tcp_relay_def) (simp add: demo2_eq demo1_eq demo0_eq)
qed

end
