(* ===== verification/Tcp_Flow.thy ===== *)
theory Tcp_Flow
  imports Tcp_Props
begin

text \<open>
  When a \<open>TcpConnection\<close> acts and how it ends: no handler fails but for the one call that
  can throw, a timer tick starts exactly the writes that are due, and the connection closes
  after a half-close only when both directions are complete.
\<close>

section \<open>When a write is due\<close>

definition ip_due :: "idx2 \<Rightarrow> 'a::linorder option \<Rightarrow> 'a ip_proxies \<Rightarrow> bool" where
  "ip_due i client_ip x \<longleftrightarrow> ipx_bandwidth x i \<le> 0 \<or>
     (case client_ip of
        None \<Rightarrow> False
      | Some a \<Rightarrow> (case ip_lookup x a of None \<Rightarrow> False | Some q \<Rightarrow> 0 \<le> ip_avail_bytes q i))"

definition tc_due :: "msec \<Rightarrow> idx2 \<Rightarrow> 'a::linorder ip_proxies \<Rightarrow> 'a tcp_conn \<Rightarrow> bool" where
  "tc_due now p x c \<longleftrightarrow> tc_msg_queue c p \<noteq> [] \<and> fst (hd (tc_msg_queue c p)) \<le> now \<and>
     0 \<le> tc_available_bytes c p \<and> ip_due (flip p) (tc_client_ip c) x"

lemma ip_pay_go: "ip_pay i cost client x = Inr (go, y) \<Longrightarrow> go \<longleftrightarrow> ip_due i client x"
  by (auto simp: ip_pay_def ip_pay_entry_def ip_due_def split: if_splits option.splits)

lemma ip_pay_other_due:
  "ip_pay i cost client x = Inr (go, y) \<Longrightarrow> j \<noteq> i \<Longrightarrow> ip_due j client y \<longleftrightarrow> ip_due j client x"
  by (auto simp: ip_pay_def ip_pay_entry_def ip_due_def smap_find_put split: if_splits option.splits)

lemma tc_next_write_io:
  assumes "tc_next_write rule now p x c = Inr (io, y, c')"
  shows "io = (if tc_due now p x c then [Tcp_write p (buffer_view (snd (hd (tc_msg_queue c p))))] else [])"
    and "ip_due p (tc_client_ip c) y \<longleftrightarrow> ip_due p (tc_client_ip c) x"
proof -
  have "io = (if tc_due now p x c then [Tcp_write p (buffer_view (snd (hd (tc_msg_queue c p))))] else []) \<and>
    (ip_due p (tc_client_ip c) y \<longleftrightarrow> ip_due p (tc_client_ip c) x)"
  proof (cases "tc_msg_queue c p")
    case Nil
    with assms show ?thesis by (auto simp: tc_next_write_def tc_due_def)
  next
    case (Cons m ms)
    obtain tm buf where m: "m = (tm, buf)" by force
    show ?thesis
    proof (cases "0 \<le> tc_available_bytes c p \<and> tm \<le> now")
      case False
      with assms Cons m show ?thesis by (auto simp: tc_next_write_def tc_due_def)
    next
      case True
      let ?cost = "i32 (buffer_get_size buf + TCP_PACKET_EXTRA_OVERHEAD)"
      obtain g z where pay: "ip_pay (flip p) ?cost (tc_client_ip c) x = Inr (g, z)"
        using assms True Cons m by (auto simp: tc_next_write_def Let_def result_simps)
      with assms True Cons m have yz: "y = z"
        by (auto simp: tc_next_write_def Let_def result_simps split: if_splits)
      have "io = (if g then [Tcp_write p (buffer_view buf)] else [])"
        using assms True Cons m pay
        by (auto simp: tc_next_write_def Let_def result_simps buffer_view_def split: if_splits)
      with True Cons m ip_pay_go [OF pay] ip_pay_other_due [OF pay, of p] show ?thesis
        by (simp add: tc_due_def yz)
    qed
  qed
  then show "io = (if tc_due now p x c then [Tcp_write p (buffer_view (snd (hd (tc_msg_queue c p))))] else [])"
    and "ip_due p (tc_client_ip c) y \<longleftrightarrow> ip_due p (tc_client_ip c) x"
    by blast+
qed

lemma tc_next_write_other:
  assumes "tc_next_write rule now p x c = Inr (io, y, c')"
  shows "tc_msg_queue c' = tc_msg_queue c" and "tc_writing_flag c' (flip p) = tc_writing_flag c (flip p)"
    and "tc_available_bytes c' (flip p) = tc_available_bytes c (flip p)"
    and "tc_client_ip c' = tc_client_ip c" and "tc_socket c' = tc_socket c"
    and "tc_close_flag c' = tc_close_flag c" and "tcp_ip_ok x c \<longrightarrow> tcp_ip_ok y c'" and "ip_same x y"
proof -
  have same: "ip_same x y" and cl: "tc_client_ip c' = tc_client_ip c"
    and "tc_msg_queue c' = tc_msg_queue c" "tc_writing_flag c' (flip p) = tc_writing_flag c (flip p)"
    "tc_socket c' = tc_socket c" "tc_close_flag c' = tc_close_flag c"
    using assms by (cases rule: tc_next_write_cases; simp)+
  with tcp_ip_ok_same [OF same cl]
  show "tc_msg_queue c' = tc_msg_queue c" "tc_writing_flag c' (flip p) = tc_writing_flag c (flip p)"
    "tc_client_ip c' = tc_client_ip c" "tc_socket c' = tc_socket c"
    "tc_close_flag c' = tc_close_flag c" "tcp_ip_ok x c \<longrightarrow> tcp_ip_ok y c'" "ip_same x y" by simp_all
  show "tc_available_bytes c' (flip p) = tc_available_bytes c (flip p)"
    using assms
    by (auto simp: tc_next_write_def tc_charge_def Let_def result_simps split: list.splits if_splits)
qed

section \<open>A tick of the timer\<close>

lemma tc_flush_side_next:
  "tc_flush_side rule now n p x c =
     (if tc_writing_flag c p then Inr ([], x, tc_refill (tr_max_bandwidth rule) p n c)
      else tc_next_write rule now p x (tc_refill (tr_max_bandwidth rule) p n c))"
  by (simp add: tc_flush_side_def tc_handleWrite_def Let_def tc_refill_def)

lemma tc_refill_sel [simp]:
  "tc_msg_queue (tc_refill bw p n c) = tc_msg_queue c" "tc_writing_flag (tc_refill bw p n c) = tc_writing_flag c"
  "tc_client_ip (tc_refill bw p n c) = tc_client_ip c" "tc_socket (tc_refill bw p n c) = tc_socket c"
  "tc_close_flag (tc_refill bw p n c) = tc_close_flag c"
  "tc_available_bytes (tc_refill bw p n c) (flip p) = tc_available_bytes c (flip p)"
  by (simp_all add: tc_refill_def)

text \<open>What a tick writes to side \<open>p\<close>.\<close>

definition tc_tick_io :: "'a tcp_rule \<Rightarrow> msec \<Rightarrow> int \<Rightarrow> 'a::linorder ip_proxies \<Rightarrow> 'a tcp_conn \<Rightarrow> idx2 \<Rightarrow> tcp_io list" where
  "tc_tick_io rule now flush_bytes x c p =
     (if \<not> tc_writing_flag c p \<and> tc_due now p x (tc_refill (tr_max_bandwidth rule) p flush_bytes c)
      then [Tcp_write p (buffer_view (snd (hd (tc_msg_queue c p))))] else [])"

lemma tcp_ip_ok_refill [simp]: "tcp_ip_ok x (tc_refill bw p n c) = tcp_ip_ok x c"
  by (simp add: tcp_ip_ok_def)

text \<open>What a connection needs for its operations not to fail.\<close>

definition tc_ready :: "'a::linorder ip_proxies \<Rightarrow> 'a tcp_conn \<Rightarrow> bool" where
  "tc_ready x c \<longleftrightarrow> tcp_ip_ok x c \<and> (\<forall>q. tc_socket c q \<noteq> None) \<and>
     (\<forall>q. \<forall>m \<in> set (tc_msg_queue c q). buffer_ok (snd m))"

text \<open>What the flush of a side keeps.\<close>

definition tc_kept :: "'a::linorder ip_proxies \<Rightarrow> 'a tcp_conn \<Rightarrow> 'a ip_proxies \<Rightarrow> 'a tcp_conn \<Rightarrow> bool" where
  "tc_kept x c y c' \<longleftrightarrow> ip_same x y \<and> tc_client_ip c' = tc_client_ip c \<and>
     tc_msg_queue c' = tc_msg_queue c \<and> tc_socket c' = tc_socket c"

lemma tc_kept_ready: "tc_kept x c y c' \<Longrightarrow> tc_ready x c \<Longrightarrow> tc_ready y c'"
  using tcp_ip_ok_same [of x y c' c] by (simp add: tc_kept_def tc_ready_def)

lemma tc_kept_trans: "tc_kept x c y d \<Longrightarrow> tc_kept y d z e \<Longrightarrow> tc_kept x c z e"
  using ip_same_trans by (auto simp: tc_kept_def)

lemma tc_flush_side_io:
  assumes "tc_flush_side rule now n p x c = Inr (io, y, c')"
  shows "io = tc_tick_io rule now n x c p" and "tc_tick_io rule now n y c' (flip p) = tc_tick_io rule now n x c (flip p)"
    and "tc_kept x c y c'" and "tc_close_flag c' = tc_close_flag c"
proof -
  let ?c = "tc_refill (tr_max_bandwidth rule) p n c"
  have eq: "tc_available_bytes (tc_refill bw (flip p) n c') (flip p) = tc_available_bytes (tc_refill bw (flip p) n c) (flip p)"
    if "tc_available_bytes c' (flip p) = tc_available_bytes c (flip p)" for bw and c' :: "'a tcp_conn"
    using that by (simp add: tc_refill_def)
  have "io = tc_tick_io rule now n x c p \<and> tc_tick_io rule now n y c' (flip p) = tc_tick_io rule now n x c (flip p) \<and>
    tc_kept x c y c' \<and> tc_close_flag c' = tc_close_flag c"
  proof (cases "tc_writing_flag c p")
    case True
    then have r: "io = []" "y = x" "c' = ?c" using assms by (simp_all add: tc_flush_side_next)
    with True eq [of c'] show ?thesis
      by (simp add: tc_tick_io_def tc_due_def tc_kept_def)
  next
    case False
    then have h: "tc_next_write rule now p x ?c = Inr (io, y, c')"
      using assms by (simp add: tc_flush_side_next)
    show ?thesis
      using False tc_next_write_io [OF h] tc_next_write_other [OF h] eq [of c']
      by (simp add: tc_tick_io_def tc_due_def tc_kept_def)
  qed
  then show "io = tc_tick_io rule now n x c p" "tc_tick_io rule now n y c' (flip p) = tc_tick_io rule now n x c (flip p)"
    "tc_kept x c y c'" "tc_close_flag c' = tc_close_flag c"
    by blast+
qed

lemma tc_flush_side_total:
  assumes "tc_ready x c"
  shows "\<exists>io y c'. tc_flush_side rule now n p x c = Inr (io, y, c')"
proof (cases "tc_writing_flag c p")
  case True
  then show ?thesis by (simp add: tc_flush_side_next)
next
  case False
  then show ?thesis
    using tc_next_write_total [of x "tc_refill (tr_max_bandwidth rule) p n c" p rule now] assms
    by (auto simp: tc_flush_side_next tc_ready_def)
qed

lemma tcp_reach_ready: "tcp_reach w \<Longrightarrow> tc_ready (tw_x w) (tw_c w)"
  using tcp_inv_dir [OF tcp_reach_inv] tcp_reach_inv [of w]
  by (fastforce simp: tc_ready_def tcp_inv_def td_defs)

lemma tc_flush_both:
  assumes "tc_ready x c"
  shows "\<exists>io0 y c1 io1 x' c'. tc_flush_side rule now n I0 x c = Inr (io0, y, c1) \<and>
    tc_flush_side rule now n I1 y c1 = Inr (io1, x', c') \<and>
    io0 = tc_tick_io rule now n x c I0 \<and> io1 = tc_tick_io rule now n x c I1 \<and>
    tc_kept x c x' c' \<and> tc_close_flag c' = tc_close_flag c"
proof -
  obtain io0 y c1 where s0: "tc_flush_side rule now n I0 x c = Inr (io0, y, c1)"
    using tc_flush_side_total [OF assms] by blast
  note r0 = tc_flush_side_io [OF s0]
  obtain io1 x' c' where s1: "tc_flush_side rule now n I1 y c1 = Inr (io1, x', c')"
    using tc_flush_side_total [OF tc_kept_ready [OF r0(3) assms]] by blast
  note r1 = tc_flush_side_io [OF s1]
  show ?thesis using s0 s1 r0(1,2,4) r1(1,4) tc_kept_trans [OF r0(3) r1(3)] by fastforce
qed

lemma tc_flushMsgs_outcome:
  assumes "tc_ready x c"
  shows "\<exists>stay io y c'. tc_flushMsgs rule now flush_bytes expire x c = Inr (stay, io, y, c') \<and>
    (stay \<longleftrightarrow> \<not> tc_close_flag c \<and> expire \<le> tc_active_time c) \<and>
    tc_close_flag c' = (\<not> stay) \<and>
    io = (if stay then tc_tick_io rule now flush_bytes x c I0 @ tc_tick_io rule now flush_bytes x c I1
          else if tc_close_flag c then [] else [Tcp_close I0, Tcp_close I1]) \<and>
    ip_same x y \<and> tc_client_ip c' = tc_client_ip c \<and> tc_ready y c'"
proof -
  have sock: "\<forall>q. tc_socket c q \<noteq> None" using assms by (simp add: tc_ready_def)
  consider (closed) "tc_close_flag c"
    | (expired) "\<not> tc_close_flag c" "tc_active_time c < expire"
    | (empty) "\<not> tc_close_flag c" "expire \<le> tc_active_time c" "\<not> tc_full_open c"
        "tc_msg_queue c I0 = []" "tc_msg_queue c I1 = []"
    | (sides) "\<not> tc_close_flag c" "expire \<le> tc_active_time c"
        "\<not> (\<not> tc_full_open c \<and> tc_msg_queue c I0 = [] \<and> tc_msg_queue c I1 = [])"
    by fastforce
  then show ?thesis
  proof cases
    case closed
    with assms show ?thesis by (intro exI [of _ False]) (simp add: tc_flushMsgs_def)
  next
    case expired
    obtain io c' where s: "tc_stop c = Inr (io, c')" using tc_stop_total [OF sock] by auto
    from tc_stop_cases [OF s] expired s assms show ?thesis
      by (intro exI [of _ False]) (simp add: tc_flushMsgs_def tc_ready_def tcp_ip_ok_def)
  next
    case empty
    with assms show ?thesis
      by (intro exI [of _ True]) (simp add: tc_flushMsgs_def tc_tick_io_def tc_due_def)
  next
    case sides
    obtain io0 y c1 io1 x' c' where s: "tc_flush_side rule now flush_bytes I0 x c = Inr (io0, y, c1)"
      "tc_flush_side rule now flush_bytes I1 y c1 = Inr (io1, x', c')"
      and io: "io0 = tc_tick_io rule now flush_bytes x c I0" "io1 = tc_tick_io rule now flush_bytes x c I1"
      and k: "tc_kept x c x' c'" "tc_close_flag c' = tc_close_flag c"
      using tc_flush_both [OF assms] by blast
    have "tc_flushMsgs rule now flush_bytes expire x c = Inr (True, io0 @ io1, x', c')"
      using sides s by (auto simp: tc_flushMsgs_def)
    with sides(1,2) io k tc_kept_ready [OF k(1) assms] show ?thesis by (auto simp: tc_kept_def)
  qed
qed

text \<open>
  C13. A tick of the timer (\<open>flushMsgs\<close>): on a reachable connection it never fails; the
  connection stays exactly when it is not closed and was active since the expiry time; when
  it does not stay it is closed and nothing is written; and when it stays, the writes started
  are, for each side that is not writing already, the front of its queue if the front has
  waited for its delay and neither the connection's allowance (after the top-up) nor that
  of the client address is negative. So a message that is due leaves at the next tick.
\<close>

theorem tcp_flush_outcome:
  assumes "tcp_reach w"
  shows "\<exists>stay io x c. tc_flushMsgs rule now flush_bytes expire (tw_x w) (tw_c w) = Inr (stay, io, x, c) \<and>
    (stay \<longleftrightarrow> \<not> tc_close_flag (tw_c w) \<and> expire \<le> tc_active_time (tw_c w)) \<and>
    tc_close_flag c = (\<not> stay) \<and>
    io = (if stay then tc_tick_io rule now flush_bytes (tw_x w) (tw_c w) I0 @
                       tc_tick_io rule now flush_bytes (tw_x w) (tw_c w) I1
          else if tc_close_flag (tw_c w) then [] else [Tcp_close I0, Tcp_close I1])"
  using tc_flushMsgs_outcome [OF tcp_reach_ready [OF assms], of rule now flush_bytes expire] by blast

theorem tcp_flush_outcome_witness:
  "(\<exists>x c. tc_flushMsgs demo_rule 10 1000 0 (tw_x demo2) (tw_c demo2) = Inr (True, [Tcp_write I1 [1, 2, 3]], x, c)) \<and>
   (\<exists>x c. tc_flushMsgs demo_rule 3 1000 0 (tw_x demo2) (tw_c demo2) = Inr (True, [], x, c))"
proof -
  have v: "buffer_view (snd demo_msg) = [1, 2, 3]" by (simp add: buffer_view_def demo_msg_read)
  have c: "tc_close_flag (tw_c demo2) = False" "tc_active_time (tw_c demo2) = 0"
    "tc_msg_queue (tw_c demo2) I0 = []" "tc_msg_queue (tw_c demo2) I1 = [demo_msg]"
    "tc_writing_flag (tw_c demo2) p = False" "tc_available_bytes (tw_c demo2) p = 0"
    "ipx_bandwidth (tw_x demo2) p = 0" for p
    by (simp_all add: demo2_eq demo1_eq demo0_eq demo_conn_def new_ip_proxies_def)
  have io: "tc_tick_io demo_rule now 1000 (tw_x demo2) (tw_c demo2) I0 = []"
    "tc_tick_io demo_rule now 1000 (tw_x demo2) (tw_c demo2) I1 = (if 5 \<le> now then [Tcp_write I1 [1, 2, 3]] else [])" for now
    by (simp_all add: tc_tick_io_def tc_due_def ip_due_def c v tc_refill_def demo_rule_def) (simp add: demo_msg_def)
  show ?thesis
    using tcp_flush_outcome [OF demo_reach(3), of demo_rule 10 1000 0]
      tcp_flush_outcome [OF demo_reach(3), of demo_rule 3 1000 0]
    by (auto simp: c io cong: conj_cong)
qed

section \<open>Handlers do not fail\<close>

lemma tc_stop_fails: "\<forall>q. tc_socket c q \<noteq> None \<Longrightarrow> tc_stop c \<noteq> Inl f"
  using tc_stop_total [of c] by auto

lemma tc_written_total:
  assumes "tcp_ip_ok x c" and sock: "\<forall>q. tc_socket c q \<noteq> None"
    and bufs: "\<forall>m \<in> set (tc_msg_queue c p). buffer_ok (snd m)" and "tc_msg_queue c p \<noteq> []"
  shows "\<exists>r. tc_handleWrite rule now p Success peer x c = Inr r"
proof -
  obtain m ms where q: "tc_msg_queue c p = m # ms" using assms(4) by (cases "tc_msg_queue c p") auto
  define c1 where "c1 = c\<lparr>tc_msg_queue := (tc_msg_queue c)(p := ms)\<rparr>"
  define c2 where "c2 = c1\<lparr>tc_reading_flag := (tc_reading_flag c1)(flip p := True),
    tc_recv_buf := (tc_recv_buf c1)(flip p := Some (new_bytes (int TCP_BUFFER_SIZE)))\<rparr>"
  have total: "\<exists>io y c''. tc_next_write rule now p x c' = Inr (io, y, c'')" if "c' \<in> {c, c1, c2}" for c'
    using tc_next_write_total [of x c' p rule now] that assms q
    by (auto simp: c1_def c2_def tcp_ip_ok_def)
  obtain io s where s: "tc_stop c1 = Inr (io, s)"
    using tc_stop_total [of c1] sock by (auto simp: c1_def)
  have r: "tc_asyncRead (flip p) (c1\<lparr>tc_reading_flag := (tc_reading_flag c1)(flip p := True)\<rparr>) =
      Inr ([Tcp_read (flip p)], c2)"
    using sock by (auto simp: tc_asyncRead_def c2_def c1_def Let_def)
  have "tc_handleWrite rule now p Success peer x c =
    (if tc_writing_flag c p
     then (if \<not> tc_full_open c1 \<and> tc_msg_queue c1 I0 = [] \<and> tc_msg_queue c1 I1 = [] then Inr (io, x, s)
       else if \<not> tc_reading_flag c1 (flip p)
       then and_then (tc_next_write rule now p x c2) (\<lambda>(io', x, c). Inr ([Tcp_read (flip p)] @ io', x, c))
       else tc_next_write rule now p x c1)
     else tc_next_write rule now p x c)"
    by (simp only: tc_handleWrite_def Let_def q list.case c1_def [symmetric] s r and_then.simps
        prod.case simp_thms if_False)
  with total [of c] total [of c1] total [of c2] show ?thesis by fastforce
qed

text \<open>
  C12. Handlers do not fail (\<open>TcpConnection\<close>): in every reachable state the handlers of a
  connect, of a read with any result and of a tick return, and the handler of an outstanding
  write fails in one case only: the write failed, not by \<open>operation_aborted\<close>, and
  \<open>remote_endpoint()\<close> in its error message throws because the peer is gone. No assertion
  fails, no null pointer and no erased table entry is followed.
\<close>

theorem tcp_handlers_total:
  assumes "tcp_reach w"
  shows "(\<exists>r. tc_handleConnect now ec (tw_c w) = Inr r) \<and>
    (\<exists>r. tc_handleRead rule now p ec n (tcp_recv_data p data (tw_c w)) = Inr r) \<and>
    (\<exists>r. tc_flushMsgs rule now flush_bytes expire (tw_x w) (tw_c w) = Inr r) \<and>
    (tw_writes w p \<noteq> [] \<longrightarrow>
      (tc_handleWrite rule now p ec peer (tw_x w) (tw_c w) = Inl f \<longleftrightarrow>
        f = Remote_endpoint_throws \<and> \<not> peer \<and> ec \<noteq> Success \<and> ec \<noteq> Operation_aborted))"
proof (intro conjI impI)
  note parts = tcp_reach_ready [OF assms, unfolded tc_ready_def, THEN conjunct1]
    tcp_reach_ready [OF assms, unfolded tc_ready_def, THEN conjunct2, THEN conjunct1]
  obtain st where st: "tc_stop (tw_c w) = Inr st" using tc_stop_total [OF parts(2)] by blast
  have "tc_socket (tw_c w) I0 \<noteq> None" "tc_socket (tw_c w) I1 \<noteq> None" using parts(2) by simp_all
  then show "\<exists>r. tc_handleConnect now ec (tw_c w) = Inr r"
    using st by (auto simp: tc_handleConnect_def tc_asyncRead_def Let_def)
  have "\<forall>q. tc_socket (tcp_recv_data p data (tw_c w)) q \<noteq> None"
    using parts(2) by (simp add: tcp_recv_data_def)
  from tc_handleRead_total [OF this]
  show "\<exists>r. tc_handleRead rule now p ec n (tcp_recv_data p data (tw_c w)) = Inr r" by blast
  show "\<exists>r. tc_flushMsgs rule now flush_bytes expire (tw_x w) (tw_c w) = Inr r"
    using tc_flushMsgs_outcome [OF tcp_reach_ready [OF assms], of rule now flush_bytes expire] by blast
  assume "tw_writes w p \<noteq> []"
  then obtain bs rest where "tw_writes w p = bs # rest" by (cases "tw_writes w p") auto
  then have "tc_msg_queue (tw_c w) p \<noteq> []"
    using td_writing_exact [OF tcp_inv_dir [OF tcp_reach_inv [OF assms], of p], of bs rest] by auto
  then obtain r where "tc_handleWrite rule now p Success peer (tw_x w) (tw_c w) = Inr r"
    using tc_written_total [OF parts, of p rule now peer] tcp_reach_ready [OF assms]
    unfolding tc_ready_def by blast
  then show "tc_handleWrite rule now p ec peer (tw_x w) (tw_c w) = Inl f \<longleftrightarrow>
      f = Remote_endpoint_throws \<and> \<not> peer \<and> ec \<noteq> Success \<and> ec \<noteq> Operation_aborted"
  proof (cases "ec = Success")
    case False
    with st show ?thesis by (cases st) (auto simp: tc_handleWrite_def)
  qed simp
qed

theorem tcp_handlers_total_witness:
  "tc_handleWrite demo_rule 10 I1 Connection_reset False (tw_x demo3) (tw_c demo3) = Inl Remote_endpoint_throws \<and>
   tc_handleWrite demo_rule 10 I1 Operation_aborted False (tw_x demo3) (tw_c demo3) \<noteq> Inl Assert_failed"
proof -
  have "tw_writes demo3 I1 \<noteq> []" by (simp add: demo3_eq)
  then show ?thesis
    using tcp_handlers_total [OF demo_reach(4), of 10 Connection_reset demo_rule I1 0 "[]" 0 0 False Remote_endpoint_throws]
      tcp_handlers_total [OF demo_reach(4), of 10 Operation_aborted demo_rule I1 0 "[]" 0 0 False Assert_failed]
    by simp
qed

section \<open>Half-close\<close>

text \<open>
  C27. A half-closed connection drains (\<open>handleWrite\<close>): on a reachable connection that is
  open, a completed write closes it exactly when one peer has finished and no message is
  left in either queue, and then everything read from either side has been written to the
  other.
\<close>

theorem tcp_half_close_drains:
  assumes "tcp_reach w" and "\<not> tc_close_flag (tw_c w)" and "tw_writes w p = bs # rest"
    and "tc_handleWrite rule now p Success peer (tw_x w) (tw_c w) = Inr (io, x, c)"
  shows "(tc_close_flag c \<longleftrightarrow> \<not> tc_full_open (tw_c w) \<and> length (tc_msg_queue (tw_c w) p) = 1 \<and>
      tc_msg_queue (tw_c w) (flip p) = []) \<and>
    (tc_close_flag c \<longrightarrow> tw_rx w (flip p) = tw_tx w p @ bs \<and> tw_rx w p = tw_tx w (flip p))"
proof -
  have sock: "\<forall>q. tc_socket (tw_c w) q \<noteq> None" using tcp_reach_ready [OF assms(1)] by (simp add: tc_ready_def)
  have inv: "tcp_inv w" using assms(1) by (rule tcp_reach_inv)
  obtain m ms where q: "tc_msg_queue (tw_c w) p = m # ms" and bs: "bs = td_view m"
    and wf: "tc_writing_flag (tw_c w) p" and ex: "td_exact (tcp_dir w p)"
    using td_writing_exact [OF tcp_inv_dir [OF inv, of p]] assms(3) by auto
  have ex': "td_exact (tcp_dir w (flip p))"
    using tcp_inv_dir [OF inv, of "flip p"] assms(2) by (auto simp: td_inv_def td_write_ok_def td_broken_def)
  have "tc_close_flag c \<longleftrightarrow> \<not> tc_full_open (tw_c w) \<and> ms = [] \<and> tc_msg_queue (tw_c w) (flip p) = []"
    using wf q assms(4) sock
  proof (cases rule: tc_handleWrite_written)
    case (restart io')
    with tc_next_write_other(6) [OF restart(3)] assms(2) show ?thesis by auto
  next
    case more
    with tc_next_write_other(6) [OF more(2)] assms(2) show ?thesis by auto
  qed simp
  then show ?thesis using q ex ex' bs by (auto simp: td_exact_def td_bytes_def)
qed

text \<open>The client of \<open>demo3\<close> finishes while its bytes are being written.\<close>

definition demo4 :: "nat tcp_world" where
  "demo4 = demo3\<lparr>tw_c := (tw_c demo3)\<lparr>tc_full_open := False\<rparr>, tw_reads := (\<lambda>_. 1)(I0 := 0)\<rparr>"

lemma demo4_reach: "tcp_reach demo4"
proof -
  have h: "tc_handleRead (tw_rule demo3) (tw_now demo3) I0 Other_error 0 (tw_c demo3) =
      Inr ([], (tw_c demo3)\<lparr>tc_full_open := False\<rparr>)"
    by (simp add: tc_handleRead_def demo3_eq demo2_eq)
  have "demo4 = tcp_put [] (tw_x demo3) ((tw_c demo3)\<lparr>tc_full_open := False\<rparr>)
      (demo3\<lparr>tw_reads := (tw_reads demo3)(I0 := tw_reads demo3 I0 - 1)\<rparr>)"
    by (simp add: demo4_def tcp_put_def demo3_eq demo2_eq demo1_eq)
  moreover have "tcp_step demo3 (tcp_put [] (tw_x demo3) ((tw_c demo3)\<lparr>tc_full_open := False\<rparr>)
      (demo3\<lparr>tw_reads := (tw_reads demo3)(I0 := tw_reads demo3 I0 - 1)\<rparr>))"
    by (rule tcp_step.io [OF tcp_io_step.event [OF tcp_event.read_error [OF _ _ _ h]]])
       (simp_all add: demo3_eq demo2_eq demo1_eq demo0_eq)
  ultimately show ?thesis using reach_step [OF demo_reach(4)] by simp
qed

theorem tcp_half_close_drains_witness:
  "\<exists>io x c. tc_handleWrite demo_rule 11 I1 Success True (tw_x demo4) (tw_c demo4) = Inr (io, x, c) \<and>
     tc_close_flag c \<and> tw_rx demo4 I0 = tw_tx demo4 I1 @ [1, 2, 3]"
proof -
  have c: "\<not> tc_close_flag (tw_c demo4)" "tw_writes demo4 I1 = [1, 2, 3] # []"
    "\<not> tc_full_open (tw_c demo4)" "tc_msg_queue (tw_c demo4) I1 = [demo_msg]" "tc_msg_queue (tw_c demo4) I0 = []"
    "tc_writing_flag (tw_c demo4) I1" "\<forall>q. tc_socket (tw_c demo4) q \<noteq> None"
    by (simp_all add: demo4_def demo3_eq demo2_eq demo1_eq demo0_eq demo_conn_def)
  obtain io x c' where h: "tc_handleWrite demo_rule 11 I1 Success True (tw_x demo4) (tw_c demo4) = Inr (io, x, c')"
    using c(3-7) by (auto simp: tc_handleWrite_def Let_def tc_stop_def)
  from tcp_half_close_drains [OF demo4_reach c(1,2) h] c(3,4,5) h show ?thesis by simp
qed

text \<open>
  What an end of stream drops (\<open>handleRead\<close>): a half-close is honoured only when data
  from the finished side is still queued. There is a reachable connection on which the end
  of stream of the destination closes both sockets while bytes of the client still wait to
  be written to it, and a reachable connection on which the client finishes its request when
  nothing is queued and the connection closes before a response can be read.
\<close>

lemma tcp_eof_drops:
  "(\<exists>(w :: nat tcp_world) io c. tcp_reach w \<and> 0 < tw_reads w I1 \<and> tcp_queued w I1 = [1, 2, 3] \<and>
      tc_handleRead (tw_rule w) (tw_now w) I1 Other_error 0 (tw_c w) = Inr (io, c) \<and> tc_close_flag c) \<and>
   (\<exists>(w :: nat tcp_world) io c. tcp_reach w \<and> 0 < tw_reads w I0 \<and> tc_full_open (tw_c w) \<and> tc_msg_queue (tw_c w) I1 = [] \<and>
      tc_handleRead (tw_rule w) (tw_now w) I0 Other_error 0 (tw_c w) = Inr (io, c) \<and> tc_close_flag c)"
proof
  show "\<exists>(w :: nat tcp_world) io c. tcp_reach w \<and> 0 < tw_reads w I1 \<and> tcp_queued w I1 = [1, 2, 3] \<and>
      tc_handleRead (tw_rule w) (tw_now w) I1 Other_error 0 (tw_c w) = Inr (io, c) \<and> tc_close_flag c"
  proof (intro exI conjI)
    show "tcp_reach demo2" by (rule demo_reach)
    show "0 < tw_reads demo2 I1" by (simp add: demo2_eq demo1_eq)
    show "tcp_queued demo2 I1 = [1, 2, 3]" by (simp add: tcp_queued_def demo2_eq buffer_view_def demo_msg_read)
    show "tc_handleRead (tw_rule demo2) (tw_now demo2) I1 Other_error 0 (tw_c demo2) = Inr ([Tcp_close I0, Tcp_close I1],
        (tw_c demo2)\<lparr>tc_close_flag := True, tc_socket := (\<lambda>_. Some Sock_closed)\<rparr>)"
      by (simp add: tc_handleRead_def tc_stop_def demo2_eq demo1_eq demo0_eq)
  qed simp
  show "\<exists>(w :: nat tcp_world) io c. tcp_reach w \<and> 0 < tw_reads w I0 \<and> tc_full_open (tw_c w) \<and> tc_msg_queue (tw_c w) I1 = [] \<and>
      tc_handleRead (tw_rule w) (tw_now w) I0 Other_error 0 (tw_c w) = Inr (io, c) \<and> tc_close_flag c"
  proof (intro exI conjI)
    show "tcp_reach demo1" by (rule demo_reach)
    show "0 < tw_reads demo1 I0" "tc_full_open (tw_c demo1)" "tc_msg_queue (tw_c demo1) I1 = []"
      by (simp_all add: demo1_eq demo0_eq demo_conn_def)
    show "tc_handleRead (tw_rule demo1) (tw_now demo1) I0 Other_error 0 (tw_c demo1) = Inr ([Tcp_close I0, Tcp_close I1],
        (tw_c demo1)\<lparr>tc_close_flag := True, tc_socket := (\<lambda>_. Some Sock_closed)\<rparr>)"
      by (simp add: tc_handleRead_def tc_stop_def demo1_eq demo0_eq demo_conn_def)
  qed simp
qed

end
