(* ===== verification/Tcp_Proxy.thy ===== *)
theory Tcp_Proxy
  imports Tcp_Flow
begin

text \<open>
  \<open>TcpProxy\<close> of \<open>tcp_proxy.h\<close> and \<open>tcp_proxy.cpp\<close>: the listening socket, the list of
  connections and the timer that flushes them every 10 ms. A connection is listed with a
  number that stands for its address (the handlers are bound to \<open>this\<close>). The results of
  the calls into Boost.Asio, the clock and \<open>args.tcp_timeout\<close> are arguments.
\<close>

section \<open>State\<close>

datatype tcp_proxy_io =
    Tp_accept                    \<comment> \<open>\<open>async_accept\<close>\<close>
  | Tp_wait int                  \<comment> \<open>\<open>async_wait\<close> after so many milliseconds\<close>
  | Tp_acceptor_close
  | Tp_timer_cancel
  | Tp_conn nat tcp_io           \<comment> \<open>an operation of a connection\<close>

record 'a tcp_proxy =
  tp_rule :: "'a tcp_rule"
  tp_acceptor :: "16 word option"          \<comment> \<open>the port it listens on\<close>
  tp_accept_socket :: "sock option"
  tp_close_flag :: bool
  tp_now :: msec
  tp_last_flush_tm :: msec
  tp_connections :: "(nat \<times> 'a tcp_conn) list"
  tp_next :: nat                           \<comment> \<open>the address of the next connection\<close>

text \<open>The error codes of one \<open>start\<close> and of the timer.\<close>

record asio_results =
  ar_open :: error_code
  ar_set_option :: error_code
  ar_bind :: error_code
  ar_listen :: error_code
  ar_expires :: error_code

definition tp_new :: "'a tcp_rule \<Rightarrow> msec \<Rightarrow> 'a tcp_proxy" where
  "tp_new rule clock =
     \<lparr>tp_rule = rule, tp_acceptor = None, tp_accept_socket = None, tp_close_flag = False,
      tp_now = clock, tp_last_flush_tm = clock, tp_connections = [], tp_next = 0\<rparr>"

section \<open>Operations\<close>

definition tp_startAccept :: "'a tcp_proxy \<Rightarrow> tcp_proxy_io list \<times> 'a tcp_proxy" where
  "tp_startAccept t = ([Tp_accept], t\<lparr>tp_accept_socket := Some Sock_open\<rparr>)"

definition tp_stop :: "'a tcp_proxy \<Rightarrow> 'a tcp_proxy" where
  "tp_stop t = t\<lparr>tp_close_flag := True\<rparr>"

text \<open>The loop of \<open>close\<close> over the connections.\<close>

fun tp_stop_all :: "(nat \<times> 'a tcp_conn) list \<Rightarrow> failure + (tcp_proxy_io list \<times> (nat \<times> 'a tcp_conn) list)" where
  "tp_stop_all [] = Inr ([], [])"
| "tp_stop_all ((k, c) # cs) =
     and_then (tc_stop c) (\<lambda>(io, c).
     and_then (tp_stop_all cs) (\<lambda>(io', cs).
       Inr (map (Tp_conn k) io @ io', (k, c) # cs)))"

definition tp_close :: "'a tcp_proxy \<Rightarrow> failure + (tcp_proxy_io list \<times> 'a tcp_proxy)" where
  "tp_close t =
     (if \<not> tp_close_flag t then Inl Assert_failed
      else and_then (tp_stop_all (tp_connections t)) (\<lambda>(io, cs).
        Inr (Tp_acceptor_close # Tp_timer_cancel # io,
             t\<lparr>tp_acceptor := None, tp_connections := cs\<rparr>)))"

definition tp_asyncWait :: "error_code \<Rightarrow> 'a tcp_proxy \<Rightarrow> failure + (tcp_proxy_io list \<times> 'a tcp_proxy)" where
  "tp_asyncWait expires_ec t =
     (if expires_ec \<noteq> Success then tp_close (t\<lparr>tp_close_flag := True\<rparr>)
      else Inr ([Tp_wait 10], t))"

definition tp_start :: "asio_results \<Rightarrow> 'a tcp_proxy \<Rightarrow> failure + (bool \<times> tcp_proxy_io list \<times> 'a tcp_proxy)" where
  "tp_start ar t =
     (if ar_open ar \<noteq> Success then Inr (False, [], t)
      else if ar_set_option ar \<noteq> Success then Inr (False, [], t)
      else if ar_bind ar \<noteq> Success then Inr (False, [], t)
      else if ar_listen ar \<noteq> Success then Inr (False, [], t)
      else
        let (io, t) = tp_startAccept (t\<lparr>tp_acceptor := Some (tr_src_port (tp_rule t))\<rparr>) in
        and_then (tp_asyncWait (ar_expires ar) t) (\<lambda>(io', t). Inr (True, io @ io', t)))"

text \<open>
  \<open>remote\<close> is what \<open>remote_endpoint()\<close> yields for the accepted socket, \<open>None\<close> when it throws.
\<close>

definition tp_handleAccept :: "asio_results \<Rightarrow> error_code \<Rightarrow> 'a::linorder option \<Rightarrow> 'a ip_proxies \<Rightarrow> 'a tcp_proxy \<Rightarrow>
    failure + (tcp_proxy_io list \<times> 'a ip_proxies \<times> 'a tcp_proxy)" where
  "tp_handleAccept ar error remote x t =
     (if error \<noteq> Success then
        (if error \<noteq> Operation_aborted then
           let t = t\<lparr>tp_acceptor := None\<rparr> in
           and_then (tp_start ar t) (\<lambda>(started, io, t).
             Inr (Tp_acceptor_close # io, x, if \<not> started then tp_stop t else t))
         else Inr ([], x, t))
      else
        and_then (tc_new (tp_now t) remote x) (\<lambda>(c, x).
          let (io, c) = tc_start c;
              k = tp_next t;
              t = t\<lparr>tp_connections := tp_connections t @ [(k, c)], tp_next := Suc k\<rparr>;
              (io', t) = tp_startAccept t
          in Inr (map (Tp_conn k) io @ io', x, t)))"

definition tp_flush_bytes :: "'a tcp_rule \<Rightarrow> msec \<Rightarrow> msec \<Rightarrow> int" where
  "tp_flush_bytes rule now last_flush_tm =
     i32 ((now - last_flush_tm) * tr_max_bandwidth rule sdiv 1000)"

text \<open>The loop of \<open>handleWait\<close>: a connection that does not stay is erased and destroyed.\<close>

fun tp_flush_all :: "'a tcp_rule \<Rightarrow> msec \<Rightarrow> int \<Rightarrow> msec \<Rightarrow> 'a::linorder ip_proxies \<Rightarrow> (nat \<times> 'a tcp_conn) list \<Rightarrow>
    failure + (tcp_proxy_io list \<times> 'a ip_proxies \<times> (nat \<times> 'a tcp_conn) list)" where
  "tp_flush_all rule now flush_bytes expire x [] = Inr ([], x, [])"
| "tp_flush_all rule now flush_bytes expire x ((k, c) # cs) =
     and_then (tc_flushMsgs rule now flush_bytes expire x c) (\<lambda>(stay, io, x, c).
     and_then (if stay then Inr x else tc_delete c x) (\<lambda>x.
     and_then (tp_flush_all rule now flush_bytes expire x cs) (\<lambda>(io', x, cs).
       Inr (map (Tp_conn k) io @ io', x, if stay then (k, c) # cs else cs))))"

definition tp_handleWait :: "msec \<Rightarrow> error_code \<Rightarrow> error_code \<Rightarrow> msec \<Rightarrow> 'a::linorder ip_proxies \<Rightarrow> 'a tcp_proxy \<Rightarrow>
    failure + (tcp_proxy_io list \<times> 'a ip_proxies \<times> 'a tcp_proxy)" where
  "tp_handleWait tcp_timeout error expires_ec clock x t =
     (if error \<noteq> Success then Inr ([], x, t)
      else if tp_close_flag t then and_then (tp_close t) (\<lambda>(io, t). Inr (io, x, t))
      else
        and_then (tp_asyncWait expires_ec t) (\<lambda>(io, t).
          let t = t\<lparr>tp_now := clock\<rparr> in
          if tp_now t \<le> tp_last_flush_tm t then Inr (io, x, t)
          else
            let flush_bytes = tp_flush_bytes (tp_rule t) (tp_now t) (tp_last_flush_tm t);
                t = t\<lparr>tp_last_flush_tm := tp_now t\<rparr>;
                expire_time = tp_now t - tcp_timeout
            in and_then (tp_flush_all (tp_rule t) (tp_now t) flush_bytes expire_time x (tp_connections t))
                 (\<lambda>(io', x, cs). Inr (io @ io', x, t\<lparr>tp_connections := cs\<rparr>))))"

section \<open>One connection among the others\<close>

text \<open>What a connection needs for its operations and its destructor not to fail.\<close>

definition conn_ok :: "'a::linorder ip_proxies \<Rightarrow> 'a tcp_conn \<Rightarrow> bool" where
  "conn_ok x c \<longleftrightarrow> tc_ready x c \<and> (\<forall>a. tc_client_ip c = Some a \<longrightarrow> ip_lookup x a \<noteq> None)"

text \<open>The references of a list of connections to a client address.\<close>

definition tp_refs :: "(nat \<times> 'a tcp_conn) list \<Rightarrow> 'a \<Rightarrow> nat" where
  "tp_refs cs a = length (filter (\<lambda>(k, c). tc_client_ip c = Some a) cs)"

definition tp_stays :: "msec \<Rightarrow> nat \<times> 'a tcp_conn \<Rightarrow> bool" where
  "tp_stays expire kc \<longleftrightarrow> \<not> tc_close_flag (snd kc) \<and> expire \<le> tc_active_time (snd kc)"

end
