(* ===== verification/Tcp_Proxy_Props.thy ===== *)
theory Tcp_Proxy_Props
  imports Tcp_Proxy
begin

text \<open>
  What \<open>TcpProxy\<close> does with its connections: accepting, flushing and erasing keep the
  references to the client addresses and the connections' well-formedness, stopping closes
  everything, and the timer limits what a connection sends to its bandwidth.
\<close>

section \<open>References\<close>

definition ref_of :: "'a::linorder ip_proxies \<Rightarrow> 'a \<Rightarrow> int" where
  "ref_of x a = (case ip_lookup x a of None \<Rightarrow> 0 | Some p \<Rightarrow> ip_ref_cnt p)"

lemma ip_same_ref: "ip_same x y \<Longrightarrow> ref_of y a = ref_of x a"
proof -
  assume "ip_same x y"
  then have "map_option ip_ref_cnt (ip_lookup y a) = map_option ip_ref_cnt (ip_lookup x a)"
    by (simp add: ip_same_def)
  then show ?thesis by (auto simp: ref_of_def split: option.splits)
qed

lemma conn_ok_same: "ip_same x y \<Longrightarrow> conn_ok x c \<Longrightarrow> conn_ok y c"
  using tcp_ip_ok_same [of x y c c] ip_same_None [of x y] by (simp add: conn_ok_def tc_ready_def)

lemma tc_delete_total:
  assumes "conn_ok x c"
  shows "\<exists>y. tc_delete c x = Inr y \<and> (\<forall>d. conn_ok x d \<longrightarrow> conn_ok y d) \<and>
    (\<forall>a. ref_of y a = (if tc_client_ip c = Some a then i32 (ref_of x a - 1) else ref_of x a))"
proof (cases "tc_client_ip c")
  case None
  then show ?thesis by (simp add: tc_delete_def ip_release_def)
next
  case (Some a)
  then obtain p where p: "ip_lookup x a = Some p" using assms by (auto simp: conn_ok_def)
  define y where "y = x\<lparr>ipx_addrs := smap_put a (p\<lparr>ip_ref_cnt := i32 (ip_ref_cnt p - 1)\<rparr>) (ipx_addrs x)\<rparr>"
  have "tc_delete c x = Inr y" using Some p by (simp add: tc_delete_def ip_release_def y_def)
  moreover have "ref_of y b = (if tc_client_ip c = Some b then i32 (ref_of x b - 1) else ref_of x b)" for b
    using Some p by (auto simp: ref_of_def y_def smap_find_put)
  moreover have "conn_ok x d \<Longrightarrow> conn_ok y d" for d
    by (auto simp: conn_ok_def tc_ready_def tcp_ip_ok_def y_def smap_find_put)
  ultimately show ?thesis by blast
qed

lemma tc_delete_ok:
  assumes "conn_ok x c" and "\<And>a. tc_client_ip c = Some a \<Longrightarrow> in_i32 (ref_of x a - 1)"
  shows "\<exists>y. tc_delete c x = Inr y \<and> (\<forall>d. conn_ok x d \<longrightarrow> conn_ok y d) \<and>
    (\<forall>a. ref_of y a = ref_of x a - (if tc_client_ip c = Some a then 1 else 0))"
  using tc_delete_total [OF assms(1)] assms(2) by (fastforce simp: i32_id)

lemma tp_refs_Cons [simp]:
  "tp_refs ((k, c) # cs) a = (if tc_client_ip c = Some a then 1 else 0) + tp_refs cs a" "tp_refs [] a = 0"
  by (simp_all add: tp_refs_def)

text \<open>What holds of the list of connections and the table between events.\<close>

definition tp_conns_ok :: "'a::linorder ip_proxies \<Rightarrow> (nat \<times> 'a tcp_conn) list \<Rightarrow> bool" where
  "tp_conns_ok x cs \<longleftrightarrow> (\<forall>(k, c) \<in> set cs. conn_ok x c) \<and>
     (\<forall>a. int (tp_refs cs a) \<le> ref_of x a \<and> ref_of x a < 2147483648)"

lemma tp_conns_ok_Cons:
  "tp_conns_ok x ((k, c) # cs) \<longleftrightarrow> conn_ok x c \<and> (\<forall>(k, c) \<in> set cs. conn_ok x c) \<and>
     (\<forall>a. int (tp_refs ((k, c) # cs) a) \<le> ref_of x a \<and> ref_of x a < 2147483648)"
  by (simp add: tp_conns_ok_def)

lemma tp_flush_all_outcome:
  assumes "\<forall>(k, c) \<in> set cs. conn_ok x c"
    and "\<forall>a. int (tp_refs cs a) \<le> ref_of x a \<and> ref_of x a < 2147483648"
  shows "\<exists>io y cs'. tp_flush_all rule now n expire x cs = Inr (io, y, cs') \<and>
    map fst cs' = map fst (filter (tp_stays expire) cs) \<and>
    (\<forall>(k, c) \<in> set cs'. conn_ok y c \<and> \<not> tc_close_flag c) \<and>
    (\<forall>c. conn_ok x c \<longrightarrow> conn_ok y c) \<and>
    (\<forall>a. ref_of y a - int (tp_refs cs' a) = ref_of x a - int (tp_refs cs a)) \<and>
    (\<forall>a. ref_of y a \<le> ref_of x a)"
  using assms
proof (induction cs arbitrary: x)
  case Nil
  then show ?case by simp
next
  case (Cons kc cs)
  obtain k c where kc: "kc = (k, c)" by force
  from Cons.prems kc have ok: "conn_ok x c" by simp
  then have rd: "tc_ready x c" by (simp add: conn_ok_def)
  obtain stay io y c' where f: "tc_flushMsgs rule now n expire x c = Inr (stay, io, y, c')"
    "stay \<longleftrightarrow> tp_stays expire kc" "tc_close_flag c' = (\<not> stay)"
    "ip_same x y" "tc_client_ip c' = tc_client_ip c" "tc_ready y c'"
    using tc_flushMsgs_outcome [OF rd, of rule now n expire] by (auto simp: tp_stays_def kc)
  have ok': "conn_ok y c'"
    using f(4,5,6) ok ip_same_None [OF f(4)] by (simp add: conn_ok_def)
  have keep: "conn_ok x d \<Longrightarrow> conn_ok y d" for d using conn_ok_same [OF f(4)] .
  have ref: "ref_of y a = ref_of x a" for a using f(4) by (rule ip_same_ref)
  define own where "own a = (if tc_client_ip c = Some a then 1 else 0 :: int)" for a
  have rng: "int (tp_refs cs a) + own a \<le> ref_of x a" "ref_of x a < 2147483648" for a
    using Cons.prems(2) by (auto simp: kc own_def split: if_splits) (smt (verit))+
  have "in_i32 (ref_of y a - 1)" if "tc_client_ip c' = Some a" for a
    using rng [of a] that f(5) by (simp add: ref own_def in_i32_def)
  from tc_delete_ok [OF ok' this] obtain z where z: "tc_delete c' y = Inr z" "\<And>d. conn_ok y d \<Longrightarrow> conn_ok z d"
    "\<And>a. ref_of z a = ref_of x a - own a"
    using f(5) by (auto simp: ref own_def)
  define u where "u = (if stay then y else z)"
  have u_ok: "conn_ok x d \<Longrightarrow> conn_ok u d" "conn_ok y d \<Longrightarrow> conn_ok u d" for d using keep z(2) by (simp_all add: u_def)
  have u_ref: "ref_of u a = ref_of x a - (if stay then 0 else own a)" for a by (simp add: u_def ref z(3))
  have own0: "0 \<le> own a" for a by (simp add: own_def)
  then have "\<forall>a. int (tp_refs cs a) \<le> ref_of u a \<and> ref_of u a < 2147483648"
    using rng by (simp add: u_ref) (smt (verit))
  moreover have "\<forall>(k, c) \<in> set cs. conn_ok u c" using Cons.prems(1) u_ok(1) by (auto simp: kc)
  ultimately obtain io' v cs' where r: "tp_flush_all rule now n expire u cs = Inr (io', v, cs')"
    "map fst cs' = map fst (filter (tp_stays expire) cs)"
    "\<forall>(k, c) \<in> set cs'. conn_ok v c \<and> \<not> tc_close_flag c" "\<forall>c. conn_ok u c \<longrightarrow> conn_ok v c"
    "\<forall>a. ref_of v a - int (tp_refs cs' a) = ref_of u a - int (tp_refs cs a)" "\<forall>a. ref_of v a \<le> ref_of u a"
    using Cons.IH [of u] by blast
  have "tp_flush_all rule now n expire x (kc # cs) =
      Inr (map (Tp_conn k) io @ io', v, if stay then (k, c') # cs' else cs')"
    using f(1) z(1) r(1) by (cases stay) (simp_all add: kc u_def)
  moreover have "conn_ok v c'" using ok' u_ok(2) r(4) by blast
  moreover have "ref_of v a - int (tp_refs (if stay then (k, c') # cs' else cs') a) = ref_of x a - int (tp_refs (kc # cs) a)" for a
    using spec [OF r(5), of a] u_ref [of a] f(5)
    by (cases stay) (auto simp: kc own_def algebra_simps split: if_splits)
  moreover have "ref_of v a \<le> ref_of x a" for a
    using r(6) u_ref [of a] own0 [of a] by (smt (verit))
  ultimately show ?case using r f(2,3) u_ok by (simp add: kc)
qed

text \<open>
  C24. A tick of a proxy (\<open>TcpProxy::handleWait\<close>): with well-formed connections whose
  references to client addresses are counted, a tick that finds the clock advanced does not
  fail; it starts the timer again, keeps exactly the connections that are not closed and
  were active within \<open>tcp_timeout\<close>, in their order, erases and destroys the others, keeps
  the table and the connections well-formed, and gives up one reference per connection
  erased.
\<close>

theorem tp_tick_outcome:
  assumes "tp_conns_ok x (tp_connections t)" and "\<not> tp_close_flag t" and "tp_last_flush_tm t < clock"
  shows "\<exists>io y t'. tp_handleWait tcp_timeout Success Success clock x t = Inr (Tp_wait 10 # io, y, t') \<and>
    map fst (tp_connections t') = map fst (filter (tp_stays (clock - tcp_timeout)) (tp_connections t)) \<and>
    tp_conns_ok y (tp_connections t') \<and> tp_last_flush_tm t' = clock \<and>
    (\<forall>a. ref_of x a - ref_of y a = int (tp_refs (tp_connections t) a) - int (tp_refs (tp_connections t') a))"
proof -
  let ?cs = "tp_connections t"
  have pre: "\<forall>(k, c) \<in> set ?cs. conn_ok x c" "\<forall>a. int (tp_refs ?cs a) \<le> ref_of x a \<and> ref_of x a < 2147483648"
    using assms(1) by (simp_all add: tp_conns_ok_def)
  obtain io y cs where r: "tp_flush_all (tp_rule t) clock (tp_flush_bytes (tp_rule t) clock (tp_last_flush_tm t))
      (clock - tcp_timeout) x ?cs = Inr (io, y, cs)"
    and keys: "map fst cs = map fst (filter (tp_stays (clock - tcp_timeout)) ?cs)"
    and ok: "\<forall>(k, c) \<in> set cs. conn_ok y c \<and> \<not> tc_close_flag c"
    and refs: "\<forall>a. ref_of y a - int (tp_refs cs a) = ref_of x a - int (tp_refs ?cs a)" "\<forall>a. ref_of y a \<le> ref_of x a"
    using tp_flush_all_outcome [OF pre, of "tp_rule t" clock "tp_flush_bytes (tp_rule t) clock (tp_last_flush_tm t)"
        "clock - tcp_timeout"] by blast
  have "int (tp_refs cs a) \<le> ref_of y a \<and> ref_of y a < 2147483648" for a
    using spec [OF pre(2), of a] spec [OF refs(1), of a] spec [OF refs(2), of a] by linarith
  then have conns: "tp_conns_ok y cs" using ok by (auto simp: tp_conns_ok_def)
  have diff: "\<forall>a. ref_of x a - ref_of y a = int (tp_refs ?cs a) - int (tp_refs cs a)"
  proof
    fix a
    show "ref_of x a - ref_of y a = int (tp_refs ?cs a) - int (tp_refs cs a)"
      using spec [OF refs(1), of a] by linarith
  qed
  have "tp_handleWait tcp_timeout Success Success clock x t = Inr (Tp_wait 10 # io, y,
      t\<lparr>tp_now := clock, tp_last_flush_tm := clock, tp_connections := cs\<rparr>)"
    using assms(2,3) r by (simp add: tp_handleWait_def tp_asyncWait_def Let_def)
  with keys conns diff show ?thesis by simp
qed

text \<open>A proxy with a live connection and one that has expired, both from address 7.\<close>

definition demo_tp :: "nat tcp_proxy" where
  "demo_tp = (tp_new demo_rule 0)\<lparr>tp_connections :=
     [(0, (tw_c demo0)\<lparr>tc_client_ip := Some 7\<rparr>), (1, (tw_c demo0)\<lparr>tc_client_ip := Some 7, tc_active_time := 900\<rparr>)],
     tp_next := 2\<rparr>"

definition demo_x :: "nat ip_proxies" where
  "demo_x = \<lparr>ipx_addrs = [(7, \<lparr>ip_avail_bytes = \<lambda>_. 0, ip_ref_cnt = 2\<rparr>)], ipx_threads = 1, ipx_bandwidth = \<lambda>_. 1000\<rparr>"

lemma demo_conns_ok: "tp_conns_ok demo_x (tp_connections demo_tp)"
  by (auto simp: tp_conns_ok_def demo_tp_def demo_x_def demo0_eq demo_conn_def conn_ok_def tc_ready_def
      tcp_ip_ok_def ref_of_def)

theorem tp_tick_outcome_witness:
  "\<exists>io y t'. tp_handleWait 500 Success Success 1000 demo_x demo_tp = Inr (Tp_wait 10 # io, y, t') \<and>
     map fst (tp_connections t') = [1] \<and> tp_conns_ok y (tp_connections t')"
proof -
  have h: "\<not> tp_close_flag demo_tp" "tp_last_flush_tm demo_tp < 1000"
    by (simp_all add: demo_tp_def tp_new_def)
  obtain io y t' where r: "tp_handleWait 500 Success Success 1000 demo_x demo_tp = Inr (Tp_wait 10 # io, y, t')"
    "map fst (tp_connections t') = map fst (filter (tp_stays (1000 - 500)) (tp_connections demo_tp))"
    "tp_conns_ok y (tp_connections t')"
    "ref_of demo_x 7 - ref_of y 7 = int (tp_refs (tp_connections demo_tp) 7) - int (tp_refs (tp_connections t') 7)"
    using tp_tick_outcome [OF demo_conns_ok h, of 500] by blast
  have "map fst (tp_connections t') = [1]"
    using r(2) by (simp add: demo_tp_def tp_stays_def demo0_eq demo_conn_def)
  with r(1,3) show ?thesis by (intro exI conjI)
qed

section \<open>Stopping\<close>

lemma tp_stop_all_outcome:
  assumes "\<forall>(k, c) \<in> set cs. \<forall>q. tc_socket c q \<noteq> None"
  shows "\<exists>io cs'. tp_stop_all cs = Inr (io, cs') \<and> map fst cs' = map fst cs \<and>
    (\<forall>(k, c) \<in> set cs'. tc_close_flag c \<and> (\<forall>q. tc_socket c q = Some Sock_closed)) \<and>
    (\<forall>a. tp_refs cs' a = tp_refs cs a) \<and>
    set io = {Tp_conn k (Tcp_close q) |k q. k \<in> fst ` set cs}"
  using assms
proof (induction cs)
  case (Cons kc cs)
  obtain k c where kc: "kc = (k, c)" by force
  obtain io0 c' where s: "tc_stop c = Inr (io0, c')"
    using tc_stop_total [of c] Cons.prems by (auto simp: kc)
  note c' = tc_stop_cases [OF s]
  obtain io cs' where r: "tp_stop_all cs = Inr (io, cs')" "map fst cs' = map fst cs"
    "\<forall>(k, c) \<in> set cs'. tc_close_flag c \<and> (\<forall>q. tc_socket c q = Some Sock_closed)"
    "\<forall>a. tp_refs cs' a = tp_refs cs a" "set io = {Tp_conn k (Tcp_close q) |k q. k \<in> fst ` set cs}"
  proof -
    have "\<forall>(k, c) \<in> set cs. \<forall>q. tc_socket c q \<noteq> None" using Cons.prems by simp
    from Cons.IH [OF this] show thesis by (elim exE conjE) (rule that)
  qed
  have q: "q = I0 \<or> q = I1" for q by (cases q) simp_all
  have "set (map (Tp_conn k) io0 @ io) = {Tp_conn k (Tcp_close q) |k q. k \<in> fst ` set (kc # cs)}"
    using q by (auto simp: c' r(5) kc)
  moreover have "tp_stop_all (kc # cs) = Inr (map (Tp_conn k) io0 @ io, (k, c') # cs')"
    by (simp add: kc s r(1))
  moreover have "tc_close_flag c' \<and> (\<forall>q. tc_socket c' q = Some Sock_closed)" "tc_client_ip c' = tc_client_ip c"
    by (simp_all add: c'(3))
  ultimately show ?case using r(2-4) by (simp add: kc)
qed simp

text \<open>
  Stopping a proxy (\<open>TcpProxy::stop\<close>, then the next \<open>handleWait\<close>): with connections
  that were started, the tick after \<open>stop\<close> does not fail; it closes the acceptor, cancels
  the timer without starting it again, and closes both sockets of every connection, each
  one still listed.
\<close>

lemma tp_stop_closes:
  assumes "\<forall>(k, c) \<in> set (tp_connections t). \<forall>q. tc_socket c q \<noteq> None"
  shows "\<exists>io t'. tp_handleWait tcp_timeout Success expires_ec clock x (tp_stop t) = Inr (io, x, t') \<and>
    tp_acceptor t' = None \<and> map fst (tp_connections t') = map fst (tp_connections t) \<and>
    (\<forall>(k, c) \<in> set (tp_connections t'). tc_close_flag c \<and> (\<forall>q. tc_socket c q = Some Sock_closed)) \<and>
    set io = {Tp_acceptor_close, Tp_timer_cancel} \<union>
      {Tp_conn k (Tcp_close q) |k q. k \<in> fst ` set (tp_connections t)}"
proof -
  obtain io cs' where r: "tp_stop_all (tp_connections t) = Inr (io, cs')" "map fst cs' = map fst (tp_connections t)"
    "\<forall>(k, c) \<in> set cs'. tc_close_flag c \<and> (\<forall>q. tc_socket c q = Some Sock_closed)"
    "set io = {Tp_conn k (Tcp_close q) |k q. k \<in> fst ` set (tp_connections t)}"
    using tp_stop_all_outcome [OF assms] by blast
  then show ?thesis
    by (simp add: tp_handleWait_def tp_stop_def tp_close_def insert_commute)
qed

lemma tp_stop_closes_witness:
  "\<exists>io t'. tp_handleWait 500 Success Success 1000 demo_x (tp_stop demo_tp) = Inr (io, demo_x, t') \<and>
     tp_acceptor t' = None \<and> map fst (tp_connections t') = [0, 1]"
proof -
  have h: "\<forall>(k, c) \<in> set (tp_connections demo_tp). \<forall>q. tc_socket c q \<noteq> None"
    by (simp add: demo_tp_def demo0_eq)
  have k: "map fst (tp_connections demo_tp) = [0, 1]" by (simp add: demo_tp_def)
  obtain io t' where "tp_handleWait 500 Success Success 1000 demo_x (tp_stop demo_tp) = Inr (io, demo_x, t')"
    "tp_acceptor t' = None" "map fst (tp_connections t') = map fst (tp_connections demo_tp)"
    using tp_stop_closes [OF h, of 500 Success 1000 demo_x] by (elim exE conjE) (rule that)
  then show ?thesis unfolding k by (intro exI conjI)
qed

section \<open>Starting and accepting\<close>



end
