(* ===== verification/Tcp_Rate.thy ===== *)
theory Tcp_Rate
  imports Tcp_Proxy
begin

text \<open>
  The bandwidth of a TCP rule: the allowance of each direction of a connection is a token
  bucket, and what the timer adds to it bounds the bytes the connection writes.
\<close>

section \<open>The allowance of a direction is a token bucket\<close>

interpretation tcb: token_bucket "\<lambda>c :: 'a tcp_conn. tc_available_bytes c p" "\<lambda>n. tc_refill (int k + 1) p n"
    "\<lambda>cost c. if 0 \<le> tc_available_bytes c p then Some (tc_charge (int k + 1) p cost c) else None"
    "\<lambda>c. in_i32 (tc_available_bytes c p)" 2147483647 2147483647 for p :: idx2 and k :: nat
  by unfold_locales
     (auto simp: tc_refill_def tc_charge_def bucket_refill_def bucket_pay_def in_i32_def i32_id split: if_splits)

lemma tc_refill_avail_bucket:
  assumes "0 < bw" and "in_i32 (tc_available_bytes c p)" and "0 \<le> n" and "n \<le> 2147483647"
  shows "tc_available_bytes (tc_refill bw p n c) p = bucket_refill n (tc_available_bytes c p)"
  using tcb.refill_avail [where s = c and n = n and k = "nat (bw - 1)" and p = p] assms by simp

lemma tc_charge_avail_bucket:
  assumes "0 < bw" and "in_i32 (tc_available_bytes c p)" and "0 \<le> tc_available_bytes c p"
    and "0 \<le> cost" and "cost \<le> 2147483647"
  shows "tc_available_bytes (tc_charge bw p cost c) p = tc_available_bytes c p - cost"
  using tcb.pay_avail [where s = c and c = cost and k = "nat (bw - 1)" and p = p] assms
  by (simp add: bucket_pay_def)

lemma tc_next_write_pays:
  assumes "tc_next_write rule now p x c = Inr (io, y, c')" and "0 < tr_max_bandwidth rule"
    and "in_i32 (tc_available_bytes c p)"
    and "\<forall>m \<in> set (tc_msg_queue c p). buffer_ok (snd m) \<and> length (buffer_view (snd m)) \<le> TCP_BUFFER_SIZE"
  shows "io = [] \<and> tc_available_bytes c' p = tc_available_bytes c p \<or>
    (\<exists>bs. io = [Tcp_write p bs] \<and> 0 \<le> tc_available_bytes c p \<and> length bs \<le> TCP_BUFFER_SIZE \<and>
      tc_available_bytes c' p = tc_available_bytes c p - (int (length bs) + 54))"
proof (cases "tc_msg_queue c p")
  case Nil
  with assms(1) show ?thesis by (auto simp: tc_next_write_def)
next
  case (Cons m ms)
  obtain tm buf where m: "m = (tm, buf)" by force
  have ok: "buffer_ok buf" "length (buffer_view buf) \<le> 4096"
    using assms(4) Cons m by (simp_all add: TCP_BUFFER_SIZE_def)
  then have size: "buffer_get_size buf = int (length (buffer_view buf))" by (simp add: buffer_view_length)
  then have cost: "i32 (buffer_get_size buf + TCP_PACKET_EXTRA_OVERHEAD) = int (length (buffer_view buf)) + 54"
    using ok by (intro trans [OF i32_id]) (simp_all add: in_i32_def TCP_PACKET_EXTRA_OVERHEAD_def)
  show ?thesis
  proof (cases "0 \<le> tc_available_bytes c p \<and> tm \<le> now")
    case False
    with assms(1) Cons m show ?thesis by (auto simp: tc_next_write_def)
  next
    case True
    obtain g z where pay: "ip_pay (flip p) (int (length (buffer_view buf)) + 54) (tc_client_ip c) x = Inr (g, z)"
      using assms(1) True Cons m by (auto simp: tc_next_write_def Let_def result_simps cost)
    show ?thesis
    proof (cases g)
      case False
      with assms(1) True Cons m pay show ?thesis by (simp add: tc_next_write_def cost) auto
    next
      case g: True
      have "tc_available_bytes (tc_charge (tr_max_bandwidth rule) p (int (length (buffer_view buf)) + 54) c) p =
          tc_available_bytes c p - (int (length (buffer_view buf)) + 54)"
        using tc_charge_avail_bucket [OF assms(2,3)] True ok by simp
      with assms(1) True Cons m pay g buffer_read_ok [OF ok(1)] ok(2) show ?thesis
        by (auto simp: tc_next_write_def cost Let_def TCP_BUFFER_SIZE_def split: if_splits)
    qed
  qed
qed

section \<open>The bytes a connection writes\<close>

text \<open>
  The allowance of side \<open>p\<close>, the bytes written to it and those of a running write stay
  within a budget \<open>B\<close> (in thousandths of a byte).
\<close>

definition rate_ok :: "idx2 \<Rightarrow> int \<Rightarrow> 'a tcp_world \<Rightarrow> bool" where
  "rate_ok p B w \<longleftrightarrow> - 4150 \<le> tc_available_bytes (tw_c w) p \<and> tc_available_bytes (tw_c w) p < 2147483648 \<and>
     1000 * (tc_available_bytes (tw_c w) p + int (length (tw_tx w p)) + int (length (concat (tw_writes w p)))) \<le> B"

lemma rate_ok_same:
  "rate_ok p B w \<Longrightarrow> tc_available_bytes (tw_c w') p = tc_available_bytes (tw_c w) p \<Longrightarrow>
     int (length (tw_tx w' p)) + int (length (concat (tw_writes w' p))) \<le>
       int (length (tw_tx w p)) + int (length (concat (tw_writes w p))) \<Longrightarrow> rate_ok p B w'"
  by (simp add: rate_ok_def)

text \<open>The writes to side \<open>q\<close> among the operations started.\<close>

fun io_writes :: "idx2 \<Rightarrow> tcp_io list \<Rightarrow> byte list list" where
  "io_writes q [] = []"
| "io_writes q (Tcp_write p bs # io) = (if p = q then bs # io_writes q io else io_writes q io)"
| "io_writes q (_ # io) = io_writes q io"

lemma tcp_put_writes: "tw_writes (tcp_put io x c w) q = tw_writes w q @ io_writes q io"
proof -
  have "tw_writes (fold tcp_issue io v) q = tw_writes v q @ io_writes q io" for v :: "'a tcp_world"
    by (induction q io arbitrary: v rule: io_writes.induct) simp_all
  then show ?thesis by (simp add: tcp_put_def)
qed

lemma io_writes_append [simp]: "io_writes q (io @ io') = io_writes q io @ io_writes q io'"
  by (induction q io rule: io_writes.induct) simp_all

definition queue_ok :: "'a tcp_conn \<Rightarrow> idx2 \<Rightarrow> bool" where
  "queue_ok c p \<longleftrightarrow> (\<forall>m \<in> set (tc_msg_queue c p). buffer_ok (snd m) \<and> length (buffer_view (snd m)) \<le> TCP_BUFFER_SIZE)"

lemma tcp_reach_queue_ok: "tcp_reach w \<Longrightarrow> queue_ok (tw_c w) p"
  using tcp_inv_dir [OF tcp_reach_inv, of w p] by (simp add: td_defs queue_ok_def td_view_def)

lemma rate_next_write:
  assumes r: "rate_ok q B v" and h: "tc_next_write rule now p (tw_x v) (tw_c v) = Inr (io, y, c')"
    and bw: "0 < tr_max_bandwidth rule" and q: "queue_ok (tw_c v) p"
  shows "rate_ok q B (tcp_put io y c' v)"
proof (cases "q = p")
  case True
  have "in_i32 (tc_available_bytes (tw_c v) p)" using r True by (simp add: rate_ok_def in_i32_def)
  from tc_next_write_pays [OF h bw this] q consider
    "io = []" "tc_available_bytes c' p = tc_available_bytes (tw_c v) p"
    | bs where "io = [Tcp_write p bs]" "0 \<le> tc_available_bytes (tw_c v) p" "length bs \<le> TCP_BUFFER_SIZE"
      "tc_available_bytes c' p = tc_available_bytes (tw_c v) p - (int (length bs) + 54)"
    unfolding queue_ok_def by blast
  then show ?thesis
  proof cases
    case 1
    with r True show ?thesis by (simp add: rate_ok_def tcp_put_writes)
  next
    case 2
    with r True show ?thesis by (simp add: rate_ok_def tcp_put_writes TCP_BUFFER_SIZE_def)
  qed
next
  case False
  then have qp: "q = flip p" by (simp add: neq_flip)
  have "io_writes q io = []"
    using tc_next_write_io(1) [OF h] False by (auto split: if_splits)
  then show ?thesis
    using r tc_next_write_other(3) [OF h] qp by (simp add: rate_ok_def tcp_put_writes)
qed

lemma rate_flush_side:
  assumes r: "rate_ok q B w" and h: "tc_flush_side rule now n p (tw_x w) (tw_c w) = Inr (io, y, c')"
    and bw: "0 < tr_max_bandwidth rule" and qo: "queue_ok (tw_c w) p" and n: "0 \<le> n" "n \<le> 2147483647"
  shows "rate_ok q (B + (if q = p then 1000 * n else 0)) (tcp_put io y c' w)"
proof -
  define c1 where "c1 = tc_refill (tr_max_bandwidth rule) p n (tw_c w)"
  have q: "q = p \<or> q = flip p" by (cases p; cases q) simp_all
  have "in_i32 (tc_available_bytes (tw_c w) q)" using r by (simp add: rate_ok_def in_i32_def)
  then have "tc_available_bytes c1 q = (if q = p then bucket_refill n (tc_available_bytes (tw_c w) p) else tc_available_bytes (tw_c w) q)"
    using q tc_refill_avail_bucket [OF bw _ n, of "tw_c w" p] by (auto simp: c1_def)
  then have "rate_ok q (B + (if q = p then 1000 * n else 0)) (tcp_put [] (tw_x w) c1 w)"
    using r n by (auto simp: rate_ok_def tcp_put_writes bucket_refill_def split: if_splits)
  then show ?thesis
  proof (cases "tc_writing_flag (tw_c w) p")
    case True
    then have "io = []" "y = tw_x w" "c' = c1" using h by (simp_all add: tc_flush_side_next c1_def)
    then show ?thesis using \<open>rate_ok q _ (tcp_put [] (tw_x w) c1 w)\<close> by simp
  next
    case False
    then have "tc_next_write rule now p (tw_x (tcp_put [] (tw_x w) c1 w)) (tw_c (tcp_put [] (tw_x w) c1 w)) = Inr (io, y, c')"
      using h by (simp add: tc_flush_side_next c1_def)
    from rate_next_write [OF \<open>rate_ok q _ (tcp_put [] (tw_x w) c1 w)\<close> this bw]
    have "rate_ok q (B + (if q = p then 1000 * n else 0)) (tcp_put io y c' (tcp_put [] (tw_x w) c1 w))"
      using qo by (simp add: queue_ok_def c1_def)
    then show ?thesis using tcp_put_append [of "[]" io y c' w "tw_x w" c1] by simp
  qed
qed

lemma rate_mono: "rate_ok q B w \<Longrightarrow> B \<le> B' \<Longrightarrow> rate_ok q B' w"
  by (simp add: rate_ok_def)

lemma rate_flush:
  assumes w: "tcp_reach w" and r: "rate_ok q B w" and bw: "0 < tr_max_bandwidth rule"
    and h: "tc_flushMsgs rule now n expire (tw_x w) (tw_c w) = Inr (stay, io, y, c')"
    and n: "0 \<le> n" "n \<le> 2147483647"
  shows "rate_ok q (B + 1000 * n) (tcp_put io y c' (w\<lparr>tw_now := now, tw_alive := stay\<rparr>))"
    (is "rate_ok q _ (tcp_put io y c' ?w)")
proof -
  have r': "rate_ok q B ?w" using r by (simp add: rate_ok_def)
  have qo: "queue_ok (tw_c w) p" for p using w by (rule tcp_reach_queue_ok)
  consider (quiet) "io = []" "c' = tw_c w"
    | (expired) "tc_stop (tw_c w) = Inr (io, c')"
    | (sides) io0 io1 y0 c0 where "tc_flush_side rule now n I0 (tw_x w) (tw_c w) = Inr (io0, y0, c0)"
        "tc_flush_side rule now n I1 y0 c0 = Inr (io1, y, c')" "io = io0 @ io1"
    using h by (auto simp: tc_flushMsgs_def result_simps split: if_splits)
  then show ?thesis
  proof cases
    case quiet
    with r' n show ?thesis by (simp add: rate_ok_def tcp_put_writes)
  next
    case expired
    with r' n tc_stop_cases [OF expired] show ?thesis by (simp add: rate_ok_def tcp_put_writes)
  next
    case sides
    let ?v = "tcp_put io0 y0 c0 ?w"
    have s0: "rate_ok q (B + (if q = I0 then 1000 * n else 0)) ?v"
      using rate_flush_side [OF r' _ bw _ n, of now I0 io0 y0 c0] sides(1) qo by simp
    have "queue_ok (tw_c ?v) I1"
      using tc_flush_side_io(3) [OF sides(1)] qo [of I1] by (simp add: queue_ok_def tc_kept_def)
    then have "rate_ok q (B + (if q = I0 then 1000 * n else 0) + (if q = I1 then 1000 * n else 0)) (tcp_put io1 y c' ?v)"
      using rate_flush_side [OF s0 _ bw _ n, of now I1 io1 y c'] sides(2) by simp
    then have "rate_ok q (B + 1000 * n) (tcp_put io1 y c' ?v)"
      by (rule rate_mono) (use n in \<open>cases q; simp\<close>)
    then show ?thesis unfolding sides(3) by (simp only: tcp_put_append [of io0 io1 y c' _ y0 c0])
  qed
qed

lemma tc_handleRead_avail:
  "tc_handleRead rule now p ec n c = Inr (io, c') \<Longrightarrow> tc_available_bytes c' = tc_available_bytes c \<and> io_writes q io = []"
  by (auto simp: tc_handleRead_def tc_asyncRead_def tc_stop_def Let_def split: if_splits)

lemma rate_io:
  assumes w: "tcp_reach w" and r: "rate_ok q B w" and step: "tcp_io_step w w'" and bw: "0 < tr_max_bandwidth (tw_rule w)"
  shows "rate_ok q B w'"
  using step
proof (cases rule: tcp_io_step_cases)
  case (connect ec io c)
  then have "tc_available_bytes c = tc_available_bytes (tw_c w)" "io_writes q io = []"
    by (auto simp: tc_handleConnect_def tc_asyncRead_def tc_stop_def Let_def split: if_splits)
  with r connect show ?thesis by (simp add: rate_ok_def tcp_put_writes)
next
  case (read p data io c)
  with r tc_handleRead_avail [OF read(6), of q] show ?thesis
    by (simp add: rate_ok_def tcp_put_writes tcp_recv_data_def)
next
  case (read_error p ec io c)
  with r tc_handleRead_avail [OF read_error(5), of q] show ?thesis by (simp add: rate_ok_def tcp_put_writes)
next
  case (write_error p bs rest ec peer io x c k)
  then have "tc_available_bytes c = tc_available_bytes (tw_c w)" "io_writes q io = []"
    by (auto simp: tc_handleWrite_def tc_stop_def Let_def result_simps split: if_splits)
  with r write_error show ?thesis by (auto simp: rate_ok_def tcp_put_writes)
next
  case others
  with r show ?thesis by (simp add: rate_ok_def)
next
  case clock
  with r show ?thesis by (simp add: rate_ok_def)
next
  case (closed io c)
  with r tc_stop_cases [OF closed(3)] show ?thesis by (simp add: rate_ok_def tcp_put_writes)
next
  case (written p bs rest peer io y c')
  let ?w = "w\<lparr>tw_writes := (tw_writes w)(p := rest), tw_tx := (tw_tx w)(p := tw_tx w p @ bs)\<rparr>"
  obtain m ms where q: "tc_msg_queue (tw_c w) p = m # ms" and wf: "tc_writing_flag (tw_c w) p"
    using td_writing_exact [OF tcp_inv_dir [OF tcp_reach_inv [OF w], of p]] written(3) by auto
  have r': "rate_ok q B ?w" using r written(3) by (auto simp: rate_ok_def)
  have qo: "queue_ok (tw_c w) p" using w by (rule tcp_reach_queue_ok)
  have sock: "\<forall>q. tc_socket (tw_c w) q \<noteq> None" using tcp_reach_inv [OF w] by (simp add: tcp_inv_def)
  show ?thesis unfolding written(1)
    using wf q written(4) sock
  proof (cases rule: tc_handleWrite_written)
    case stop
    with r' show "rate_ok q B (tcp_put io y c' ?w)" by (simp add: rate_ok_def tcp_put_writes)
  next
    case (restart io')
    let ?c = "(tw_c w)\<lparr>tc_msg_queue := (tc_msg_queue (tw_c w))(p := ms),
         tc_reading_flag := (tc_reading_flag (tw_c w))(flip p := True),
         tc_recv_buf := (tc_recv_buf (tw_c w))(flip p := Some (new_bytes (int TCP_BUFFER_SIZE)))\<rparr>"
    let ?v = "tcp_put [Tcp_read (flip p)] (tw_x w) ?c ?w"
    have "rate_ok q B ?v" using r' by (simp add: rate_ok_def tcp_put_writes)
    from rate_next_write [OF this, of "tw_rule w" "tw_now w" p io' y c'] restart(3) bw qo q
    have "rate_ok q B (tcp_put io' y c' ?v)" by (simp add: queue_ok_def)
    then show "rate_ok q B (tcp_put io y c' ?w)" unfolding restart(2) tcp_put_append [of _ io' y c' ?w "tw_x w" ?c] .
  next
    case more
    let ?c = "(tw_c w)\<lparr>tc_msg_queue := (tc_msg_queue (tw_c w))(p := ms)\<rparr>"
    let ?v = "tcp_put [] (tw_x w) ?c ?w"
    have "rate_ok q B ?v" using r' by (simp add: rate_ok_def tcp_put_writes)
    from rate_next_write [OF this, of "tw_rule w" "tw_now w" p io y c'] more(2) bw qo q
    have "rate_ok q B (tcp_put io y c' ?v)" by (simp add: queue_ok_def)
    then show "rate_ok q B (tcp_put io y c' ?w)"
      using tcp_put_append [of "[]" io y c' ?w "tw_x w" ?c] by simp
  qed
qed

section \<open>Under the timer of the proxy\<close>

text \<open>
  The reachable states of a connection whose ticks are those of \<open>TcpProxy::handleWait\<close>: a
  tick at \<open>now\<close> tops the allowances up by \<open>tp_flush_bytes\<close> for the time since the last
  flush. The second component is \<open>last_flush_tm\<close>, which is \<open>t0\<close> when the connection is
  accepted. What a tick adds fits the \<open>int\<close> it is cast to.
\<close>

inductive tcp_timed :: "msec \<Rightarrow> 'a::linorder tcp_world \<Rightarrow> msec \<Rightarrow> bool" for t0 :: msec where
  accepted: "tcp_init w \<Longrightarrow> tcp_timed t0 w t0"
| event: "tcp_timed t0 w t \<Longrightarrow> tcp_io_step w w' \<Longrightarrow> tcp_timed t0 w' t"
| tick: "tcp_timed t0 w t \<Longrightarrow> tw_alive w \<Longrightarrow> t < now \<Longrightarrow>
     (now - t) * tr_max_bandwidth (tw_rule w) div 1000 < 2147483648 \<Longrightarrow>
     tc_flushMsgs (tw_rule w) now (tp_flush_bytes (tw_rule w) now t) expire (tw_x w) (tw_c w) = Inr (stay, io, x, c) \<Longrightarrow>
     tcp_timed t0 (tcp_put io x c (w\<lparr>tw_now := now, tw_alive := stay\<rparr>)) now"

lemma tcp_timed_reach: "tcp_timed t0 w t \<Longrightarrow> tcp_reach w"
  by (induction rule: tcp_timed.induct)
     (auto intro: reach_init reach_step [of tcp_init] tcp_step.io tcp_step.flush)

lemma tw_rule_put [simp]: "tw_rule (tcp_put io x c w) = tw_rule w"
proof -
  have "tw_rule (fold tcp_issue io v) = tw_rule v" for v :: "'a tcp_world"
  proof (induction io arbitrary: v)
    case (Cons i io)
    then show ?case by (cases i) simp_all
  qed simp
  then show ?thesis by (simp add: tcp_put_def)
qed

lemma tcp_io_step_rule: "tcp_io_step w w' \<Longrightarrow> tw_rule w' = tw_rule w"
  by (erule tcp_io_step_cases) simp_all

lemma tp_flush_bytes_exact:
  assumes "0 \<le> (now - t) * tr_max_bandwidth rule" and "(now - t) * tr_max_bandwidth rule div 1000 < 2147483648"
  shows "tp_flush_bytes rule now t = (now - t) * tr_max_bandwidth rule div 1000"
proof -
  define q where "q = (now - t) * tr_max_bandwidth rule"
  have "0 \<le> q" "q div 1000 < 2147483648" using assms by (simp_all add: q_def)
  then have "in_i32 (q div 1000)" by (simp add: in_i32_def)
  moreover have "q sdiv 1000 = q div 1000" using \<open>0 \<le> q\<close> by (simp add: signed_divide_int_def sgn_if)
  ultimately show ?thesis by (simp add: tp_flush_bytes_def q_def [symmetric] i32_id)
qed

lemma tcp_timed_rate:
  "tcp_timed t0 w t \<Longrightarrow> 0 < tr_max_bandwidth (tw_rule w) \<Longrightarrow>
     rate_ok p (tr_max_bandwidth (tw_rule w) * (t - t0)) w"
proof (induction rule: tcp_timed.induct)
  case (accepted w)
  then obtain rule now a x0 x c where new: "tc_new now (Some a) x0 = Inr (c, x)"
    and w: "w = tcp_accept_world rule now x c"
    unfolding tcp_init_def by blast
  from new have "tc_available_bytes c = (\<lambda>_. 0)" by (cases "getIPProxy a x0") (auto simp: tc_new_def)
  then show ?case
    by (simp add: w tcp_accept_world_def tc_start_def rate_ok_def tcp_put_def)
next
  case (event w t w')
  then show ?case
    using rate_io [OF tcp_timed_reach [OF event(1)] _ event(2)] tcp_io_step_rule [OF event(2)] by simp
next
  case (tick w t now expire stay io x c)
  let ?bw = "tr_max_bandwidth (tw_rule w)"
  have bw: "0 < ?bw" using tick.prems by simp
  define n where "n = (now - t) * ?bw div 1000"
  have "0 \<le> (now - t) * ?bw" using bw tick(3) by simp
  then have n: "tp_flush_bytes (tw_rule w) now t = n" "0 \<le> n" "n \<le> 2147483647"
    using tp_flush_bytes_exact [of now t "tw_rule w"] tick(4) by (simp_all add: n_def)
  have "rate_ok p (?bw * (t - t0) + 1000 * n) (tcp_put io x c (w\<lparr>tw_now := now, tw_alive := stay\<rparr>))"
    using rate_flush [OF tcp_timed_reach [OF tick(1)] tick.IH [OF bw] bw tick(5) [unfolded n(1)] n(2,3)] .
  moreover have "1000 * n \<le> (now - t) * ?bw" by (simp add: n_def)
  then have "?bw * (t - t0) + 1000 * n \<le> ?bw * (now - t0)" by (simp add: algebra_simps)
  ultimately show ?case using rate_mono by fastforce
qed

text \<open>
  C11. The bandwidth limit of a TCP rule (\<open>TcpProxy::handleWait\<close> with the handlers of
  \<open>TcpConnection\<close>): with a limit of \<open>bw\<close> bytes per second, over any run of completions and
  ticks of the timer, the bytes written to a side are at most \<open>bw\<close> times the milliseconds
  from \<open>t0\<close> to the last flush over 1000, plus one message with its overhead (4150 bytes).
\<close>

theorem tcp_throughput:
  assumes "tcp_timed t0 w t" and "0 < tr_max_bandwidth (tw_rule w)"
  shows "1000 * int (length (tw_tx w p)) \<le> tr_max_bandwidth (tw_rule w) * (t - t0) + 1000 * 4150"
  using tcp_timed_rate [OF assms, of p] by (simp add: rate_ok_def)

theorem tcp_throughput_witness:
  "tcp_timed 0 demo3 10 \<and> 1000 * int (length (tw_tx demo3 I1)) \<le> 100000 * 10 + 1000 * 4150"
proof -
  have "tcp_timed 0 demo0 0" using demo_init by (rule tcp_timed.accepted)
  then have "tcp_timed 0 demo1 0" using demo_step1 by (rule tcp_timed.event)
  then have t2: "tcp_timed 0 demo2 0" using demo_step2 by (rule tcp_timed.event)
  have r: "tw_rule demo3 = demo_rule" "tw_rule demo2 = demo_rule" "tr_max_bandwidth demo_rule = 100000"
    by (simp_all add: demo3_eq demo2_eq demo1_eq demo0_eq demo_rule_def)
  have fb: "tp_flush_bytes (tw_rule demo2) 10 0 = 1000"
    using tp_flush_bytes_exact [of 10 0 demo_rule] by (simp add: r)
  obtain stay io x c where f: "tc_flushMsgs (tw_rule demo2) 10 1000 0 (tw_x demo2) (tw_c demo2) = Inr (stay, io, x, c)"
    and d: "demo3 = tcp_put io x c (demo2\<lparr>tw_now := 10, tw_alive := stay\<rparr>)"
    using demo_flush by blast
  have t3: "tcp_timed 0 demo3 10"
    unfolding d by (rule tcp_timed.tick [OF t2 demo_alive(2)]) (use f fb r in simp_all)
  then show ?thesis using tcp_throughput [OF t3, of I1] by (simp add: r)
qed

end
