(* ===== verification/Tcp_System.thy ===== *)
theory Tcp_System
  imports Tcp_Proxy_Props Tcp_Rate
begin

text \<open>
  A \<open>TcpProxy\<close> with all its connections and everything Boost.Asio has outstanding for them.
  A step is an accept, a completion of one connection, a tick of the timer, a stop, or what
  others do to the table of client addresses. Seen from one of its connections, every such
  step is a sequence of steps of \<open>Tcp_World\<close>, so that what holds of one connection in every
  environment holds of all of them at once.
\<close>

section \<open>What is outstanding for a connection\<close>

record tcp_pend =
  pd_connects :: nat
  pd_reads :: "idx2 \<Rightarrow> nat"
  pd_writes :: "idx2 \<Rightarrow> byte list list"
  pd_rx :: "idx2 \<Rightarrow> byte list"
  pd_tx :: "idx2 \<Rightarrow> byte list"

definition pend0 :: tcp_pend where
  "pend0 = \<lparr>pd_connects = 0, pd_reads = (\<lambda>_. 0), pd_writes = (\<lambda>_. []), pd_rx = (\<lambda>_. []), pd_tx = (\<lambda>_. [])\<rparr>"

fun pend_issue :: "tcp_io \<Rightarrow> tcp_pend \<Rightarrow> tcp_pend" where
  "pend_issue Tcp_connect d = d\<lparr>pd_connects := Suc (pd_connects d)\<rparr>"
| "pend_issue (Tcp_read p) d = d\<lparr>pd_reads := (pd_reads d)(p := Suc (pd_reads d p))\<rparr>"
| "pend_issue (Tcp_write p bs) d = d\<lparr>pd_writes := (pd_writes d)(p := pd_writes d p @ [bs])\<rparr>"
| "pend_issue (Tcp_close p) d = d"

definition pend_world :: "'a tcp_rule \<Rightarrow> msec \<Rightarrow> 'a ip_proxies \<Rightarrow> 'a tcp_conn \<Rightarrow> tcp_pend \<Rightarrow> 'a tcp_world" where
  "pend_world rule now x c d =
     \<lparr>tw_rule = rule, tw_now = now, tw_x = x, tw_c = c, tw_alive = True, tw_connects = pd_connects d,
      tw_reads = pd_reads d, tw_writes = pd_writes d, tw_rx = pd_rx d, tw_tx = pd_tx d\<rparr>"

definition pend_of :: "'a tcp_world \<Rightarrow> tcp_pend" where
  "pend_of w = \<lparr>pd_connects = tw_connects w, pd_reads = tw_reads w, pd_writes = tw_writes w,
     pd_rx = tw_rx w, pd_tx = tw_tx w\<rparr>"

lemma pend_world_sel [simp]:
  "tw_rule (pend_world r n x c d) = r" "tw_now (pend_world r n x c d) = n" "tw_x (pend_world r n x c d) = x"
  "tw_c (pend_world r n x c d) = c" "tw_alive (pend_world r n x c d)" "tw_rx (pend_world r n x c d) = pd_rx d"
  "tw_tx (pend_world r n x c d) = pd_tx d" "pend_of (pend_world r n x c d) = d"
  by (simp_all add: pend_world_def pend_of_def)

lemma pend_world_upd [simp]:
  "(pend_world r n x c d)\<lparr>tw_x := y\<rparr> = pend_world r n y c d"
  "(pend_world r n x c d)\<lparr>tw_now := m\<rparr> = pend_world r m x c d"
  "(pend_world r n x c d)\<lparr>tw_alive := True\<rparr> = pend_world r n x c d"
  by (simp_all add: pend_world_def)

lemma pend_world_of: "tw_alive w \<Longrightarrow> pend_world (tw_rule w) (tw_now w) (tw_x w) (tw_c w) (pend_of w) = w"
  by (simp add: pend_world_def pend_of_def)

lemma tcp_put_pend: "tcp_put io y c' (pend_world r n x c d) = pend_world r n y c' (fold pend_issue io d)"
proof -
  have "fold tcp_issue io (pend_world r n y c' e) = pend_world r n y c' (fold pend_issue io e)" for e
  proof (induction io arbitrary: e)
    case (Cons i io)
    have "tcp_issue i (pend_world r n y c' e) = pend_world r n y c' (pend_issue i e)"
      by (cases i) (simp_all add: pend_world_def)
    then show ?case using Cons by simp
  qed simp
  moreover have "(pend_world r n x c d)\<lparr>tw_x := y, tw_c := c'\<rparr> = pend_world r n y c' d"
    by (simp add: pend_world_def)
  ultimately show ?thesis by (simp add: tcp_put_def)
qed

section \<open>State and steps\<close>

text \<open>\<open>ts_accepted\<close> notes the last flush before a connection was accepted.\<close>

record 'a tcp_sys =
  ts_proxy :: "'a tcp_proxy"
  ts_x :: "'a ip_proxies"
  ts_pend :: "nat \<Rightarrow> tcp_pend"
  ts_accepted :: "nat \<Rightarrow> msec"

abbreviation ts_conns :: "'a tcp_sys \<Rightarrow> (nat \<times> 'a tcp_conn) list" where
  "ts_conns s \<equiv> tp_connections (ts_proxy s)"

definition ts_world :: "'a tcp_sys \<Rightarrow> nat \<Rightarrow> 'a tcp_conn \<Rightarrow> 'a tcp_world" where
  "ts_world s k c = pend_world (tp_rule (ts_proxy s)) (tp_now (ts_proxy s)) (ts_x s) c (ts_pend s k)"

fun ts_issue :: "tcp_proxy_io \<Rightarrow> (nat \<Rightarrow> tcp_pend) \<Rightarrow> nat \<Rightarrow> tcp_pend" where
  "ts_issue (Tp_conn k i) d = d(k := pend_issue i (d k))"
| "ts_issue _ d = d"

definition ts_put :: "tcp_proxy_io list \<Rightarrow> 'a ip_proxies \<Rightarrow> 'a tcp_proxy \<Rightarrow> 'a tcp_sys \<Rightarrow> 'a tcp_sys" where
  "ts_put io x t s = s\<lparr>ts_proxy := t, ts_x := x, ts_pend := fold ts_issue io (ts_pend s)\<rparr>"

definition conn_put :: "nat \<Rightarrow> 'a tcp_conn \<Rightarrow> (nat \<times> 'a tcp_conn) list \<Rightarrow> (nat \<times> 'a tcp_conn) list" where
  "conn_put k c cs = map (\<lambda>(j, d). (j, if j = k then c else d)) cs"

text \<open>A proxy that has been started, as \<open>SharedData::init\<close> lists it.\<close>

definition tp_listed :: "'a tcp_proxy \<Rightarrow> bool" where
  "tp_listed t \<longleftrightarrow> (\<exists>ar rule clock io. tp_start ar (tp_new rule clock) = Inr (True, io, t))"

definition ts_fresh :: "'a tcp_proxy \<Rightarrow> 'a ip_proxies \<Rightarrow> 'a tcp_sys" where
  "ts_fresh t x = \<lparr>ts_proxy = t, ts_x = x, ts_pend = (\<lambda>_. pend0), ts_accepted = (\<lambda>_. 0)\<rparr>"

definition ts_init :: "'a::linorder tcp_sys \<Rightarrow> bool" where
  "ts_init s \<longleftrightarrow> (\<exists>t x. tp_listed t \<and> ipx_ok x \<and> s = ts_fresh t x)"

text \<open>The table may change as long as it keeps its form, its limits and the entries it has.\<close>

definition ip_grows :: "'a::linorder ip_proxies \<Rightarrow> 'a ip_proxies \<Rightarrow> bool" where
  "ip_grows x y \<longleftrightarrow> ipx_ok y \<and> ipx_bandwidth y = ipx_bandwidth x \<and>
     (\<forall>a. ip_lookup x a \<noteq> None \<longrightarrow> ip_lookup y a \<noteq> None)"

definition ts_held :: "'a::linorder ip_proxies \<Rightarrow> (nat \<times> 'a tcp_conn) list \<Rightarrow> bool" where
  "ts_held x cs \<longleftrightarrow> (\<forall>(k, c) \<in> set cs. \<forall>a. tc_client_ip c = Some a \<longrightarrow> ip_lookup x a \<noteq> None)"

text \<open>
  \<open>gap\<close> bounds the time between two flushes. \<open>ts_own\<close> are the steps of the proxy. Others keep
  the entries that its connections hold: that they do is shown where all the parts of the process are put together (\<open>Process_System\<close>).
\<close>

inductive ts_own :: "int \<Rightarrow> 'a::linorder tcp_sys \<Rightarrow> 'a tcp_sys \<Rightarrow> bool" for gap :: int where
  accept: "tp_handleAccept ar error remote (ts_x s) (ts_proxy s) = Inr (io, x, t) \<Longrightarrow>
     ts_own gap s (ts_put io x t (s\<lparr>ts_accepted :=
       (ts_accepted s)(tp_next (ts_proxy s) := tp_last_flush_tm (ts_proxy s))\<rparr>))"
| complete: "(k, c) \<in> set (ts_conns s) \<Longrightarrow> tcp_event (ts_world s k c) w \<Longrightarrow>
     ts_own gap s (s\<lparr>ts_proxy := (ts_proxy s)\<lparr>tp_connections := conn_put k (tw_c w) (ts_conns s)\<rparr>,
       ts_x := tw_x w, ts_pend := (ts_pend s)(k := pend_of w)\<rparr>)"
| tick: "clock - tp_last_flush_tm (ts_proxy s) \<le> gap \<Longrightarrow>
     tp_handleWait tcp_timeout error expires_ec clock (ts_x s) (ts_proxy s) = Inr (io, x, t) \<Longrightarrow>
     ts_own gap s (ts_put io x t s)"
| stop: "ts_own gap s (s\<lparr>ts_proxy := tp_stop (ts_proxy s)\<rparr>)"

inductive ts_step :: "int \<Rightarrow> 'a::linorder tcp_sys \<Rightarrow> 'a tcp_sys \<Rightarrow> bool" for gap :: int where
  own: "ts_own gap s s' \<Longrightarrow> ts_step gap s s'"
| others: "ipx_ok x \<Longrightarrow> ipx_bandwidth x = ipx_bandwidth (ts_x s) \<Longrightarrow> ts_held x (ts_conns s) \<Longrightarrow>
     ts_step gap s (s\<lparr>ts_x := x\<rparr>)"

section \<open>The table under the operations of connections\<close>

lemma ip_grows_refl: "ipx_ok x \<Longrightarrow> ip_grows x x"
  by (simp add: ip_grows_def)

lemma ip_grows_trans: "ip_grows x y \<Longrightarrow> ip_grows y z \<Longrightarrow> ip_grows x z"
  by (simp add: ip_grows_def)

lemma ip_same_grows: "ipx_ok x \<Longrightarrow> ip_same x y \<Longrightarrow> ip_grows x y"
  using ip_same_None [of x y] by (simp add: ip_same_def ip_grows_def)

lemma ip_grows_held: "ip_grows x y \<Longrightarrow> ts_held x cs \<Longrightarrow> ts_held y cs"
  by (fastforce simp: ip_grows_def ts_held_def)

lemma ts_heldD: "ts_held x cs \<Longrightarrow> (k, c) \<in> set cs \<Longrightarrow> tc_client_ip c = Some a \<Longrightarrow> ip_lookup x a \<noteq> None"
  by (auto simp: ts_held_def)

lemma ts_heldI:
  "(\<And>k c a. (k, c) \<in> set cs \<Longrightarrow> tc_client_ip c = Some a \<Longrightarrow> ip_lookup x a \<noteq> None) \<Longrightarrow> ts_held x cs"
  by (fastforce simp: ts_held_def)

lemma tc_delete_grows: "ipx_ok x \<Longrightarrow> tc_delete c x = Inr y \<Longrightarrow> ip_grows x y"
  unfolding tc_delete_def ip_grows_def
  using ip_release_ok [of "tc_client_ip c" x y] ip_release_bandwidth [of "tc_client_ip c" x y]
  by (auto simp: ip_release_def smap_find_put split: option.splits)

lemma tc_flushMsgs_keeps:
  "tc_flushMsgs rule now n expire x c = Inr (stay, io, y, c') \<Longrightarrow> ip_same x y \<and> tc_client_ip c' = tc_client_ip c"
  using tc_flush_side_io(3) ip_same_trans
  by (fastforce simp: tc_flushMsgs_def result_simps tc_kept_def tc_stop_def Let_def split: if_splits)

lemma tc_flushMsgs_grows:
  assumes "ipx_ok x" and "tc_flushMsgs rule now n expire x c = Inr (stay, io, y, c')"
  shows "ip_grows x y" and "tc_client_ip c' = tc_client_ip c"
  using tc_flushMsgs_keeps [OF assms(2)] assms(1) by (simp_all add: ip_same_grows)

lemma tc_next_write_keeps:
  "tc_next_write rule now p x c = Inr (io, y, c') \<Longrightarrow> ip_same x y \<and> tc_client_ip c' = tc_client_ip c"
  by (erule tc_next_write_cases) simp_all

lemma tc_handleWrite_keeps:
  assumes "tc_handleWrite rule now p ec peer x c = Inr (io, y, c')"
  shows "ip_same x y \<and> tc_client_ip c' = tc_client_ip c"
  using assms
  by (auto simp: tc_handleWrite_def tc_asyncRead_def tc_stop_def result_simps Let_def
      dest!: tc_next_write_keeps split: if_splits list.splits)

lemma tcp_put_keeps [simp]: "tw_now (tcp_put io x c w) = tw_now w" "tw_alive (tcp_put io x c w) = tw_alive w"
proof -
  have "tw_now (fold tcp_issue io v) = tw_now v \<and> tw_alive (fold tcp_issue io v) = tw_alive v" for v :: "'a tcp_world"
  proof (induction io arbitrary: v)
    case (Cons i io)
    then show ?case by (cases i) simp_all
  qed simp
  then show "tw_now (tcp_put io x c w) = tw_now w" "tw_alive (tcp_put io x c w) = tw_alive w"
    by (simp_all add: tcp_put_def)
qed

lemma tcp_event_keeps:
  assumes "tcp_event w w'"
  shows "tw_rule w' = tw_rule w \<and> tw_now w' = tw_now w \<and> tw_alive w' \<and> ip_same (tw_x w) (tw_x w') \<and>
    tc_client_ip (tw_c w') = tc_client_ip (tw_c w)"
  using assms
proof cases
  case (connect ec io c)
  then show ?thesis
    by (auto simp: tc_handleConnect_def tc_asyncRead_def tc_stop_def Let_def split: if_splits)
next
  case (read p data io c)
  then show ?thesis
    by (auto simp: tc_handleRead_def tc_asyncRead_def tc_stop_def tcp_recv_data_def Let_def split: if_splits)
next
  case (read_error p ec io c)
  then show ?thesis
    by (auto simp: tc_handleRead_def tc_asyncRead_def tc_stop_def Let_def split: if_splits)
next
  case (written p bs rest peer io x c)
  then show ?thesis using tc_handleWrite_keeps [OF written(4)] by simp
next
  case (write_error p bs rest ec peer io x c k)
  then show ?thesis using tc_handleWrite_keeps [OF write_error(6)] by simp
qed

lemma tcp_event_frame:
  assumes "tcp_event w w'" and "ipx_ok (tw_x w)"
  shows "tw_rule w' = tw_rule w" "tw_now w' = tw_now w" "tw_alive w'" "ip_grows (tw_x w) (tw_x w')"
    "tc_client_ip (tw_c w') = tc_client_ip (tw_c w)"
  using tcp_event_keeps [OF assms(1)] assms(2) by (simp_all add: ip_same_grows)

section \<open>What the proxy does to each of its connections\<close>

lemma fold_ts_issue_conn:
  "fold ts_issue (map (Tp_conn k) io) d = d(k := fold pend_issue io (d k))"
  by (induction io arbitrary: d) simp_all

text \<open>Every connection is left alone or stopped.\<close>

definition conns_stop :: "(nat \<Rightarrow> tcp_pend) \<Rightarrow> (nat \<times> 'a tcp_conn) list \<Rightarrow> (nat \<Rightarrow> tcp_pend) \<Rightarrow>
    (nat \<times> 'a tcp_conn) list \<Rightarrow> bool" where
  "conns_stop d cs d' cs' \<longleftrightarrow> map fst cs' = map fst cs \<and> (\<forall>j. j \<notin> fst ` set cs \<longrightarrow> d' j = d j) \<and>
     (\<forall>(k, c') \<in> set cs'. \<exists>c. (k, c) \<in> set cs \<and>
        (c' = c \<and> d' k = d k \<or> (\<exists>io. tc_stop c = Inr (io, c') \<and> d' k = fold pend_issue io (d k))))"

lemma conns_stop_refl: "conns_stop d cs d cs"
  by (auto simp: conns_stop_def)

lemma tp_stop_all_sim:
  assumes "tp_stop_all cs = Inr (io, cs')" and "distinct (map fst cs)"
  shows "conns_stop d cs (fold ts_issue io d) cs'"
  using assms
proof (induction cs arbitrary: d io cs')
  case (Cons kc cs)
  obtain k c where kc: "kc = (k, c)" by force
  obtain io0 c1 io1 cs1 where s: "tc_stop c = Inr (io0, c1)" "tp_stop_all cs = Inr (io1, cs1)"
    and r: "io = map (Tp_conn k) io0 @ io1" "cs' = (k, c1) # cs1"
    using Cons.prems(1) by (auto simp: kc result_simps)
  let ?d = "d(k := fold pend_issue io0 (d k))"
  have IH: "conns_stop ?d cs (fold ts_issue io1 ?d) cs1" using Cons s(2) by simp
  have k: "k \<notin> fst ` set cs" using Cons.prems(2) by (simp add: kc)
  have "fold ts_issue io d = fold ts_issue io1 ?d" by (simp add: r fold_ts_issue_conn)
  moreover have "fold ts_issue io1 ?d k = fold pend_issue io0 (d k)" using IH k by (simp add: conns_stop_def)
  moreover have "map fst cs1 = map fst cs" using IH by (simp add: conns_stop_def)
  then have "fst ` set cs1 = fst ` set cs" by (metis list.set_map)
  then have "j \<noteq> k" if "(j, c') \<in> set cs1" for j c' using k that by force
  ultimately show ?case using IH s(1) unfolding conns_stop_def r(2) kc by fastforce
qed (simp add: conns_stop_def)

lemma tp_flush_all_sim:
  assumes "tp_flush_all rule now n expire x cs = Inr (io, y, cs')" and "ipx_ok x" and "distinct (map fst cs)"
  shows "ip_grows x y \<and> fst ` set cs' \<subseteq> fst ` set cs \<and> distinct (map fst cs') \<and>
    (\<forall>j. j \<notin> fst ` set cs \<longrightarrow> fold ts_issue io d j = d j) \<and>
    (\<forall>(k, c') \<in> set cs'. \<exists>c iok x1 x2. (k, c) \<in> set cs \<and> ip_grows x x1 \<and>
       tc_flushMsgs rule now n expire x1 c = Inr (True, iok, x2, c') \<and> ip_grows x2 y \<and>
       fold ts_issue io d k = fold pend_issue iok (d k))"
  using assms
proof (induction cs arbitrary: d x io cs')
  case (Cons kc cs)
  obtain k c where kc: "kc = (k, c)" by force
  obtain stay io0 x1 c1 x2 io1 cs1 where f: "tc_flushMsgs rule now n expire x c = Inr (stay, io0, x1, c1)"
    and del: "(if stay then Inr x1 else tc_delete c1 x1) = Inr x2"
    and rec: "tp_flush_all rule now n expire x2 cs = Inr (io1, y, cs1)"
    and r: "io = map (Tp_conn k) io0 @ io1" "cs' = (if stay then (k, c1) # cs1 else cs1)"
    using Cons.prems(1) by (auto simp: kc result_simps)
  let ?d = "d(k := fold pend_issue io0 (d k))"
  have g1: "ip_grows x x1" using f Cons.prems(2) by (rule tc_flushMsgs_grows(1) [rotated])
  then have "ipx_ok x1" by (simp add: ip_grows_def)
  then have g2: "ip_grows x1 x2" using del tc_delete_grows by (cases stay) (auto simp: ip_grows_refl)
  then have ok2: "ipx_ok x2" by (simp add: ip_grows_def)
  have dist: "distinct (map fst cs)" and k: "k \<notin> fst ` set cs" using Cons.prems(3) by (simp_all add: kc)
  note IH = Cons.IH [OF rec ok2 dist, of ?d]
  have g: "ip_grows x2 y" and keys: "fst ` set cs1 \<subseteq> fst ` set cs" "distinct (map fst cs1)"
    and out: "\<And>j. j \<notin> fst ` set cs \<Longrightarrow> fold ts_issue io1 ?d j = ?d j"
    and conns: "\<And>j c'. (j, c') \<in> set cs1 \<Longrightarrow> \<exists>c iok y1 y2. (j, c) \<in> set cs \<and> ip_grows x2 y1 \<and>
       tc_flushMsgs rule now n expire y1 c = Inr (True, iok, y2, c') \<and> ip_grows y2 y \<and>
       fold ts_issue io1 ?d j = fold pend_issue iok (?d j)"
    using IH by (blast, blast, blast, blast, fastforce)
  have io: "fold ts_issue io d = fold ts_issue io1 ?d" by (simp add: r fold_ts_issue_conn)
  have gx: "ip_grows x x2" "ip_grows x1 y" using g1 g2 g ip_grows_trans by blast+
  have "\<exists>c iok y1 y2. (j, c) \<in> set (kc # cs) \<and> ip_grows x y1 \<and>
       tc_flushMsgs rule now n expire y1 c = Inr (True, iok, y2, c') \<and> ip_grows y2 y \<and>
       fold ts_issue io d j = fold pend_issue iok (d j)" if j: "(j, c') \<in> set cs'" for j c'
  proof (cases "(j, c') \<in> set cs1")
    case True
    then have "j \<noteq> k" using keys(1) k by force
    then show ?thesis using conns [OF True] gx(1) ip_grows_trans unfolding io by fastforce
  next
    case False
    then have "stay" "j = k" "c' = c1" using j by (simp_all add: r(2) split: if_splits)
    then show ?thesis using f gx(2) out [OF k] Cons.prems(2) ip_grows_refl unfolding io kc by fastforce
  qed
  moreover have "fold ts_issue io d j = d j" if "j \<notin> fst ` set (kc # cs)" for j
    using that out [of j] by (simp add: io kc)
  moreover have "ip_grows x y" using gx(1) g by (rule ip_grows_trans)
  moreover have "fst ` set cs' \<subseteq> fst ` set (kc # cs)" "distinct (map fst cs')"
    using keys k by (auto simp: r(2) kc)
  ultimately show ?case by blast
qed (simp add: ip_grows_refl)

lemma tp_asyncWait_sim:
  assumes "tp_asyncWait ec t = Inr (io, t')" and "distinct (map fst (tp_connections t))"
  shows "conns_stop d (tp_connections t) (fold ts_issue io d) (tp_connections t') \<and> tp_rule t' = tp_rule t \<and>
    tp_now t' = tp_now t \<and> tp_last_flush_tm t' = tp_last_flush_tm t \<and> tp_next t' = tp_next t"
  using assms(1) tp_stop_all_sim [OF _ assms(2), of _ _ d]
  by (auto simp: tp_asyncWait_def tp_close_def result_simps conns_stop_refl split: if_splits)

lemma tp_start_sim:
  assumes "tp_start ar t = Inr (started, io, t')" and "distinct (map fst (tp_connections t))"
  shows "conns_stop d (tp_connections t) (fold ts_issue io d) (tp_connections t') \<and> tp_rule t' = tp_rule t \<and>
    tp_now t' = tp_now t \<and> tp_last_flush_tm t' = tp_last_flush_tm t \<and> tp_next t' = tp_next t"
proof (cases "ar_open ar = Success \<and> ar_set_option ar = Success \<and> ar_bind ar = Success \<and> ar_listen ar = Success")
  case True
  let ?t = "t\<lparr>tp_acceptor := Some (tr_src_port (tp_rule t)), tp_accept_socket := Some Sock_open\<rparr>"
  obtain io' where w: "tp_asyncWait (ar_expires ar) ?t = Inr (io', t')" "io = Tp_accept # io'"
    using assms(1) True by (auto simp: tp_start_def tp_startAccept_def result_simps)
  show ?thesis using tp_asyncWait_sim [OF w(1), of d] assms(2) by (simp add: w(2))
next
  case False
  then show ?thesis using assms(1) by (auto simp: tp_start_def conns_stop_refl split: if_splits)
qed

end
