(* ===== verification/Tcp_Observer.thy ===== *)
theory Tcp_Observer
  imports Tcp_System
begin

text \<open>
  Every connection of a \<open>TcpProxy\<close> is, at every moment, a reachable connection in the sense
  of \<open>Tcp_World\<close>, and one whose timer is that of the proxy in the sense of \<open>Tcp_Rate\<close>. Both
  are instances of one locale: whatever the steps of a connection keep, the steps of the
  proxy keep for all its connections.
\<close>

section \<open>The contract\<close>

definition ts_ok :: "'a::linorder tcp_sys \<Rightarrow> bool" where
  "ts_ok s \<longleftrightarrow> distinct (map fst (ts_conns s)) \<and> (\<forall>k \<in> fst ` set (ts_conns s). k < tp_next (ts_proxy s)) \<and>
     (\<forall>k \<ge> tp_next (ts_proxy s). ts_pend s k = pend0) \<and> ipx_ok (ts_x s) \<and> ts_held (ts_x s) (ts_conns s)"

definition ts_obs :: "(msec \<Rightarrow> 'a::linorder tcp_world \<Rightarrow> msec \<Rightarrow> bool) \<Rightarrow> 'a tcp_sys \<Rightarrow> bool" where
  "ts_obs R s \<longleftrightarrow> ts_ok s \<and> (\<forall>(k, c) \<in> set (ts_conns s).
     R (ts_accepted s k) (ts_world s k c) (tp_last_flush_tm (ts_proxy s)))"

lemma ts_obsI:
  "ts_ok s \<Longrightarrow> (\<And>k c. (k, c) \<in> set (ts_conns s) \<Longrightarrow>
     R (ts_accepted s k) (ts_world s k c) (tp_last_flush_tm (ts_proxy s))) \<Longrightarrow> ts_obs R s"
  by (auto simp: ts_obs_def)

lemma ts_obs_cong:
  "ts_obs R s \<Longrightarrow> ts_proxy s' = ts_proxy s \<Longrightarrow> ts_x s' = ts_x s \<Longrightarrow> ts_pend s' = ts_pend s \<Longrightarrow>
     ts_accepted s' = ts_accepted s \<Longrightarrow> ts_obs R s'"
  by (simp add: ts_obs_def ts_ok_def ts_world_def)

text \<open>
  \<open>R t0 w t\<close>: the connection \<open>w\<close> was accepted when the last flush was at \<open>t0\<close>, and the last
  flush now is at \<open>t\<close>.
\<close>

locale tcp_observer =
  fixes R :: "msec \<Rightarrow> 'a::linorder tcp_world \<Rightarrow> msec \<Rightarrow> bool" and gap :: int
  assumes R_init: "tcp_init w \<Longrightarrow> R t w t"
    and R_io: "R t0 w t \<Longrightarrow> tcp_io_step w w' \<Longrightarrow> R t0 w' t"
    and R_flush: "R t0 w t \<Longrightarrow> tw_alive w \<Longrightarrow> t < now \<Longrightarrow> now - t \<le> gap \<Longrightarrow>
      tc_flushMsgs (tw_rule w) now (tp_flush_bytes (tw_rule w) now t) expire (tw_x w) (tw_c w) = Inr (True, io, x, c) \<Longrightarrow>
      R t0 (tcp_put io x c (w\<lparr>tw_now := now, tw_alive := True\<rparr>)) now"
begin

lemma R_grow: "R t0 (pend_world r n x c d) t \<Longrightarrow> ip_grows x y \<Longrightarrow> R t0 (pend_world r n y c d) t"
  using R_io [OF _ tcp_io_step.others [of "pend_world r n x c d" y]] by (simp add: ip_grows_def)

lemma R_clock: "R t0 (pend_world r n x c d) t \<Longrightarrow> R t0 (pend_world r m x c d) t"
  using R_io [OF _ tcp_io_step.clock [of "pend_world r n x c d" m]] by simp

lemma R_closed:
  "R t0 (pend_world r n x c d) t \<Longrightarrow> tc_stop c = Inr (io, c') \<Longrightarrow> R t0 (pend_world r n x c' (fold pend_issue io d)) t"
  using R_io [OF _ tcp_io_step.closed [of "pend_world r n x c d" io c']] by (simp add: tcp_put_pend)

lemma R_tick:
  "R t0 (pend_world r n x c d) t \<Longrightarrow> t < now \<Longrightarrow> now - t \<le> gap \<Longrightarrow>
   tc_flushMsgs r now (tp_flush_bytes r now t) expire x c = Inr (True, io, y, c') \<Longrightarrow>
   R t0 (pend_world r now y c' (fold pend_issue io d)) now"
  using R_flush [of t0 "pend_world r n x c d" t now expire io y c'] by (simp add: tcp_put_pend)

lemma obs_conns_stop:
  assumes "ts_obs R s" and stop: "conns_stop (ts_pend s) (ts_conns s) d' (tp_connections t')"
    and t': "tp_rule t' = tp_rule (ts_proxy s)" "tp_now t' = tp_now (ts_proxy s)"
      "tp_last_flush_tm t' = tp_last_flush_tm (ts_proxy s)" "tp_next t' = tp_next (ts_proxy s)"
    and acc: "\<forall>k < tp_next (ts_proxy s). acc k = ts_accepted s k"
  shows "ts_obs R (s\<lparr>ts_proxy := t', ts_pend := d', ts_accepted := acc\<rparr>)"
proof -
  have ok: "ts_ok s" and obs: "\<And>k c. (k, c) \<in> set (ts_conns s) \<Longrightarrow>
      R (ts_accepted s k) (ts_world s k c) (tp_last_flush_tm (ts_proxy s))"
    using assms(1) by (auto simp: ts_obs_def)
  have keys: "map fst (tp_connections t') = map fst (ts_conns s)" using stop by (simp add: conns_stop_def)
  then have fst_set: "fst ` set (tp_connections t') = fst ` set (ts_conns s)" by (metis list.set_map)
  have conn: "\<exists>c. (k, c) \<in> set (ts_conns s) \<and> (c' = c \<and> d' k = ts_pend s k \<or>
      (\<exists>io. tc_stop c = Inr (io, c') \<and> d' k = fold pend_issue io (ts_pend s k)))"
    if "(k, c') \<in> set (tp_connections t')" for k c'
    using stop that by (fastforce simp: conns_stop_def)
  have "k \<notin> fst ` set (ts_conns s)" if "tp_next (ts_proxy s) \<le> k" for k
    using ok that by (fastforce simp: ts_ok_def)
  then have pend: "d' k = pend0" if "tp_next (ts_proxy s) \<le> k" for k
    using stop ok that by (simp add: conns_stop_def ts_ok_def)
  have "ts_held (ts_x s) (tp_connections t')"
  proof (rule ts_heldI)
    fix k c' a
    assume mem: "(k, c') \<in> set (tp_connections t')" and a: "tc_client_ip c' = Some a"
    obtain c where c: "(k, c) \<in> set (ts_conns s)" and "c' = c \<or> (\<exists>io. tc_stop c = Inr (io, c'))"
      using conn [OF mem] by blast
    then have "tc_client_ip c = Some a" using tc_stop_cases(3) a by fastforce
    then show "ip_lookup (ts_x s) a \<noteq> None" using ts_heldD [OF _ c] ok unfolding ts_ok_def by blast
  qed
  then have "ts_ok (s\<lparr>ts_proxy := t', ts_pend := d', ts_accepted := acc\<rparr>)"
    using ok pend by (simp add: ts_ok_def keys fst_set t')
  moreover have "R (acc k) (pend_world (tp_rule t') (tp_now t') (ts_x s) c' (d' k)) (tp_last_flush_tm t')"
    if mem: "(k, c') \<in> set (tp_connections t')" for k c'
  proof -
    obtain c where c: "(k, c) \<in> set (ts_conns s)" and how: "c' = c \<and> d' k = ts_pend s k \<or>
      (\<exists>io. tc_stop c = Inr (io, c') \<and> d' k = fold pend_issue io (ts_pend s k))" using conn [OF mem] by blast
    have "acc k = ts_accepted s k" using c ok acc by (fastforce simp: ts_ok_def)
    then show ?thesis using how obs [OF c] R_closed unfolding ts_world_def t' by auto
  qed
  ultimately show ?thesis by (intro ts_obsI) (simp_all add: ts_world_def)
qed

lemma obs_accept_new:
  assumes "ts_obs R s" and "tc_new (tp_now (ts_proxy s)) (Some a) (ts_x s) = Inr (c, x)"
  defines "k \<equiv> tp_next (ts_proxy s)"
  shows "ts_obs R (s\<lparr>ts_proxy := (ts_proxy s)\<lparr>tp_connections := ts_conns s @ [(k, snd (tc_start c))], tp_next := Suc k,
        tp_accept_socket := ac\<rparr>, ts_x := x, ts_pend := (ts_pend s)(k := pend_issue Tcp_connect (ts_pend s k)),
      ts_accepted := (ts_accepted s)(k := tp_last_flush_tm (ts_proxy s))\<rparr>)" (is "ts_obs R ?s")
proof -
  have ok: "ts_ok s" and obs: "\<And>j d. (j, d) \<in> set (ts_conns s) \<Longrightarrow>
      R (ts_accepted s j) (ts_world s j d) (tp_last_flush_tm (ts_proxy s))"
    using assms(1) by (auto simp: ts_obs_def)
  have okx: "ipx_ok (ts_x s)" and p0: "ts_pend s k = pend0" using ok by (simp_all add: ts_ok_def k_def)
  have x: "x = snd (getIPProxy a (ts_x s))" and cl: "tc_client_ip c = fst (getIPProxy a (ts_x s))"
    using assms(2) by (auto simp: tc_new_def split: prod.splits)
  have grows: "ip_grows (ts_x s) x"
    using getIPProxy_ok [OF okx, of a] by (auto simp: x ip_grows_def getIPProxy_def Let_def smap_find_put)
  have own: "tc_client_ip c = Some b \<Longrightarrow> ip_lookup x b \<noteq> None" for b
    by (auto simp: cl x getIPProxy_def Let_def smap_find_put split: if_splits)
  have lt: "j < k" if "(j, d) \<in> set (ts_conns s)" for j d using ok that by (fastforce simp: ts_ok_def k_def)
  have new: "k \<notin> fst ` set (ts_conns s)" using lt by fastforce
  have start: "tc_client_ip (snd (tc_start c)) = tc_client_ip c" by (simp add: tc_start_def)
  have "ts_held x (ts_conns s)" using ip_grows_held [OF grows] ok by (simp add: ts_ok_def)
  then have "ts_ok ?s"
    using ok new lt grows own
    by (auto simp: ts_ok_def ts_held_def start ip_grows_def k_def [symmetric] less_Suc_eq)
  moreover have "R (ts_accepted ?s j) (ts_world ?s j d) (tp_last_flush_tm (ts_proxy ?s))"
    if j: "(j, d) \<in> set (ts_conns ?s)" for j d
  proof (cases "(j, d) \<in> set (ts_conns s)")
    case True
    then show ?thesis using obs [OF True] R_grow grows lt [OF True] by (simp add: ts_world_def)
  next
    case False
    then have jd: "j = k" "d = snd (tc_start c)" using j by auto
    have "tcp_init (tcp_accept_world (tp_rule (ts_proxy s)) (tp_now (ts_proxy s)) x c)"
      unfolding tcp_init_def using okx assms(2) by blast
    moreover have "tcp_accept_world (tp_rule (ts_proxy s)) (tp_now (ts_proxy s)) x c = ts_world ?s j d"
      by (simp add: jd ts_world_def p0 [unfolded k_def] k_def tcp_accept_world_def tc_start_def tcp_put_def pend_world_def pend0_def)
    moreover have "ts_accepted ?s j = tp_last_flush_tm (ts_proxy s)" "tp_last_flush_tm (ts_proxy ?s) = tp_last_flush_tm (ts_proxy s)"
      by (simp_all add: jd)
    ultimately show ?thesis using R_init by metis
  qed
  ultimately show ?thesis by (rule ts_obsI)
qed

lemma obs_complete:
  assumes "ts_obs R s" and kc: "(k, c) \<in> set (ts_conns s)" and ev: "tcp_event (ts_world s k c) w"
  shows "ts_obs R (s\<lparr>ts_proxy := (ts_proxy s)\<lparr>tp_connections := conn_put k (tw_c w) (ts_conns s)\<rparr>,
       ts_x := tw_x w, ts_pend := (ts_pend s)(k := pend_of w)\<rparr>)" (is "ts_obs R ?s")
proof -
  have ok: "ts_ok s" and obs: "\<And>j d. (j, d) \<in> set (ts_conns s) \<Longrightarrow>
      R (ts_accepted s j) (ts_world s j d) (tp_last_flush_tm (ts_proxy s))"
    using assms(1) by (auto simp: ts_obs_def)
  have okx: "ipx_ok (tw_x (ts_world s k c))" using ok by (simp add: ts_ok_def ts_world_def)
  note frame = tcp_event_frame [OF ev okx]
  have w: "w = pend_world (tp_rule (ts_proxy s)) (tp_now (ts_proxy s)) (tw_x w) (tw_c w) (pend_of w)"
    using pend_world_of [OF frame(3)] frame(1,2) by (simp add: ts_world_def)
  have grows: "ip_grows (ts_x s) (tw_x w)" and cl: "tc_client_ip (tw_c w) = tc_client_ip c"
    using frame(4,5) by (simp_all add: ts_world_def)
  have keys: "map fst (ts_conns ?s) = map fst (ts_conns s)" by (simp add: conn_put_def case_prod_unfold comp_def)
  then have fst_set: "fst ` set (ts_conns ?s) = fst ` set (ts_conns s)" by (metis list.set_map)
  have only: "d = c" if "(k, d) \<in> set (ts_conns s)" for d
    using that kc ok eq_key_imp_eq_value by (fastforce simp: ts_ok_def)
  have mem: "j = k \<and> d = tw_c w \<or> j \<noteq> k \<and> (j, d) \<in> set (ts_conns s)" if "(j, d) \<in> set (ts_conns ?s)" for j d
    using that by (auto simp: conn_put_def split: if_splits)
  have "ts_held (tw_x w) (ts_conns ?s)"
  proof (rule ts_heldI)
    fix j d a
    assume jd: "(j, d) \<in> set (ts_conns ?s)" and a: "tc_client_ip d = Some a"
    have held: "ts_held (tw_x w) (ts_conns s)" using ip_grows_held [OF grows] ok by (simp add: ts_ok_def)
    from mem [OF jd] show "ip_lookup (tw_x w) a \<noteq> None"
    proof
      assume "j = k \<and> d = tw_c w"
      then show ?thesis using ts_heldD [OF held kc] a cl by metis
    next
      assume "j \<noteq> k \<and> (j, d) \<in> set (ts_conns s)"
      then show ?thesis using ts_heldD [OF held _ a] by blast
    qed
  qed
  moreover have "k < tp_next (ts_proxy s)" using kc ok by (fastforce simp: ts_ok_def)
  ultimately have "ts_ok ?s"
    using ok grows fst_set keys by (simp add: ts_ok_def ip_grows_def)
  moreover have "R (ts_accepted ?s j) (ts_world ?s j d) (tp_last_flush_tm (ts_proxy ?s))"
    if jd: "(j, d) \<in> set (ts_conns ?s)" for j d
  proof (cases "j = k")
    case True
    then have "ts_world ?s j d = w" using mem [OF jd] w by (simp add: ts_world_def)
    then show ?thesis using R_io [OF obs [OF kc] tcp_io_step.event [OF ev]] True by simp
  next
    case False
    then have "(j, d) \<in> set (ts_conns s)" using mem [OF jd] by simp
    then show ?thesis using R_grow [OF obs [unfolded ts_world_def] grows] False by (simp add: ts_world_def)
  qed
  ultimately show ?thesis by (rule ts_obsI)
qed

lemma obs_flush:
  assumes "ts_obs R s" and "tp_last_flush_tm (ts_proxy s) < now" and "now - tp_last_flush_tm (ts_proxy s) \<le> gap"
    and f: "tp_flush_all (tp_rule (ts_proxy s)) now (tp_flush_bytes (tp_rule (ts_proxy s)) now (tp_last_flush_tm (ts_proxy s)))
        expire (ts_x s) (ts_conns s) = Inr (io, y, cs)"
  shows "ts_obs R (s\<lparr>ts_proxy := (ts_proxy s)\<lparr>tp_now := now, tp_last_flush_tm := now, tp_connections := cs\<rparr>,
       ts_x := y, ts_pend := fold ts_issue io (ts_pend s)\<rparr>)" (is "ts_obs R ?s")
proof -
  let ?r = "tp_rule (ts_proxy s)" and ?t = "tp_last_flush_tm (ts_proxy s)"
  have ok: "ts_ok s" and obs: "\<And>j d. (j, d) \<in> set (ts_conns s) \<Longrightarrow> R (ts_accepted s j) (ts_world s j d) ?t"
    using assms(1) by (auto simp: ts_obs_def)
  have okx: "ipx_ok (ts_x s)" and dist: "distinct (map fst (ts_conns s))" using ok by (simp_all add: ts_ok_def)
  note sim = tp_flush_all_sim [OF f okx dist, of "ts_pend s"]
  have grows: "ip_grows (ts_x s) y" and keys: "fst ` set cs \<subseteq> fst ` set (ts_conns s)" "distinct (map fst cs)"
    and out: "\<And>j. j \<notin> fst ` set (ts_conns s) \<Longrightarrow> fold ts_issue io (ts_pend s) j = ts_pend s j"
    and conns: "\<And>k c'. (k, c') \<in> set cs \<Longrightarrow> \<exists>c iok x1 x2. (k, c) \<in> set (ts_conns s) \<and> ip_grows (ts_x s) x1 \<and>
       tc_flushMsgs ?r now (tp_flush_bytes ?r now ?t) expire x1 c = Inr (True, iok, x2, c') \<and> ip_grows x2 y \<and>
       fold ts_issue io (ts_pend s) k = fold pend_issue iok (ts_pend s k)"
    using sim by (blast, blast, blast, blast, fastforce)
  have "ts_held y cs"
  proof (rule ts_heldI)
    fix k c' a
    assume mem: "(k, c') \<in> set cs" and a: "tc_client_ip c' = Some a"
    obtain c iok x1 x2 where c: "(k, c) \<in> set (ts_conns s)" "ip_grows (ts_x s) x1"
      "tc_flushMsgs ?r now (tp_flush_bytes ?r now ?t) expire x1 c = Inr (True, iok, x2, c')"
      using conns [OF mem] by blast
    have "ipx_ok x1" using c(2) by (simp add: ip_grows_def)
    then have "tc_client_ip c = Some a" using tc_flushMsgs_grows(2) [OF _ c(3)] a by simp
    moreover have "ts_held y (ts_conns s)" using ip_grows_held [OF grows] ok by (simp add: ts_ok_def)
    ultimately show "ip_lookup y a \<noteq> None" using ts_heldD [OF _ c(1)] by blast
  qed
  moreover have "\<forall>k \<in> fst ` set cs. k < tp_next (ts_proxy s)"
    using keys(1) ok unfolding ts_ok_def by blast
  moreover have "fold ts_issue io (ts_pend s) k = pend0" if "tp_next (ts_proxy s) \<le> k" for k
  proof -
    have "k \<notin> fst ` set (ts_conns s)" "ts_pend s k = pend0" using ok that by (fastforce simp: ts_ok_def)+
    then show ?thesis using out by simp
  qed
  ultimately have "ts_ok ?s"
    using keys(2) grows by (simp add: ts_ok_def ip_grows_def)
  moreover have "R (ts_accepted ?s k) (ts_world ?s k c') (tp_last_flush_tm (ts_proxy ?s))"
    if "(k, c') \<in> set (ts_conns ?s)" for k c'
  proof -
    have mem: "(k, c') \<in> set cs" using that by simp
    obtain c iok x1 x2 where c: "(k, c) \<in> set (ts_conns s)" "ip_grows (ts_x s) x1"
      "tc_flushMsgs ?r now (tp_flush_bytes ?r now ?t) expire x1 c = Inr (True, iok, x2, c')" "ip_grows x2 y"
      "fold ts_issue io (ts_pend s) k = fold pend_issue iok (ts_pend s k)"
      using conns [OF mem] by blast
    have "R (ts_accepted s k) (pend_world ?r (tp_now (ts_proxy s)) x1 c (ts_pend s k)) ?t"
      using R_grow [OF obs [OF c(1), unfolded ts_world_def] c(2)] .
    from R_tick [OF this assms(2,3) c(3)]
    have "R (ts_accepted s k) (pend_world ?r now x2 c' (fold pend_issue iok (ts_pend s k))) now" .
    from R_grow [OF this c(4)] show ?thesis by (simp add: ts_world_def c(5))
  qed
  ultimately show ?thesis by (rule ts_obsI)
qed

lemma obs_asyncWait:
  assumes "ts_obs R s" and "tp_asyncWait ec (ts_proxy s) = Inr (io, t')"
  shows "ts_obs R (s\<lparr>ts_proxy := t', ts_pend := fold ts_issue io (ts_pend s)\<rparr>)"
proof -
  have "distinct (map fst (ts_conns s))" using assms(1) by (simp add: ts_obs_def ts_ok_def)
  note sim = tp_asyncWait_sim [OF assms(2) this, of "ts_pend s"]
  show ?thesis using obs_conns_stop [OF assms(1), of _ t' "ts_accepted s"] sim by simp
qed

lemma obs_clock:
  assumes "ts_obs R s"
  shows "ts_obs R (s\<lparr>ts_proxy := (ts_proxy s)\<lparr>tp_now := now\<rparr>\<rparr>)"
proof (rule ts_obsI)
  show "ts_ok (s\<lparr>ts_proxy := (ts_proxy s)\<lparr>tp_now := now\<rparr>\<rparr>)" using assms by (simp add: ts_obs_def ts_ok_def)
qed (use assms R_clock in \<open>auto simp: ts_obs_def ts_world_def\<close>)

lemma obs_tick:
  assumes "ts_obs R s" and gap: "clock - tp_last_flush_tm (ts_proxy s) \<le> gap"
    and h: "tp_handleWait tcp_timeout error expires_ec clock (ts_x s) (ts_proxy s) = Inr (io, x, t)"
  shows "ts_obs R (ts_put io x t s)"
proof -
  let ?t = "ts_proxy s"
  have dist: "distinct (map fst (ts_conns s))" using assms(1) by (simp add: ts_obs_def ts_ok_def)
  consider (error) "error \<noteq> Success" | (close) "error = Success" "tp_close_flag ?t"
    | (run) "error = Success" "\<not> tp_close_flag ?t" by blast
  then show ?thesis
  proof cases
    case error
    then have "ts_put io x t s = s" using h by (auto simp: tp_handleWait_def ts_put_def)
    then show ?thesis using assms(1) by simp
  next
    case close
    then obtain io' cs where c: "tp_stop_all (ts_conns s) = Inr (io', cs)" "x = ts_x s"
      "io = Tp_acceptor_close # Tp_timer_cancel # io'" "t = ?t\<lparr>tp_acceptor := None, tp_connections := cs\<rparr>"
      using h by (auto simp: tp_handleWait_def tp_close_def result_simps)
    have "ts_obs R (s\<lparr>ts_proxy := t, ts_pend := fold ts_issue io' (ts_pend s), ts_accepted := ts_accepted s\<rparr>)"
      by (rule obs_conns_stop [OF assms(1)]) (use tp_stop_all_sim [OF c(1) dist, of "ts_pend s"] in \<open>simp_all add: c\<close>)
    then show ?thesis by (rule ts_obs_cong) (simp_all add: c ts_put_def)
  next
    case run
    obtain io1 t1 where w: "tp_asyncWait expires_ec ?t = Inr (io1, t1)"
      using h run by (auto simp: tp_handleWait_def result_simps)
    have same: "tp_rule t1 = tp_rule ?t" "tp_last_flush_tm t1 = tp_last_flush_tm ?t"
      using tp_asyncWait_sim [OF w dist] by simp_all
    let ?s1 = "s\<lparr>ts_proxy := t1, ts_pend := fold ts_issue io1 (ts_pend s)\<rparr>"
    have o1: "ts_obs R ?s1" using obs_asyncWait [OF assms(1) w] .
    show ?thesis
    proof (cases "clock \<le> tp_last_flush_tm t1")
      case True
      then have "io = io1" "x = ts_x s" "t = t1\<lparr>tp_now := clock\<rparr>"
        using h run w by (simp_all add: tp_handleWait_def Let_def)
      then show ?thesis by (intro ts_obs_cong [OF obs_clock [OF o1, of clock]]) (simp_all add: ts_put_def)
    next
      case False
      obtain io2 cs where f: "tp_flush_all (tp_rule t1) clock (tp_flush_bytes (tp_rule t1) clock (tp_last_flush_tm t1))
          (clock - tcp_timeout) (ts_x s) (tp_connections t1) = Inr (io2, x, cs)"
        and r: "io = io1 @ io2" "t = t1\<lparr>tp_now := clock, tp_last_flush_tm := clock, tp_connections := cs\<rparr>"
        using h run w False by (auto simp: tp_handleWait_def Let_def result_simps)
      have "ts_obs R (?s1\<lparr>ts_proxy := (ts_proxy ?s1)\<lparr>tp_now := clock, tp_last_flush_tm := clock, tp_connections := cs\<rparr>,
          ts_x := x, ts_pend := fold ts_issue io2 (ts_pend ?s1)\<rparr>)"
        by (rule obs_flush [OF o1]) (use f False gap in \<open>simp_all add: same\<close>)
      then show ?thesis by (rule ts_obs_cong) (simp_all add: r ts_put_def)
    qed
  qed
qed

lemma obs_accept:
  assumes "ts_obs R s" and h: "tp_handleAccept ar error remote (ts_x s) (ts_proxy s) = Inr (io, x, t)"
  shows "ts_obs R (ts_put io x t (s\<lparr>ts_accepted :=
       (ts_accepted s)(tp_next (ts_proxy s) := tp_last_flush_tm (ts_proxy s))\<rparr>))"
proof (cases "error = Success")
  case True
  obtain a where a: "remote = Some a" using h True by (cases remote) (simp_all add: tp_handleAccept_def tc_new_def)
  obtain c where c: "tc_new (tp_now (ts_proxy s)) (Some a) (ts_x s) = Inr (c, x)"
    using h True by (auto simp: a tp_handleAccept_def result_simps tc_start_def tp_startAccept_def Let_def)
  have "t = (ts_proxy s)\<lparr>tp_connections := ts_conns s @ [(tp_next (ts_proxy s), snd (tc_start c))],
      tp_next := Suc (tp_next (ts_proxy s)), tp_accept_socket := Some Sock_open\<rparr>"
    "io = [Tp_conn (tp_next (ts_proxy s)) Tcp_connect, Tp_accept]"
    using h True c by (simp_all add: a tp_handleAccept_def tc_start_def tp_startAccept_def Let_def)
  then show ?thesis
    by (intro ts_obs_cong [OF obs_accept_new [OF assms(1) c, of "Some Sock_open"]]) (simp_all add: ts_put_def)
next
  case False
  let ?acc = "(ts_accepted s)(tp_next (ts_proxy s) := tp_last_flush_tm (ts_proxy s))"
  let ?t = "(ts_proxy s)\<lparr>tp_acceptor := None\<rparr>"
  have dist: "distinct (map fst (tp_connections ?t))" using assms(1) by (simp add: ts_obs_def ts_ok_def)
  show ?thesis
  proof (cases "error = Operation_aborted")
    case True
    then have "io = []" "x = ts_x s" "t = ts_proxy s" using h by (simp_all add: tp_handleAccept_def)
    then show ?thesis
      by (intro ts_obs_cong [OF obs_conns_stop [OF assms(1) conns_stop_refl, of ?acc]]) (simp_all add: ts_put_def)
  next
    case aborted: False
    obtain started io' t' where st: "tp_start ar ?t = Inr (started, io', t')" "x = ts_x s"
      "io = Tp_acceptor_close # io'" "t = (if \<not> started then tp_stop t' else t')"
      using h False aborted by (auto simp: tp_handleAccept_def result_simps Let_def)
    have "ts_obs R (s\<lparr>ts_proxy := t, ts_pend := fold ts_issue io' (ts_pend s), ts_accepted := ?acc\<rparr>)"
      by (rule obs_conns_stop [OF assms(1)])
        (use tp_start_sim [OF st(1) dist, of "ts_pend s"] in \<open>simp_all add: st(4) tp_stop_def\<close>)
    then show ?thesis by (rule ts_obs_cong) (simp_all add: st(2,3) ts_put_def)
  qed
qed

lemma obs_own:
  assumes o: "ts_obs R s" and st: "ts_own gap s s'"
  shows "ts_obs R s'"
  using st
proof cases
  case accept then show ?thesis using obs_accept [OF o accept(2)] by simp
next
  case complete then show ?thesis using obs_complete [OF o complete(2,3)] by simp
next
  case tick then show ?thesis using obs_tick [OF o tick(2,3)] by simp
next
  case stop
  have "ts_obs R (s\<lparr>ts_proxy := tp_stop (ts_proxy s), ts_pend := ts_pend s, ts_accepted := ts_accepted s\<rparr>)"
    by (rule obs_conns_stop [OF o]) (simp_all add: tp_stop_def conns_stop_refl)
  then show ?thesis by (rule ts_obs_cong) (simp_all add: stop)
qed

lemma obs_step:
  assumes o: "ts_obs R s" and st: "ts_step gap s s'"
  shows "ts_obs R s'"
  using st
proof cases
  case own then show ?thesis using obs_own [OF o] by simp
next
  case (others x)
  have "ts_ok s'" using o others by (simp add: ts_obs_def ts_ok_def)
  moreover have "R (ts_accepted s' k) (ts_world s' k c) (tp_last_flush_tm (ts_proxy s'))"
    if kc: "(k, c) \<in> set (ts_conns s')" for k c
  proof -
    have kc: "(k, c) \<in> set (ts_conns s)" using kc others(1) by simp
    have "tcp_io_step (ts_world s k c) ((ts_world s k c)\<lparr>tw_x := x\<rparr>)"
      by (rule tcp_io_step.others) (use others ts_heldD [OF others(4) kc] in \<open>simp_all add: ts_world_def\<close>)
    from R_io [OF _ this] show ?thesis using o kc others(1) by (auto simp: ts_obs_def ts_world_def)
  qed
  ultimately show ?thesis by (rule ts_obsI)
qed

lemma obs_init: "ts_init s \<Longrightarrow> ts_obs R s"
proof -
  assume "ts_init s"
  then obtain ar rule clock io t x where t: "tp_start ar (tp_new rule clock) = Inr (True, io, t)" "ipx_ok x"
    and s: "s = \<lparr>ts_proxy = t, ts_x = x, ts_pend = (\<lambda>_. pend0), ts_accepted = (\<lambda>_. 0)\<rparr>"
    unfolding ts_init_def tp_listed_def ts_fresh_def by blast
  have "map fst (tp_connections t) = map fst (tp_connections (tp_new rule clock))"
    using tp_start_sim [OF t(1), of "\<lambda>_. pend0"] by (simp add: conns_stop_def tp_new_def)
  then have "tp_connections t = []" by (simp add: tp_new_def)
  then show "ts_obs R s" using t(2) by (simp add: s ts_obs_def ts_ok_def ts_held_def)
qed

end

sublocale tcp_observer \<subseteq> obs: step_invariant ts_init "ts_step gap" "ts_obs R"
  by unfold_locales (fact obs_init, fact obs_step)

section \<open>What every connection of the proxy keeps\<close>

interpretation sysr: tcp_observer "\<lambda>t0 w t. tcp_reach w" gap for gap :: int
proof
  show "tcp_init w \<Longrightarrow> tcp_reach w" for w :: "'a tcp_world" by (rule reach_init)
  show "tcp_reach w'" if "tcp_reach w" "tcp_io_step w w'" for w w' :: "'a tcp_world"
    using that(1) tcp_step.io [OF that(2)] by (rule reach_step)
  show "tcp_reach (tcp_put io x c (w\<lparr>tw_now := now, tw_alive := True\<rparr>))"
    if "tcp_reach w" "tw_alive w"
      "tc_flushMsgs (tw_rule w) now (tp_flush_bytes (tw_rule w) now t) expire (tw_x w) (tw_c w) = Inr (True, io, x, c)"
    for w :: "'a tcp_world" and now t expire io x c
    using that(1) tcp_step.flush [OF that(2,3)] by (rule reach_step)
qed

text \<open>What a tick adds fits the \<open>int\<close> it is cast to when it would after the longest gap.\<close>

lemma flush_bytes_gap:
  assumes "gap * bw div 1000 < 2147483648" and "t < now" and "now - t \<le> gap"
  shows "(now - t) * bw div 1000 < (2147483648 :: int)"
proof (cases "0 \<le> bw")
  case True
  then have "(now - t) * bw div 1000 \<le> gap * bw div 1000"
    using assms(3) by (intro zdiv_mono1 mult_right_mono) simp_all
  then show ?thesis using assms(1) by simp
next
  case False
  then have "(now - t) * bw \<le> 0" using assms(2) by (simp add: mult_nonneg_nonpos)
  then have "(now - t) * bw div 1000 \<le> 0" by simp
  then show ?thesis by simp
qed

interpretation syst: tcp_observer
  "\<lambda>t0 w t. gap * tr_max_bandwidth (tw_rule w) div 1000 < 2147483648 \<longrightarrow> tcp_timed t0 w t" gap for gap :: int
proof
  show "tcp_init w \<Longrightarrow> gap * tr_max_bandwidth (tw_rule w) div 1000 < 2147483648 \<longrightarrow> tcp_timed t w t"
    for w :: "'a tcp_world" and t by (simp add: tcp_timed.accepted)
  show "gap * tr_max_bandwidth (tw_rule w') div 1000 < 2147483648 \<longrightarrow> tcp_timed t0 w' t"
    if "gap * tr_max_bandwidth (tw_rule w) div 1000 < 2147483648 \<longrightarrow> tcp_timed t0 w t" "tcp_io_step w w'"
    for w w' :: "'a tcp_world" and t0 t
    using that tcp_io_step_rule [OF that(2)] tcp_timed.event by metis
  show "gap * tr_max_bandwidth (tw_rule (tcp_put io x c (w\<lparr>tw_now := now, tw_alive := True\<rparr>))) div 1000 < 2147483648 \<longrightarrow>
      tcp_timed t0 (tcp_put io x c (w\<lparr>tw_now := now, tw_alive := True\<rparr>)) now"
    if "gap * tr_max_bandwidth (tw_rule w) div 1000 < 2147483648 \<longrightarrow> tcp_timed t0 w t" "tw_alive w" "t < now"
      "now - t \<le> gap"
      "tc_flushMsgs (tw_rule w) now (tp_flush_bytes (tw_rule w) now t) expire (tw_x w) (tw_c w) = Inr (True, io, x, c)"
    for w :: "'a tcp_world" and now t t0 expire io x c
    using that tcp_timed.tick [OF _ that(2,3) flush_bytes_gap [OF _ that(3,4)] that(5)] by simp
qed

end
