(* ===== verification/Tcp_System_Props.thy ===== *)
theory Tcp_System_Props
  imports Tcp_Observer
begin

text \<open>
  A running \<open>TcpProxy\<close>: whatever clients and servers do, its handlers do not fail and every
  connection relays its bytes in order, in bounded memory and within the bandwidth.
\<close>

abbreviation ts_reach :: "int \<Rightarrow> 'a::linorder tcp_sys \<Rightarrow> bool" where
  "ts_reach gap \<equiv> reachable ts_init (ts_step gap)"

section \<open>No handler of the proxy fails\<close>

lemma tp_flush_all_total:
  "\<forall>(k, c) \<in> set cs. conn_ok x c \<Longrightarrow> \<exists>r. tp_flush_all rule now n expire x cs = Inr r"
proof (induction cs arbitrary: x)
  case (Cons kc cs)
  obtain k c where kc: "kc = (k, c)" by force
  have ok: "conn_ok x c" using Cons.prems by (simp add: kc)
  then have "tc_ready x c" by (simp add: conn_ok_def)
  from tc_flushMsgs_outcome [OF this, of rule now n expire] obtain stay io y c'
    where f: "tc_flushMsgs rule now n expire x c = Inr (stay, io, y, c')" "ip_same x y"
      "tc_client_ip c' = tc_client_ip c" "tc_ready y c'" by blast
  have "conn_ok y c'" using ok ip_same_None [OF f(2)] f(3,4) by (simp add: conn_ok_def)
  then obtain z where z: "tc_delete c' y = Inr z" "\<forall>d. conn_ok y d \<longrightarrow> conn_ok z d"
    using tc_delete_total by blast
  define u where "u = (if stay then y else z)"
  have "\<forall>(k, c) \<in> set cs. conn_ok u c"
    using Cons.prems conn_ok_same [OF f(2)] z(2) by (auto simp: u_def)
  then obtain r where "tp_flush_all rule now n expire u cs = Inr r" using Cons.IH by blast
  then show ?case using f(1) z(1) by (cases stay; cases r) (simp_all add: kc u_def)
qed simp

lemma ts_reach_conn_ok:
  assumes "ts_reach gap s" and kc: "(k, c) \<in> set (ts_conns s)"
  shows "conn_ok (ts_x s) c"
proof -
  have o: "ts_obs (\<lambda>t0 w t. tcp_reach w) s" using assms(1) by (rule sysr.obs.reachable_inv)
  then have "tcp_reach (ts_world s k c)" "ts_held (ts_x s) (ts_conns s)"
    using kc by (auto simp: ts_obs_def ts_ok_def)
  then show ?thesis
    using tcp_reach_ready [of "ts_world s k c"] ts_heldD [OF _ kc] by (auto simp: conn_ok_def ts_world_def)
qed

lemma tp_stop_all_total:
  "\<forall>(k, c) \<in> set cs. conn_ok x c \<Longrightarrow> \<exists>r. tp_stop_all cs = Inr r"
  using tp_stop_all_outcome [of cs] by (fastforce simp: conn_ok_def tc_ready_def)

lemma conn_ok_stop: "tc_stop c = Inr (io, c') \<Longrightarrow> conn_ok x c \<Longrightarrow> conn_ok x c'"
  using tc_stop_cases [of c io c'] by (simp add: conn_ok_def tc_ready_def tcp_ip_ok_def)

lemma tp_asyncWait_total:
  assumes ok: "\<forall>(k, c) \<in> set (tp_connections t). conn_ok x c" and dist: "distinct (map fst (tp_connections t))"
  shows "\<exists>io t'. tp_asyncWait ec t = Inr (io, t') \<and> (\<forall>(k, c) \<in> set (tp_connections t'). conn_ok x c)"
proof -
  obtain io0 cs where "tp_stop_all (tp_connections t) = Inr (io0, cs)" using tp_stop_all_total [OF ok] by auto
  then obtain io t' where w: "tp_asyncWait ec t = Inr (io, t')"
    by (cases "ec = Success") (simp_all add: tp_asyncWait_def tp_close_def)
  have "conn_ok x c'" if "(k, c') \<in> set (tp_connections t')" for k c'
    using tp_asyncWait_sim [OF w dist, of "\<lambda>_. pend0"] that ok conn_ok_stop by (fastforce simp: conns_stop_def)
  then show ?thesis using w by blast
qed

lemma tp_handleWait_total:
  assumes ok: "\<forall>(k, c) \<in> set (tp_connections t). conn_ok x c" and dist: "distinct (map fst (tp_connections t))"
  shows "\<exists>r. tp_handleWait tcp_timeout error expires_ec clock x t = Inr r"
proof -
  obtain io t1 where w: "tp_asyncWait expires_ec t = Inr (io, t1)" "\<forall>(k, c) \<in> set (tp_connections t1). conn_ok x c"
    using tp_asyncWait_total [OF ok dist] by blast
  have "\<exists>r. tp_flush_all (tp_rule t1) clock n expire x (tp_connections t1) = Inr r" for n expire
    using tp_flush_all_total [OF w(2)] by blast
  then obtain io' y cs where "tp_flush_all (tp_rule t1) clock (tp_flush_bytes (tp_rule t1) clock (tp_last_flush_tm t1))
      (clock - tcp_timeout) x (tp_connections t1) = Inr (io', y, cs)"
    by (metis prod_cases3)
  moreover obtain io2 cs2 where "tp_stop_all (tp_connections t) = Inr (io2, cs2)"
    using tp_stop_all_total [OF ok] by auto
  ultimately show ?thesis using w(1) by (simp add: tp_handleWait_def tp_close_def Let_def)
qed

lemma tp_handleAccept_total:
  assumes ok: "\<forall>(k, c) \<in> set (tp_connections t). conn_ok x c" and dist: "distinct (map fst (tp_connections t))"
  shows "\<exists>r. tp_handleAccept ar error (Some a) x t = Inr r"
proof (cases "error = Success")
  case True
  then show ?thesis
    by (cases "getIPProxy a x") (simp add: tp_handleAccept_def tc_new_def tc_start_def tp_startAccept_def Let_def)
next
  case False
  let ?t = "t\<lparr>tp_acceptor := Some (tr_src_port (tp_rule t)), tp_accept_socket := Some Sock_open\<rparr>"
  obtain io t' where "tp_asyncWait (ar_expires ar) ?t = Inr (io, t')"
    using tp_asyncWait_total [of ?t x "ar_expires ar"] ok dist by auto
  then show ?thesis using False by (auto simp: tp_handleAccept_def tp_start_def tp_startAccept_def Let_def)
qed

text \<open>
  The handlers of a running proxy do not fail (\<open>TcpProxy::handleWait\<close>,
  \<open>TcpProxy::handleAccept\<close>): in every state that accepts, completions, ticks, a stop and
  the other users of the table can reach, the handler of the timer and that of an accept
  whose peer is still there return, whatever results Boost.Asio reports, and no two
  connections share a number, so an event reaches the connection it belongs to.
\<close>

lemma tp_system_total:
  assumes "ts_reach gap s"
  shows "(\<exists>r. tp_handleWait tcp_timeout error expires_ec clock (ts_x s) (ts_proxy s) = Inr r) \<and>
    (\<exists>r. tp_handleAccept ar error (Some a) (ts_x s) (ts_proxy s) = Inr r) \<and>
    distinct (map fst (tp_connections (ts_proxy s)))"
proof -
  have dist: "distinct (map fst (ts_conns s))"
    using sysr.obs.reachable_inv [OF assms] by (simp add: ts_obs_def ts_ok_def)
  have ok: "\<forall>(k, c) \<in> set (ts_conns s). conn_ok (ts_x s) c" using ts_reach_conn_ok [OF assms] by blast
  show ?thesis using tp_handleWait_total [OF ok dist] tp_handleAccept_total [OF ok dist] dist by blast
qed

section \<open>A proxy to evaluate on\<close>

definition demo_ar :: asio_results where
  "demo_ar = \<lparr>ar_open = Success, ar_set_option = Success, ar_bind = Success, ar_listen = Success, ar_expires = Success\<rparr>"

definition demo_listening :: "nat tcp_proxy" where
  "demo_listening = (tp_new demo_rule 0)\<lparr>tp_acceptor := Some 80, tp_accept_socket := Some Sock_open\<rparr>"

definition demo_sys0 :: "nat tcp_sys" where
  "demo_sys0 = ts_fresh demo_listening new_ip_proxies"

text \<open>Connection 0 of the proxy is in the state \<open>w\<close>.\<close>

definition demo_sys :: "nat tcp_world \<Rightarrow> nat tcp_sys" where
  "demo_sys w = \<lparr>ts_proxy = demo_listening\<lparr>tp_connections := [(0, tw_c w)], tp_next := 1\<rparr>, ts_x = tw_x w,
     ts_pend = (\<lambda>_. pend0)(0 := pend_of w), ts_accepted = (\<lambda>_. 0)\<rparr>"

lemma demo_sys_init: "ts_init demo_sys0"
proof -
  have "tp_start demo_ar (tp_new demo_rule 0) = Inr (True, [Tp_accept, Tp_wait 10], demo_listening)"
    by (simp add: tp_start_def tp_startAccept_def tp_asyncWait_def demo_ar_def demo_listening_def tp_new_def demo_rule_def)
  then show ?thesis unfolding ts_init_def tp_listed_def demo_sys0_def using new_ip_proxies_ok by blast
qed

lemma demo_sys_accept: "ts_step 10 demo_sys0 (demo_sys demo0)"
proof -
  have h: "tp_handleAccept demo_ar Success (Some 7) (ts_x demo_sys0) (ts_proxy demo_sys0) =
      Inr ([Tp_conn 0 Tcp_connect, Tp_accept], new_ip_proxies, demo_listening\<lparr>tp_connections := [(0, tw_c demo0)], tp_next := 1\<rparr>)"
    by (simp add: tp_handleAccept_def demo_sys0_def ts_fresh_def tc_new_def getIPProxy_def new_ip_proxies_def tc_start_def tp_startAccept_def
        demo_listening_def tp_new_def demo0_eq demo_conn_def Let_def)
  have "demo_sys demo0 = ts_put [Tp_conn 0 Tcp_connect, Tp_accept] new_ip_proxies
      (demo_listening\<lparr>tp_connections := [(0, tw_c demo0)], tp_next := 1\<rparr>)
      (demo_sys0\<lparr>ts_accepted := (ts_accepted demo_sys0)(tp_next (ts_proxy demo_sys0) := tp_last_flush_tm (ts_proxy demo_sys0))\<rparr>)"
    by (simp add: demo_sys_def ts_put_def demo_sys0_def ts_fresh_def demo_listening_def tp_new_def demo0_eq pend_of_def pend0_def fun_upd_idem)
  then show ?thesis using ts_step.own [OF ts_own.accept [OF h, of 10]] by simp
qed

lemma demo_sys_complete:
  assumes "tcp_event w w'" and "tw_rule w = demo_rule" and "tw_now w = 0" and "tw_alive w"
  shows "ts_step 10 (demo_sys w) (demo_sys w')"
proof -
  have kc: "(0, tw_c w) \<in> set (ts_conns (demo_sys w))" by (simp add: demo_sys_def)
  have "ts_world (demo_sys w) 0 (tw_c w) = w"
    using pend_world_of [OF assms(4)] assms(2,3) by (simp add: ts_world_def demo_sys_def demo_listening_def tp_new_def)
  then have "tcp_event (ts_world (demo_sys w) 0 (tw_c w)) w'" using assms(1) by simp
  from ts_step.own [OF ts_own.complete [OF kc this, of 10]] show ?thesis
    by (simp add: demo_sys_def conn_put_def demo_listening_def tp_new_def)
qed

lemma demo_sys_reach: "ts_reach 10 (demo_sys demo2)"
proof -
  have "ts_reach 10 demo_sys0" using demo_sys_init by (rule reach_init)
  then have "ts_reach 10 (demo_sys demo0)" using demo_sys_accept by (rule reach_step)
  moreover have "ts_step 10 (demo_sys demo0) (demo_sys demo1)"
    by (rule demo_sys_complete [OF demo_event1]) (simp_all add: demo0_eq)
  ultimately have "ts_reach 10 (demo_sys demo1)" by (rule reach_step)
  moreover have "ts_step 10 (demo_sys demo1) (demo_sys demo2)"
    by (rule demo_sys_complete [OF demo_event2]) (simp_all add: demo1_eq demo0_eq)
  ultimately show ?thesis by (rule reach_step)
qed

lemma tp_system_total_witness:
  "\<exists>r. tp_handleWait 500 Success Other_error 10 (tw_x demo2) (demo_listening\<lparr>tp_connections := [(0, tw_c demo2)], tp_next := 1\<rparr>) = Inr r"
proof -
  have "\<exists>r. tp_handleWait 500 Success Other_error 10 (ts_x (demo_sys demo2)) (ts_proxy (demo_sys demo2)) = Inr r"
    using tp_system_total [OF demo_sys_reach] by blast
  then show ?thesis by (simp add: demo_sys_def)
qed

section \<open>What the connections of a proxy do\<close>

text \<open>What a connection does for its two peers, under the limit of its rule.\<close>

definition conn_serves :: "int \<Rightarrow> 'a tcp_sys \<Rightarrow> nat \<Rightarrow> 'a tcp_conn \<Rightarrow> bool" where
  "conn_serves gap s k c \<longleftrightarrow> (\<forall>p.
     prefix (pd_tx (ts_pend s k) p) (pd_rx (ts_pend s k) (flip p)) \<and>
     (\<not> tc_close_flag c \<longrightarrow>
       pd_rx (ts_pend s k) (flip p) = pd_tx (ts_pend s k) p @ tcp_queued (ts_world s k c) p) \<and>
     length (tcp_queued (ts_world s k c) p) \<le> 8192 \<and>
     (0 < tr_max_bandwidth (tp_rule (ts_proxy s)) \<and>
      gap * tr_max_bandwidth (tp_rule (ts_proxy s)) div 1000 < 2147483648 \<longrightarrow>
       1000 * int (length (pd_tx (ts_pend s k) p)) \<le>
         tr_max_bandwidth (tp_rule (ts_proxy s)) * (tp_last_flush_tm (ts_proxy s) - ts_accepted s k) + 1000 * 4150))"

lemma ts_reach_serves:
  assumes "ts_reach gap s" and "(k, c) \<in> set (tp_connections (ts_proxy s))"
  shows "conn_serves gap s k c"
proof -
  let ?w = "ts_world s k c"
  have r: "tcp_reach ?w"
    using sysr.obs.reachable_inv [OF assms(1)] assms(2) by (auto simp: ts_obs_def)
  have "gap * tr_max_bandwidth (tw_rule ?w) div 1000 < 2147483648 \<longrightarrow>
      tcp_timed (ts_accepted s k) ?w (tp_last_flush_tm (ts_proxy s))"
    using syst.obs.reachable_inv [OF assms(1)] assms(2) by (auto simp: ts_obs_def)
  then show ?thesis
    unfolding conn_serves_def
  proof (intro allI, goal_cases)
    case (1 p)
    then show ?case
      using tcp_reach_streams [OF r, of p] tcp_queued_bound [OF r, of p]
        tcp_timed_rate [of "ts_accepted s k" ?w "tp_last_flush_tm (ts_proxy s)" p]
      by (auto simp: ts_world_def rate_ok_def)
  qed
qed

text \<open>
  All connections of a running proxy (\<open>TcpProxy\<close> with \<open>TcpConnection\<close>): in every state
  that accepts, completions, ticks at most \<open>gap\<close> milliseconds apart, a stop and the other
  users of the table can reach, for each connection and each direction, what was written is
  a prefix of what was read, and, unless the connection is closed, the rest is what waits
  in its queue; at most 8192 bytes wait; and with a limit of \<open>bw\<close> bytes per second the
  bytes written are at most \<open>bw\<close> times the milliseconds from the last flush before it was
  accepted to the last one now, over 1000, plus one message, whatever the other
  connections do.
\<close>

lemma tp_system_connections:
  assumes "ts_reach gap s" and "(k, c) \<in> set (tp_connections (ts_proxy s))"
  shows "prefix (pd_tx (ts_pend s k) p) (pd_rx (ts_pend s k) (flip p)) \<and>
    (\<not> tc_close_flag c \<longrightarrow>
      pd_rx (ts_pend s k) (flip p) = pd_tx (ts_pend s k) p @ tcp_queued (ts_world s k c) p) \<and>
    length (tcp_queued (ts_world s k c) p) \<le> 8192 \<and>
    (0 < tr_max_bandwidth (tp_rule (ts_proxy s)) \<and>
     gap * tr_max_bandwidth (tp_rule (ts_proxy s)) div 1000 < 2147483648 \<longrightarrow>
      1000 * int (length (pd_tx (ts_pend s k) p)) \<le>
        tr_max_bandwidth (tp_rule (ts_proxy s)) * (tp_last_flush_tm (ts_proxy s) - ts_accepted s k) + 1000 * 4150)"
  using ts_reach_serves [OF assms] by (simp add: conn_serves_def)

lemma tp_system_connections_witness:
  "pd_rx (pend_of demo2) I0 = [1, 2, 3] \<and> pd_rx (pend_of demo2) I0 = pd_tx (pend_of demo2) I1 @ tcp_queued demo2 I1 \<and>
   1000 * int (length (pd_tx (pend_of demo2) I1)) \<le> 100000 * (0 - 0) + 1000 * 4150"
proof -
  have kc: "(0, tw_c demo2) \<in> set (tp_connections (ts_proxy (demo_sys demo2)))" by (simp add: demo_sys_def)
  have w: "tcp_queued (ts_world (demo_sys demo2) 0 (tw_c demo2)) I1 = tcp_queued demo2 I1"
    by (simp add: tcp_queued_def ts_world_def)
  have r: "tp_rule (ts_proxy (demo_sys demo2)) = demo_rule" "tr_max_bandwidth demo_rule = 100000"
    "tp_last_flush_tm (ts_proxy (demo_sys demo2)) = 0" "ts_accepted (demo_sys demo2) 0 = 0"
    "ts_pend (demo_sys demo2) 0 = pend_of demo2"
    by (simp_all add: demo_sys_def demo_listening_def tp_new_def demo_rule_def)
  have "\<not> tc_close_flag (tw_c demo2)" "pd_rx (pend_of demo2) I0 = [1, 2, 3]"
    by (simp_all add: demo2_eq demo1_eq demo0_eq demo_conn_def pend_of_def)
  then show ?thesis using tp_system_connections [OF demo_sys_reach kc, of I1] unfolding w r by simp
qed

end
