(* ===== verification/Tcp_Account.thy ===== *)
theory Tcp_Account
  imports Ip_Account Tcp_System_Props
begin

text \<open>
  A running \<open>TcpProxy\<close> as a holder of client addresses: every accept takes an entry of the
  table for the connection it makes, the flush gives back those of the connections it
  destroys, and nothing else changes who holds what.
\<close>

definition conns_held :: "(nat \<times> 'a tcp_conn) list \<Rightarrow> 'a multiset" where
  "conns_held cs = sum_list (map (\<lambda>(k, c). opt_mset (tc_client_ip c)) cs)"

lemma conns_held_simps [simp]:
  "conns_held [] = {#}" "conns_held ((k, c) # cs) = opt_mset (tc_client_ip c) + conns_held cs"
  "conns_held (cs @ ds) = conns_held cs + conns_held ds"
  by (simp_all add: conns_held_def)

lemma conns_held_member: "(k, c) \<in> set cs \<Longrightarrow> opt_mset (tc_client_ip c) \<subseteq># conns_held cs"
  by (induction cs) (auto intro: subset_mset.order_trans)

text \<open>The proxy next to a table that others change as well.\<close>

definition tcp_at :: "'a ip_proxies \<Rightarrow> 'a tcp_sys \<Rightarrow> 'a tcp_sys" where
  "tcp_at x s = s\<lparr>ts_x := x\<rparr>"

definition tcp_held :: "'a tcp_sys \<Rightarrow> 'a multiset" where
  "tcp_held s = conns_held (ts_conns s)"

definition tcp_part_step :: "int \<Rightarrow> 'a::linorder ip_proxies \<Rightarrow> 'a tcp_sys \<Rightarrow> 'a ip_proxies \<Rightarrow> 'a tcp_sys \<Rightarrow> bool" where
  "tcp_part_step gap x s y t \<longleftrightarrow> ts_own gap (tcp_at x s) t \<and> y = ts_x t"

lemma tcp_at_sel [simp]:
  "ts_proxy (tcp_at x s) = ts_proxy s" "ts_pend (tcp_at x s) = ts_pend s" "ts_x (tcp_at x s) = x"
  "ts_accepted (tcp_at x s) = ts_accepted s" "tcp_at y (tcp_at x s) = tcp_at y s" "tcp_held (tcp_at x s) = tcp_held s"
  by (simp_all add: tcp_at_def tcp_held_def)

lemma tcp_at_own [simp]: "tcp_at (ts_x s) s = s"
  by (simp add: tcp_at_def)

section \<open>Operations that hold and release nothing\<close>

lemma ip_acc_same: "ip_same x y \<Longrightarrow> ip_acc x H \<Longrightarrow> ip_acc y H"
  using ip_same_ref [of x y] by (simp add: ip_acc_def ip_inv_def ip_same_def ref_of_def)

lemma conns_held_stop: "tp_stop_all cs = Inr (io, ds) \<Longrightarrow> conns_held ds = conns_held cs"
  by (induction cs arbitrary: io ds) (auto simp: result_simps tc_stop_def Let_def split: if_splits)

lemma conns_held_asyncWait: "tp_asyncWait ec t = Inr (io, t') \<Longrightarrow> conns_held (tp_connections t') = conns_held (tp_connections t)"
  by (auto simp: tp_asyncWait_def tp_close_def result_simps dest: conns_held_stop split: if_splits)

lemma conns_held_start: "tp_start ar t = Inr (b, io, t') \<Longrightarrow> conns_held (tp_connections t') = conns_held (tp_connections t)"
  by (auto simp: tp_start_def tp_startAccept_def result_simps dest!: conns_held_asyncWait split: if_splits)

lemma conns_held_put:
  assumes "distinct (map fst cs)" and "(k, c) \<in> set cs" and "tc_client_ip d = tc_client_ip c"
  shows "conns_held (conn_put k d cs) = conns_held cs"
proof -
  have "e = c" if "(k, e) \<in> set cs" for e using assms(1,2) that by (metis eq_key_imp_eq_value)
  then have "map (\<lambda>(j, e). opt_mset (tc_client_ip e)) (conn_put k d cs) = map (\<lambda>(j, e). opt_mset (tc_client_ip e)) cs"
    unfolding conn_put_def map_map using assms(3) by (intro map_cong) auto
  then show ?thesis by (simp add: conns_held_def)
qed

section \<open>Taking and giving back\<close>

lemma tp_flush_all_acc:
  "tp_flush_all rule now n expire x cs = Inr (io, y, ds) \<Longrightarrow> ip_acc x (conns_held cs + H) \<Longrightarrow>
     ip_acc y (conns_held ds + H) \<and> ipx_bandwidth y = ipx_bandwidth x"
proof (induction cs arbitrary: x io ds H)
  case (Cons kc cs)
  obtain k c where kc: "kc = (k, c)" by force
  obtain stay io0 x1 c1 x2 io1 cs1 where f: "tc_flushMsgs rule now n expire x c = Inr (stay, io0, x1, c1)"
    and del: "(if stay then Inr x1 else tc_delete c1 x1) = Inr x2"
    and rec: "tp_flush_all rule now n expire x2 cs = Inr (io1, y, cs1)"
    and ds: "ds = (if stay then (k, c1) # cs1 else cs1)"
    using Cons.prems(1) by (auto simp: kc result_simps)
  have keep: "ip_same x x1" "tc_client_ip c1 = tc_client_ip c" using tc_flushMsgs_keeps [OF f] by simp_all
  have acc: "ip_acc x1 (opt_mset (tc_client_ip c1) + (conns_held cs + H))"
    using ip_acc_same [OF keep(1) Cons.prems(2)] by (simp add: kc keep(2) ac_simps)
  have bw: "ipx_bandwidth x1 = ipx_bandwidth x" using keep(1) by (simp add: ip_same_def)
  show ?case
  proof (cases stay)
    case True
    then have "ip_acc x2 (conns_held cs + (opt_mset (tc_client_ip c1) + H))" using acc del by (simp add: ac_simps)
    from Cons.IH [OF rec this] show ?thesis using True del bw by (simp add: ds ac_simps)
  next
    case False
    then have rel: "ip_release (tc_client_ip c1) x1 = Inr x2" using del by (simp add: tc_delete_def)
    from Cons.IH [OF rec ip_acc_release [OF acc rel]] show ?thesis
      using False bw ip_release_bandwidth [OF rel] by (simp add: ds)
  qed
qed simp

lemma tp_handleWait_acc:
  assumes "tp_handleWait tcp_timeout error ec clock x t = Inr (io, y, t')" and "ip_acc x (conns_held (tp_connections t) + H)"
  shows "ip_acc y (conns_held (tp_connections t') + H) \<and> ipx_bandwidth y = ipx_bandwidth x"
proof -
  consider (error) "error \<noteq> Success" | (close) "error = Success" "tp_close_flag t"
    | (run) "error = Success" "\<not> tp_close_flag t" by blast
  then show ?thesis
  proof cases
    case error
    then show ?thesis using assms by (simp add: tp_handleWait_def)
  next
    case close
    then show ?thesis using assms by (auto simp: tp_handleWait_def tp_close_def result_simps dest: conns_held_stop)
  next
    case run
    obtain io1 t1 where w: "tp_asyncWait ec t = Inr (io1, t1)"
      using assms(1) run by (auto simp: tp_handleWait_def result_simps)
    have acc: "ip_acc x (conns_held (tp_connections t1) + H)" using conns_held_asyncWait [OF w] assms(2) by simp
    show ?thesis
    proof (cases "clock \<le> tp_last_flush_tm t1")
      case True
      then show ?thesis using assms(1) run w acc by (auto simp: tp_handleWait_def Let_def)
    next
      case False
      then obtain io2 cs where "tp_flush_all (tp_rule t1) clock (tp_flush_bytes (tp_rule t1) clock (tp_last_flush_tm t1))
          (clock - tcp_timeout) x (tp_connections t1) = Inr (io2, y, cs)" "tp_connections t' = cs"
        using assms(1) run w by (auto simp: tp_handleWait_def Let_def result_simps)
      with tp_flush_all_acc [OF this(1) acc] show ?thesis by simp
    qed
  qed
qed

lemma tp_handleAccept_acc:
  assumes "tp_handleAccept ar error remote x t = Inr (io, y, t')" and "ip_acc x (conns_held (tp_connections t) + H)"
    and "size (conns_held (tp_connections t) + H) < 2147483647"
  shows "ip_acc y (conns_held (tp_connections t') + H) \<and> ipx_bandwidth y = ipx_bandwidth x"
proof (cases "error = Success")
  case True
  obtain a where a: "remote = Some a" using assms(1) True by (cases remote) (simp_all add: tp_handleAccept_def tc_new_def)
  obtain c1 where get: "getIPProxy a x = (c1, y)" and conns: "conns_held (tp_connections t') = conns_held (tp_connections t) + opt_mset c1"
    using assms(1) True
    by (cases "getIPProxy a x") (auto simp: a tp_handleAccept_def tc_new_def tc_start_def tp_startAccept_def Let_def)
  have "ipx_bandwidth y = ipx_bandwidth x" using getIPProxy_bandwidth [of a x] get by simp
  with ip_acc_get [OF assms(2,3) get] show ?thesis by (simp add: conns ac_simps)
next
  case False
  then show ?thesis
    using assms(1,2)
    by (auto simp: tp_handleAccept_def tp_stop_def result_simps Let_def dest!: conns_held_start split: if_splits)
qed

section \<open>The law\<close>

lemma ts_own_acc:
  assumes "ts_reach gap s" and "ts_own gap s s'" and "ip_acc (ts_x s) (tcp_held s + H)"
    and "size (tcp_held s + H) + 1 < 2147483648"
  shows "ip_acc (ts_x s') (tcp_held s' + H) \<and> ipx_bandwidth (ts_x s') = ipx_bandwidth (ts_x s)"
  using assms(2)
proof cases
  case (accept ar error remote io x t)
  from tp_handleAccept_acc [OF accept(2)] show ?thesis using assms(3,4) by (simp add: accept(1) ts_put_def tcp_held_def)
next
  case (complete k c w)
  have dist: "distinct (map fst (ts_conns s))"
    using sysr.obs.reachable_inv [OF assms(1)] by (simp add: ts_obs_def ts_ok_def)
  have w: "ip_same (ts_x s) (tw_x w)" "tc_client_ip (tw_c w) = tc_client_ip c"
    using tcp_event_keeps [OF complete(3)] by (simp_all add: ts_world_def)
  show ?thesis
    using ip_acc_same [OF w(1) assms(3)] conns_held_put [OF dist complete(2) w(2)] w(1)
    by (simp add: complete(1) tcp_held_def ip_same_def)
next
  case (tick clock tcp_timeout error ec io x t)
  from tp_handleWait_acc [OF tick(3)] show ?thesis using assms(3) by (simp add: tick(1) ts_put_def tcp_held_def)
next
  case stop
  then show ?thesis using assms(3) by (simp add: tp_stop_def tcp_held_def)
qed

lemma tcp_held_live: "(k, c) \<in> set (ts_conns s) \<Longrightarrow> tc_client_ip c = Some a \<Longrightarrow> a \<in># tcp_held s"
  using conns_held_member [of k c "ts_conns s"] by (simp add: tcp_held_def)

lemma ip_acc_ts_held: "ip_acc x (tcp_held s + H) \<Longrightarrow> ts_held x (ts_conns s)"
  by (rule ts_heldI) (metis ip_acc_held tcp_held_live option.distinct(1) union_iff)

interpretation tcp_part: ip_holder_list tcp_held "\<lambda>_. 1" "\<lambda>x s. ts_reach gap (tcp_at x s)" "tcp_part_step gap"
  for gap :: int
proof
  fix x y :: "'a ip_proxies" and s t H
  assume r: "ts_reach gap (tcp_at x s)"
  show "ts_reach gap (tcp_at y s)" if "ip_acc y (tcp_held s + H)" "ipx_bandwidth y = ipx_bandwidth x"
    using reach_step [OF r, of "tcp_at y s"] ts_step.others [of y "tcp_at x s" gap] ip_acc_ok [OF that(1)]
      ip_acc_ts_held [OF that(1)] that(2) by (simp add: tcp_at_def)
  assume "tcp_part_step gap x s y t"
  then have own: "ts_own gap (tcp_at x s) t" and y: "y = ts_x t" by (simp_all add: tcp_part_step_def)
  show "ts_reach gap (tcp_at y t) \<and> ip_acc y (tcp_held t + H) \<and> ipx_bandwidth y = ipx_bandwidth x"
    if "ip_acc x (tcp_held s + H)" "size (tcp_held s + H) + 1 < 2147483648"
    using ts_own_acc [OF r own, of H] reach_step [OF r ts_step.own [OF own]] that by (simp add: y)
qed

end
