(* ===== verification/Udp_Proxy.thy ===== *)
theory Udp_Proxy
  imports Ip_Proxy
begin

text \<open>
  \<open>udp_proxy.h\<close> and \<open>udp_proxy.cpp\<close>: a UDP socket per rule (the server endpoint, keyed by
  the destination of the rule) and one per client (keyed by the address of the client), the
  handler of a received datagram, and the routine thread that moves datagrams from the
  receive queue of the socket they came in on to the send queue of the other party's socket
  and sends them. The results of the calls into Boost.Asio, the clock and the random number
  are arguments.
\<close>

section \<open>State\<close>

text \<open>
  \<open>um_src\<close> is the sender of a datagram in a receive queue and the target of one in a send
  queue, as in the code.
\<close>

record 'a udp_msg =
  um_msg :: buffer
  um_time :: msec
  um_src :: "'a endpoint"

text \<open>
  Of \<open>recving_msg\<close> only the buffer is state: its time and source are written before they
  are read. \<open>ue_open\<close> and \<open>ue_receives\<close> (receives outstanding) are the state of
  \<open>proxy_socket\<close>; closing it cancels them, and their handlers then do nothing.
\<close>

record 'a udp_ept =
  ue_rule :: "'a udp_rule"
  ue_open :: bool
  ue_receives :: nat
  ue_recving_msg :: buffer
  ue_server_flag :: bool
  ue_active_tm :: msec
  ue_recv_queue :: "'a udp_msg list"
  ue_send_queue :: "'a udp_msg list"
  ue_recv_avail_bytes :: int
  ue_send_avail_bytes :: int
  ue_recving_flag :: bool
  ue_client_ip :: "'a option"

text \<open>The results of one \<open>init\<close>: three error codes and the clock.\<close>

record udp_init =
  ui_open :: error_code
  ui_set_option :: error_code
  ui_bind :: error_code
  ui_clock :: msec

section \<open>UdpEndpointProxy\<close>

definition new_udp_msg_buffer :: buffer where
  "new_udp_msg_buffer = buffer_alloc (int UDP_BUFFER_SIZE)"

definition ue_asyncRecv :: "'a udp_ept \<Rightarrow> 'a udp_ept" where
  "ue_asyncRecv e = e\<lparr>ue_receives := Suc (ue_receives e)\<rparr>"

definition ue_init :: "udp_init \<Rightarrow> 'a udp_ept \<Rightarrow> 'a udp_ept" where
  "ue_init r e =
     (if ui_open r \<noteq> Success then e
      else let e = e\<lparr>ue_open := True\<rparr> in
      if ui_set_option r \<noteq> Success then e
      else if ui_bind r \<noteq> Success then e
      else (ue_asyncRecv e)\<lparr>ue_active_tm := ui_clock r\<rparr>)"

definition ue_new :: "udp_init \<Rightarrow> 'a udp_rule \<Rightarrow> 'a::linorder ip_proxies \<Rightarrow> 'a udp_ept \<times> 'a ip_proxies" where
  "ue_new r rule x =
     (let server_flag = (ur_src_port rule \<noteq> 0);
          (client_ip, x) = (if server_flag then (None, x)
                            else getIPProxy (ep_address (ur_dst_endpoint rule)) x)
      in (ue_init r
            \<lparr>ue_rule = rule, ue_open = False, ue_receives = 0, ue_recving_msg = new_udp_msg_buffer,
             ue_server_flag = server_flag, ue_active_tm = 0, ue_recv_queue = [], ue_send_queue = [],
             ue_recv_avail_bytes = 0, ue_send_avail_bytes = 0, ue_recving_flag = True,
             ue_client_ip = client_ip\<rparr>, x))"

definition ue_delete :: "'a::linorder udp_ept \<Rightarrow> 'a ip_proxies \<Rightarrow> failure + 'a ip_proxies" where
  "ue_delete e x = ip_release (ue_client_ip e) x"

definition ue_stop :: "'a udp_ept \<Rightarrow> 'a udp_ept" where
  "ue_stop e = e\<lparr>ue_open := False, ue_receives := 0, ue_active_tm := 0\<rparr>"

text \<open>
  The handler of a receive: \<open>src\<close> and \<open>data\<close> are what Boost.Asio wrote into
  \<open>recving_msg\<close>, \<open>roll\<close> is \<open>int32_range(1, 10000)\<close>.
\<close>

definition ue_handleRecv :: "udp_init \<Rightarrow> msec \<Rightarrow> int \<Rightarrow> error_code \<Rightarrow> 'a endpoint \<Rightarrow> byte list \<Rightarrow>
    'a udp_ept \<Rightarrow> 'a udp_ept" where
  "ue_handleRecv r clock roll error src data e =
     (if error \<noteq> Success then
        (if error = Connection_refused \<or> error = Connection_reset then ue_asyncRecv e
         else if error \<noteq> Operation_aborted then
           (let e = ue_stop e in if ue_server_flag e then ue_init r e else e)
         else e)
      else
        let e = e\<lparr>ue_active_tm := clock\<rparr> in
        if 0 < ur_drop_prob (ue_rule e) \<and> roll \<le> ur_drop_prob (ue_rule e) then ue_asyncRecv e
        else
          let msg = \<lparr>um_msg = buffer_resize (int (length data))
                       ((ue_recving_msg e)\<lparr>bf_buf := map_option (\<lambda>arr. data @ drop (length data) arr)
                          (bf_buf (ue_recving_msg e))\<rparr>),
                     um_time = ue_active_tm e + ur_delay_ms (ue_rule e),
                     um_src = src\<rparr>;
              e = e\<lparr>ue_recv_queue := ue_recv_queue e @ [msg], ue_recving_msg := new_udp_msg_buffer\<rparr>
          in if MAX_UDP_MSG_QUEUE_SIZE < length (ue_recv_queue e)
             then e\<lparr>ue_recving_flag := False\<rparr>
             else ue_asyncRecv e)"

section \<open>UdpProxyServer\<close>

text \<open>
  What Boost.Asio answers during a pass of the routine thread: the results of the n-th
  \<open>init\<close> and of the n-th \<open>send_to\<close>.
\<close>

record udp_env =
  uv_init :: "nat \<Rightarrow> udp_init"
  uv_send :: "nat \<Rightarrow> error_code"

text \<open>
  The server with the local variables of a pass: \<open>us_new\<close> is \<open>new_epts\<close>, the counters
  number the calls, and \<open>us_sent\<close> lists the datagrams sent, each with the key of the socket
  it left from and its target.
\<close>

record 'a udp_server =
  us_endpoints :: "('a endpoint, 'a udp_ept) smap"
  us_new :: "('a endpoint, 'a udp_ept) smap"
  us_x :: "'a ip_proxies"
  us_inits :: nat
  us_sends :: nat
  us_sent :: "('a endpoint \<times> 'a endpoint \<times> byte list) list"

definition us_put :: "'a::linorder endpoint \<Rightarrow> 'a udp_ept \<Rightarrow> 'a udp_server \<Rightarrow> 'a udp_server" where
  "us_put k e s = s\<lparr>us_endpoints := smap_put k e (us_endpoints s)\<rparr>"

definition us_addServerProxy :: "udp_init \<Rightarrow> 'a udp_rule \<Rightarrow> 'a::linorder udp_server \<Rightarrow> failure + 'a udp_server" where
  "us_addServerProxy r rule s =
     (let (e, x) = ue_new r rule (us_x s) in
      and_then (case smap_find (us_endpoints s) (ur_dst_endpoint rule) of
                  None \<Rightarrow> Inr x | Some old \<Rightarrow> ue_delete old x) (\<lambda>x.
        Inr ((us_put (ur_dst_endpoint rule) e s)\<lparr>us_x := x\<rparr>)))"

definition ue_push_send :: "'a udp_msg \<Rightarrow> 'a udp_ept \<Rightarrow> 'a udp_ept" where
  "ue_push_send msg e =
     (if length (ue_send_queue e) < MAX_UDP_MSG_QUEUE_SIZE
      then e\<lparr>ue_send_queue := ue_send_queue e @ [msg]\<rparr> else e)"

text \<open>
  A datagram that came in on the socket \<open>ept\<close> with key \<open>key\<close> is queued on the socket of
  its sender, which is created when there is none; a temporary or a replaced socket is
  destroyed.
\<close>

definition us_route :: "udp_env \<Rightarrow> msec \<Rightarrow> 'a::linorder endpoint \<Rightarrow> 'a udp_ept \<Rightarrow> 'a udp_msg \<Rightarrow> 'a udp_server \<Rightarrow>
    failure + 'a udp_server" where
  "us_route env now key ept msg s =
     (case smap_find (us_endpoints s) (um_src msg) of
        None \<Rightarrow>
          let rule = (ue_rule ept)\<lparr>ur_dst_endpoint := um_src msg, ur_src_port := 0\<rparr>;
              (sender, x) = ue_new (uv_init env (us_inits s)) rule (us_x s);
              s = s\<lparr>us_inits := Suc (us_inits s)\<rparr>;
              sender' = ue_push_send (msg\<lparr>um_src := key\<rparr>) sender
          in if ue_active_tm sender \<noteq> 0
             then and_then (case smap_find (us_new s) (um_src msg) of
                              None \<Rightarrow> Inr x | Some old \<Rightarrow> ue_delete old x) (\<lambda>x.
                    Inr (s\<lparr>us_x := x, us_new := smap_put (um_src msg) sender' (us_new s)\<rparr>))
             else and_then (ue_delete sender x) (\<lambda>x. Inr (s\<lparr>us_x := x\<rparr>))
      | Some sender \<Rightarrow>
          let sender = (if ue_active_tm sender \<noteq> 0 then sender\<lparr>ue_active_tm := now\<rparr> else sender)
          in Inr (us_put (um_src msg) (ue_push_send (msg\<lparr>um_src := key\<rparr>) sender) s))"

definition ue_cost :: "'a udp_msg \<Rightarrow> int" where
  "ue_cost msg = i32 (buffer_get_size (um_msg msg) + UDP_PACKET_EXTRA_OVERHEAD)"

definition ue_limited :: "'a udp_ept \<Rightarrow> bool" where
  "ue_limited e \<longleftrightarrow> \<not> ue_server_flag e \<and> 0 < ur_max_bandwidth (ue_rule e)"

definition ue_charge_recv :: "int \<Rightarrow> 'a udp_ept \<Rightarrow> 'a udp_ept" where
  "ue_charge_recv cost e =
     (if ue_limited e then e\<lparr>ue_recv_avail_bytes := i32 (ue_recv_avail_bytes e - cost)\<rparr> else e)"

definition ue_charge_send :: "int \<Rightarrow> 'a udp_ept \<Rightarrow> 'a udp_ept" where
  "ue_charge_send cost e =
     (if ue_limited e then e\<lparr>ue_send_avail_bytes := i32 (ue_send_avail_bytes e - cost)\<rparr> else e)"

definition ue_refill :: "int \<Rightarrow> 'a udp_ept \<Rightarrow> 'a udp_ept" where
  "ue_refill bytes e =
     (if ue_limited e then
        let e = (if ue_recv_avail_bytes e < 0
                 then e\<lparr>ue_recv_avail_bytes := i32 (ue_recv_avail_bytes e + bytes)\<rparr> else e)
        in if ue_send_avail_bytes e < 0
           then e\<lparr>ue_send_avail_bytes := i32 (ue_send_avail_bytes e + bytes)\<rparr> else e
      else e)"

text \<open>Paying at the client address; a server endpoint has none.\<close>

definition ue_pay :: "idx2 \<Rightarrow> 'a::linorder udp_ept \<Rightarrow> 'a udp_msg \<Rightarrow> 'a ip_proxies \<Rightarrow> failure + (bool \<times> 'a ip_proxies)" where
  "ue_pay i e msg x =
     (if ue_server_flag e then Inr (True, x) else ip_pay i (ue_cost msg) (ue_client_ip e) x)"

text \<open>The end of a turn of the receive loop: charge, pop, receive again.\<close>

definition ue_pop_recv :: "int \<Rightarrow> 'a udp_ept \<Rightarrow> 'a udp_ept" where
  "ue_pop_recv cost e =
     (let e = ue_charge_recv cost e;
          e = e\<lparr>ue_recv_queue := tl (ue_recv_queue e)\<rparr>
      in if \<not> ue_recving_flag e then ue_asyncRecv (e\<lparr>ue_recving_flag := True\<rparr>) else e)"

text \<open>One turn of the receive loop of a socket; \<open>False\<close> when the loop ends.\<close>

definition us_recv_one :: "udp_env \<Rightarrow> msec \<Rightarrow> 'a::linorder endpoint \<Rightarrow> 'a udp_server \<Rightarrow> failure + (bool \<times> 'a udp_server)" where
  "us_recv_one env now key s =
     (case smap_find (us_endpoints s) key of
        None \<Rightarrow> Inl Dangling_deref
      | Some ept \<Rightarrow>
          (case ue_recv_queue ept of
             [] \<Rightarrow> Inr (False, s)
           | msg # _ \<Rightarrow>
               if ue_recv_avail_bytes ept < 0 then Inr (False, s)
               else if um_src msg = key then Inl Assert_failed
               else if now < um_time msg then Inr (False, s)
               else and_then (ue_pay I1 ept msg (us_x s)) (\<lambda>(go, x).
                 let s = s\<lparr>us_x := x\<rparr> in
                 if \<not> go then Inr (False, s)
                 else and_then (us_route env now key ept msg s) (\<lambda>s.
                   Inr (True, us_put key (ue_pop_recv (ue_cost msg) ept) s)))))"

fun us_recv_loop :: "nat \<Rightarrow> udp_env \<Rightarrow> msec \<Rightarrow> 'a::linorder endpoint \<Rightarrow> 'a udp_server \<Rightarrow> failure + 'a udp_server" where
  "us_recv_loop 0 env now key s = Inr s"
| "us_recv_loop (Suc n) env now key s =
     and_then (us_recv_one env now key s) (\<lambda>(more, s).
       if more then us_recv_loop n env now key s else Inr s)"

text \<open>The first pass at one socket: erase, top up, or run the receive loop.\<close>

definition us_recv_at :: "udp_env \<Rightarrow> msec \<Rightarrow> msec \<Rightarrow> msec \<Rightarrow> 'a::linorder endpoint \<Rightarrow> 'a udp_server \<Rightarrow> failure + 'a udp_server" where
  "us_recv_at env now interval active_timeout_tm key s =
     (case smap_find (us_endpoints s) key of
        None \<Rightarrow> Inl Dangling_deref
      | Some ept \<Rightarrow>
          if ue_active_tm ept = 0 \<or> (ue_active_tm ept < active_timeout_tm \<and> \<not> ue_server_flag ept)
          then and_then (ue_delete ept (us_x s)) (\<lambda>x.
                 Inr (s\<lparr>us_endpoints := smap_erase key (us_endpoints s), us_x := x\<rparr>))
          else
            let bytes = i32 (interval * ur_max_bandwidth (ue_rule ept) sdiv 1000);
                s = us_put key (ue_refill bytes ept) s
            in us_recv_loop (Suc (length (ue_recv_queue ept))) env now key s)"

text \<open>One turn of the send loop of a socket.\<close>

definition us_send_one :: "udp_env \<Rightarrow> 'a::linorder endpoint \<Rightarrow> 'a udp_server \<Rightarrow> failure + (bool \<times> 'a udp_server)" where
  "us_send_one env key s =
     (case smap_find (us_endpoints s) key of
        None \<Rightarrow> Inl Dangling_deref
      | Some ept \<Rightarrow>
          (case ue_send_queue ept of
             [] \<Rightarrow> Inr (False, s)
           | msg # rest \<Rightarrow>
               if ue_send_avail_bytes ept < 0 then Inr (False, s)
               else and_then (ue_pay I0 ept msg (us_x s)) (\<lambda>(go, x).
                 let s = s\<lparr>us_x := x\<rparr> in
                 if \<not> go then Inr (False, s)
                 else and_then (buffer_read (um_msg msg)) (\<lambda>bytes.
                   let ec = uv_send env (us_sends s); s = s\<lparr>us_sends := Suc (us_sends s)\<rparr> in
                   if ec \<noteq> Success then
                     (let ept = ue_stop ept in
                      if ue_server_flag ept
                      then Inr (False, us_put key (ue_init (uv_init env (us_inits s)) ept)
                             (s\<lparr>us_inits := Suc (us_inits s)\<rparr>))
                      else Inr (False, us_put key ept s))
                   else
                     let ept = ue_charge_send (ue_cost msg) ept in
                     Inr (True, us_put key (ept\<lparr>ue_send_queue := rest\<rparr>)
                       (s\<lparr>us_sent := us_sent s @ [(key, um_src msg, bytes)]\<rparr>))))))"

fun us_send_loop :: "nat \<Rightarrow> udp_env \<Rightarrow> 'a::linorder endpoint \<Rightarrow> 'a udp_server \<Rightarrow> failure + 'a udp_server" where
  "us_send_loop 0 env key s = Inr s"
| "us_send_loop (Suc n) env key s =
     and_then (us_send_one env key s) (\<lambda>(more, s).
       if more then us_send_loop n env key s else Inr s)"

definition us_send_at :: "udp_env \<Rightarrow> 'a::linorder endpoint \<Rightarrow> 'a udp_server \<Rightarrow> failure + 'a udp_server" where
  "us_send_at env key s =
     (case smap_find (us_endpoints s) key of
        None \<Rightarrow> Inl Dangling_deref
      | Some ept \<Rightarrow> us_send_loop (Suc (length (ue_send_queue ept))) env key s)"

text \<open>A loop over the keys of a map.\<close>

fun us_each :: "('k \<Rightarrow> 's \<Rightarrow> failure + 's) \<Rightarrow> 'k list \<Rightarrow> 's \<Rightarrow> failure + 's" where
  "us_each f [] s = Inr s"
| "us_each f (k # ks) s = and_then (f k s) (us_each f ks)"

text \<open>
  One turn of the loop of \<open>routineThreadHandler\<close> at clock \<open>now\<close>. Only the entry visited
  is erased in the first pass and nothing is inserted, so both passes visit the keys the
  map has when they start.
\<close>

definition us_tick :: "udp_env \<Rightarrow> msec \<Rightarrow> msec \<Rightarrow> msec \<Rightarrow> 'a::linorder udp_server \<Rightarrow> failure + (msec \<times> 'a udp_server)" where
  "us_tick env udp_timeout now last_flush_tm s =
     (let interval = now - last_flush_tm in
      if interval \<le> 0 then Inr (last_flush_tm, s)
      else
        let s = s\<lparr>us_new := []\<rparr> in
        and_then (us_each (us_recv_at env now interval (now - udp_timeout)) (smap_keys (us_endpoints s)) s) (\<lambda>s.
        let s = s\<lparr>us_endpoints := smap_insert_all (us_new s) (us_endpoints s), us_new := []\<rparr> in
        and_then (us_each (us_send_at env) (smap_keys (us_endpoints s)) s) (\<lambda>s.
          Inr (now, s))))"

text \<open>The end of the thread: every socket is stopped.\<close>

definition us_stop_all :: "'a udp_server \<Rightarrow> 'a udp_server" where
  "us_stop_all s = s\<lparr>us_endpoints := map (\<lambda>(k, e). (k, ue_stop e)) (us_endpoints s)\<rparr>"

fun us_routine :: "udp_env \<Rightarrow> msec \<Rightarrow> msec list \<Rightarrow> msec \<Rightarrow> 'a::linorder udp_server \<Rightarrow> failure + 'a udp_server" where
  "us_routine env udp_timeout [] last_flush_tm s = Inr (us_stop_all s)"
| "us_routine env udp_timeout (now # nows) last_flush_tm s =
     and_then (us_tick env udp_timeout now last_flush_tm s) (\<lambda>(t, s).
       us_routine env udp_timeout nows t s)"

end
