(* ===== verification/Udp_Traffic.thy ===== *)
theory Udp_Traffic
  imports Udp_Proxy
begin

text \<open>
  Where the datagrams go: everything the UDP proxy sends was received, from the party it is
  sent on behalf of, and is sent at most once. The datagrams in the queues and those sent
  are counted as a multiset that a tick of the routine thread never lets grow.
\<close>

section \<open>Sums over a map\<close>

definition msum :: "('k \<Rightarrow> 'v \<Rightarrow> 'c multiset) \<Rightarrow> ('k, 'v) smap \<Rightarrow> 'c multiset" where
  "msum f m = sum_list (map (\<lambda>(k, v). f k v) m)"

lemma msum_simps [simp]: "msum f [] = {#}" "msum f ((k, v) # m) = f k v + msum f m"
  by (simp_all add: msum_def)

lemma msum_erase: "smap_find m k = Some v \<Longrightarrow> msum f m = f k v + msum f (smap_erase k m)"
  by (induction k m rule: smap_erase.induct) (auto simp: ac_simps split: if_splits)

lemma msum_put: "smap_ok m \<Longrightarrow> msum f (smap_put k v m) = f k v + msum f (smap_erase k m)"
proof (induction k v m rule: smap_put.induct)
  case (2 k v k' v' m)
  have "smap_erase k m = m" if "k < k'"
  proof -
    have "k \<notin> set (smap_keys m)" using 2 that by (auto simp: smap_ok_Cons)
    then show ?thesis by (induction m) (auto simp: smap_keys_def)
  qed
  with 2 show ?case by (auto simp: smap_ok_Cons ac_simps)
qed simp

lemma smap_erase_None: "smap_find m k = None \<Longrightarrow> smap_erase k m = m"
  by (induction k m rule: smap_erase.induct) (auto split: if_splits)

lemma msum_insert_all: "smap_ok m \<Longrightarrow> msum f (smap_insert_all es m) \<subseteq># msum f m + msum f es"
proof (induction es m rule: smap_insert_all.induct)
  case (2 k v es m)
  show ?case
  proof (cases "smap_find m k")
    case None
    with 2 show ?thesis by (simp add: smap_ok_put msum_put smap_erase_None ac_simps)
  next
    case (Some u)
    then have "msum f (smap_insert_all es m) \<subseteq># msum f m + msum f es" using 2 by simp
    also have "\<dots> \<subseteq># msum f m + msum f ((k, v) # es)" by simp
    finally show ?thesis using Some by simp
  qed
qed simp

section \<open>Datagrams in the proxy\<close>

text \<open>
  A datagram is identified by the socket it came in on, the address it came from and its
  bytes.
\<close>

type_synonym 'a datagram = "'a endpoint \<times> 'a endpoint \<times> byte list"

definition ue_traffic :: "'a endpoint \<Rightarrow> 'a udp_ept \<Rightarrow> 'a datagram multiset" where
  "ue_traffic k e =
     mset (map (\<lambda>m. (k, um_src m, buffer_view (um_msg m))) (ue_recv_queue e)) +
     mset (map (\<lambda>m. (um_src m, k, buffer_view (um_msg m))) (ue_send_queue e))"

definition us_traffic :: "'a udp_server \<Rightarrow> 'a datagram multiset" where
  "us_traffic s = msum ue_traffic (us_endpoints s) + msum ue_traffic (us_new s) +
     mset (map (\<lambda>(k, t, bs). (t, k, bs)) (us_sent s))"

definition us_sent_as :: "'a udp_server \<Rightarrow> 'a datagram multiset" where
  "us_sent_as s = mset (map (\<lambda>(k, t, bs). (t, k, bs)) (us_sent s))"

definition us_maps_ok :: "'a::linorder udp_server \<Rightarrow> bool" where
  "us_maps_ok s \<longleftrightarrow> smap_ok (us_endpoints s) \<and> smap_ok (us_new s)"

lemma ue_init_queues [simp]:
  "ue_recv_queue (ue_init r e) = ue_recv_queue e" "ue_send_queue (ue_init r e) = ue_send_queue e"
  "ue_rule (ue_init r e) = ue_rule e" "ue_server_flag (ue_init r e) = ue_server_flag e"
  "ue_client_ip (ue_init r e) = ue_client_ip e" "ue_recving_msg (ue_init r e) = ue_recving_msg e"
  by (simp_all add: ue_init_def ue_asyncRecv_def Let_def)

lemma ue_new_queues:
  assumes "ue_new r rule x = (e, y)"
  shows "ue_recv_queue e = []" "ue_send_queue e = []" "ue_recving_msg e = new_udp_msg_buffer"
    "ue_rule e = rule" "ue_server_flag e \<longleftrightarrow> ur_src_port rule \<noteq> 0"
  using assms by (auto simp: ue_new_def Let_def split: prod.splits)

lemma ue_traffic_same:
  "ue_recv_queue e' = ue_recv_queue e \<Longrightarrow> ue_send_queue e' = ue_send_queue e \<Longrightarrow> ue_traffic k e' = ue_traffic k e"
  by (simp add: ue_traffic_def)

lemma ue_push_send_traffic:
  "ue_traffic k (ue_push_send (m\<lparr>um_src := t\<rparr>) e) \<subseteq># ue_traffic k e + {#(t, k, buffer_view (um_msg m))#}"
  by (auto simp: ue_push_send_def ue_traffic_def)

text \<open>Replacing an entry of the map.\<close>

lemma us_traffic_put:
  assumes "us_maps_ok s" and "smap_find (us_endpoints s) k = Some e"
  shows "us_traffic (us_put k e' s) + ue_traffic k e = us_traffic s + ue_traffic k e'"
  using assms msum_erase [OF assms(2), of ue_traffic]
  by (simp add: us_traffic_def us_put_def us_maps_ok_def msum_put ac_simps)

lemma us_traffic_x [simp]:
  "us_traffic (s\<lparr>us_x := x\<rparr>) = us_traffic s" "us_traffic (s\<lparr>us_inits := n\<rparr>) = us_traffic s"
  "us_traffic (s\<lparr>us_sends := n\<rparr>) = us_traffic s"
  by (simp_all add: us_traffic_def)

lemma us_maps_ok_x [simp]:
  "us_maps_ok (s\<lparr>us_x := x\<rparr>) = us_maps_ok s" "us_maps_ok (s\<lparr>us_inits := n\<rparr>) = us_maps_ok s"
  "us_maps_ok (s\<lparr>us_sends := n\<rparr>) = us_maps_ok s" "us_maps_ok (s\<lparr>us_sent := l\<rparr>) = us_maps_ok s"
  by (simp_all add: us_maps_ok_def)

lemma us_maps_ok_put [simp]: "us_maps_ok s \<Longrightarrow> us_maps_ok (us_put k e s)"
  by (simp add: us_maps_ok_def us_put_def smap_ok_put)

lemma us_put_sel [simp]:
  "us_new (us_put k e s) = us_new s" "us_x (us_put k e s) = us_x s" "us_sent (us_put k e s) = us_sent s"
  "us_endpoints (us_put k e s) = smap_put k e (us_endpoints s)"
  "us_inits (us_put k e s) = us_inits s" "us_sends (us_put k e s) = us_sends s"
  by (simp_all add: us_put_def)

lemma mset_le_cancel: "A + B = C + D \<Longrightarrow> D \<subseteq># B + E \<Longrightarrow> A \<subseteq># C + (E :: 'c multiset)"
proof -
  assume a: "A + B = C + D" and d: "D \<subseteq># B + E"
  have "A + B \<subseteq># C + (B + E)" using a d by (metis subset_mset.add_left_mono)
  then show "A \<subseteq># C + E" by (simp add: ac_simps)
qed

lemma us_route_traffic:
  assumes "us_route env now key ept msg s = Inr s'" and "us_maps_ok s"
  shows "us_traffic s' \<subseteq># us_traffic s + {#(key, um_src msg, buffer_view (um_msg msg))#} \<and> us_maps_ok s'"
proof (cases "smap_find (us_endpoints s) (um_src msg)")
  case (Some sender)
  define e where "e = (if ue_active_tm sender \<noteq> 0 then sender\<lparr>ue_active_tm := now\<rparr> else sender)"
  have s': "s' = us_put (um_src msg) (ue_push_send (msg\<lparr>um_src := key\<rparr>) e) s"
    using assms(1) Some by (simp add: us_route_def e_def Let_def split: if_splits)
  have "ue_traffic (um_src msg) e = ue_traffic (um_src msg) sender" by (simp add: e_def ue_traffic_def)
  then have "ue_traffic (um_src msg) (ue_push_send (msg\<lparr>um_src := key\<rparr>) e) \<subseteq>#
      ue_traffic (um_src msg) sender + {#(key, um_src msg, buffer_view (um_msg msg))#}"
    using ue_push_send_traffic [where k = "um_src msg" and m = msg and t = key and e = e] by simp
  from mset_le_cancel [OF us_traffic_put [OF assms(2) Some] this] assms(2) show ?thesis
    by (simp add: s')
next
  case None
  define rule where "rule = (ue_rule ept)\<lparr>ur_dst_endpoint := um_src msg, ur_src_port := 0\<rparr>"
  obtain sender x where new: "ue_new (uv_init env (us_inits s)) rule (us_x s) = (sender, x)" by force
  define sender' where "sender' = ue_push_send (msg\<lparr>um_src := key\<rparr>) sender"
  have tr: "ue_traffic (um_src msg) sender' = {#(key, um_src msg, buffer_view (um_msg msg))#}"
    using ue_new_queues [OF new]
    by (simp add: sender'_def ue_push_send_def ue_traffic_def MAX_UDP_MSG_QUEUE_SIZE_def)
  show ?thesis
  proof (cases "ue_active_tm sender \<noteq> 0")
    case True
    obtain y where s': "s' = s\<lparr>us_inits := Suc (us_inits s), us_x := y,
        us_new := smap_put (um_src msg) sender' (us_new s)\<rparr>"
      using assms(1) None new True
      by (auto simp: us_route_def rule_def [symmetric] sender'_def [symmetric] Let_def result_simps)
    have "msum ue_traffic (smap_erase (um_src msg) (us_new s)) \<subseteq># msum ue_traffic (us_new s)"
      by (cases "smap_find (us_new s) (um_src msg)") (simp_all add: smap_erase_None msum_erase)
    then have "us_traffic s' \<subseteq># us_traffic s + {#(key, um_src msg, buffer_view (um_msg msg))#}"
      using assms(2) tr by (simp add: us_traffic_def s' us_maps_ok_def msum_put ac_simps)
    with assms(2) show ?thesis by (simp add: s' us_maps_ok_def smap_ok_put)
  next
    case False
    then obtain y where "s' = s\<lparr>us_inits := Suc (us_inits s), us_x := y\<rparr>"
      using assms(1) None new
      by (auto simp: us_route_def rule_def [symmetric] Let_def result_simps)
    with assms(2) show ?thesis by simp
  qed
qed

lemma us_put_le:
  assumes "us_maps_ok s" and "smap_find (us_endpoints s) k = Some e" and "ue_traffic k e' \<subseteq># ue_traffic k e"
  shows "us_traffic (us_put k e' s) \<subseteq># us_traffic s"
  using mset_le_cancel [OF us_traffic_put [OF assms(1,2)], of e' "{#}"] assms(3) by simp

lemma us_route_keeps:
  assumes "us_route env now key ept msg s = Inr s'" and "k \<noteq> um_src msg"
  shows "smap_find (us_endpoints s') k = smap_find (us_endpoints s) k"
  using assms
  by (auto simp: us_route_def Let_def result_simps smap_find_put split: option.splits prod.splits if_splits)

lemma ue_pop_recv_sel [simp]:
  "ue_recv_queue (ue_pop_recv cost e) = tl (ue_recv_queue e)" "ue_send_queue (ue_pop_recv cost e) = ue_send_queue e"
  "ue_recving_msg (ue_pop_recv cost e) = ue_recving_msg e" "ue_server_flag (ue_pop_recv cost e) = ue_server_flag e"
  "ue_client_ip (ue_pop_recv cost e) = ue_client_ip e" "ue_rule (ue_pop_recv cost e) = ue_rule e"
  by (simp_all add: ue_pop_recv_def ue_charge_recv_def ue_asyncRecv_def Let_def)

lemma ue_refill_sel [simp]:
  "ue_recv_queue (ue_refill n e) = ue_recv_queue e" "ue_send_queue (ue_refill n e) = ue_send_queue e"
  "ue_recving_msg (ue_refill n e) = ue_recving_msg e" "ue_server_flag (ue_refill n e) = ue_server_flag e"
  "ue_client_ip (ue_refill n e) = ue_client_ip e" "ue_rule (ue_refill n e) = ue_rule e"
  by (simp_all add: ue_refill_def Let_def)

text \<open>What one turn of the receive loop does when it goes on.\<close>

lemma us_recv_one_cases:
  assumes "us_recv_one env now key s = Inr (go_on, s')"
  obtains (ended) x where "\<not> go_on" "s' = s\<lparr>us_x := x\<rparr>"
  | (moved) ept msg ms x s1 where "go_on" "smap_find (us_endpoints s) key = Some ept" "ue_recv_queue ept = msg # ms"
      "um_src msg \<noteq> key" "um_time msg \<le> now" "0 \<le> ue_recv_avail_bytes ept"
      "ue_pay I1 ept msg (us_x s) = Inr (True, x)" "us_route env now key ept msg (s\<lparr>us_x := x\<rparr>) = Inr s1"
      "s' = us_put key (ue_pop_recv (ue_cost msg) ept) s1"
proof -
  obtain ept where e: "smap_find (us_endpoints s) key = Some ept"
    using assms by (auto simp: us_recv_one_def split: option.splits)
  show thesis
  proof (cases "ue_recv_queue ept")
    case Nil
    with assms e ended [of "us_x s"] show thesis by (simp add: us_recv_one_def)
  next
    case (Cons msg ms)
    show thesis
    proof (cases "ue_recv_avail_bytes ept < 0 \<or> um_src msg = key \<or> now < um_time msg")
      case True
      with assms e Cons ended [of "us_x s"] show thesis by (auto simp: us_recv_one_def split: if_splits)
    next
      case False
      then obtain go x where pay: "ue_pay I1 ept msg (us_x s) = Inr (go, x)"
        using assms e Cons by (auto simp: us_recv_one_def result_simps)
      show thesis
      proof (cases go)
        case no: False
        with assms e Cons False pay ended [of x] show thesis by (simp add: us_recv_one_def)
      next
        case True
        with assms e Cons False pay obtain s1 where "us_route env now key ept msg (s\<lparr>us_x := x\<rparr>) = Inr s1"
          "go_on" "s' = us_put key (ue_pop_recv (ue_cost msg) ept) s1"
          by (auto simp: us_recv_one_def Let_def result_simps)
        with moved [OF _ e Cons, of x s1] False pay True show thesis by simp
      qed
    qed
  qed
qed

lemma us_recv_one_traffic:
  assumes "us_recv_one env now key s = Inr (go_on, s')" and ok: "us_maps_ok s"
  shows "us_traffic s' \<subseteq># us_traffic s \<and> us_maps_ok s'"
  using assms(1)
proof (cases rule: us_recv_one_cases)
  case (ended x)
  with ok show ?thesis by simp
next
  case (moved ept msg ms x s1)
  have r: "us_traffic s1 \<subseteq># us_traffic s + {#(key, um_src msg, buffer_view (um_msg msg))#}" "us_maps_ok s1"
    using us_route_traffic [OF moved(8)] ok by simp_all
  have "smap_find (us_endpoints s1) key = Some ept"
    using us_route_keeps [OF moved(8), of key] moved(2,4) by simp
  from us_traffic_put [OF r(2) this, of "ue_pop_recv (ue_cost msg) ept"]
  have "us_traffic s' + {#(key, um_src msg, buffer_view (um_msg msg))#} = us_traffic s1"
    using moved(3) by (simp add: moved(9) ue_traffic_def)
  with r moved(9) show ?thesis by (metis subset_mset.add_le_cancel_right us_maps_ok_put)
qed

lemma us_recv_loop_traffic:
  "us_recv_loop n env now key s = Inr s' \<Longrightarrow> us_maps_ok s \<Longrightarrow> us_traffic s' \<subseteq># us_traffic s \<and> us_maps_ok s'"
proof (induction n arbitrary: s)
  case (Suc n)
  then obtain go_on s1 where one: "us_recv_one env now key s = Inr (go_on, s1)"
    and rest: "(if go_on then us_recv_loop n env now key s1 else Inr s1) = Inr s'"
    by (auto simp: result_simps)
  from us_recv_one_traffic [OF one Suc.prems(2)] rest Suc.IH [of s1] show ?case
    by (cases go_on) (auto intro: subset_mset.trans)
qed simp

lemma us_recv_at_traffic:
  assumes "us_recv_at env now iv tmo key s = Inr s'" and ok: "us_maps_ok s"
  shows "us_traffic s' \<subseteq># us_traffic s \<and> us_maps_ok s'"
proof -
  obtain e where e: "smap_find (us_endpoints s) key = Some e"
    using assms(1) by (auto simp: us_recv_at_def split: option.splits)
  show ?thesis
  proof (cases "ue_active_tm e = 0 \<or> (ue_active_tm e < tmo \<and> \<not> ue_server_flag e)")
    case True
    then obtain x where s': "s' = s\<lparr>us_endpoints := smap_erase key (us_endpoints s), us_x := x\<rparr>"
      using assms(1) e by (auto simp: us_recv_at_def result_simps split: if_splits)
    have "us_traffic s = ue_traffic key e + us_traffic s'"
      by (simp add: s' us_traffic_def msum_erase [OF e] ac_simps)
    with ok show ?thesis by (simp add: s' us_maps_ok_def sm.ok_erase)
  next
    case False
    define e1 where "e1 = ue_refill (i32 (iv * ur_max_bandwidth (ue_rule e) sdiv 1000)) e"
    have "us_recv_loop (Suc (length (ue_recv_queue e))) env now key (us_put key e1 s) = Inr s'"
      using assms(1) e False unfolding e1_def by (simp add: us_recv_at_def Let_def del: us_recv_loop.simps)
    from us_recv_loop_traffic [OF this] ok us_put_le [OF ok e, of e1] ue_traffic_same [of e1 e key]
    show ?thesis by (auto simp: e1_def intro: subset_mset.trans)
  qed
qed

lemma us_each_inv:
  assumes "us_each f ks s = Inr s'" and "P s" and "\<And>k s s'. P s \<Longrightarrow> f k s = Inr s' \<Longrightarrow> P s'"
  shows "P s'"
  using assms(1,2) by (induction ks arbitrary: s) (auto simp: result_simps intro: assms(3))

text \<open>What one turn of the send loop does.\<close>

lemma us_send_one_cases:
  assumes "us_send_one env key s = Inr (go_on, s')"
  obtains (ended) x where "\<not> go_on" "s' = s\<lparr>us_x := x\<rparr>"
  | (sent) ept msg ms x where "go_on" "smap_find (us_endpoints s) key = Some ept" "ue_send_queue ept = msg # ms"
      "0 \<le> ue_send_avail_bytes ept" "ue_pay I0 ept msg (us_x s) = Inr (True, x)" "buffer_ok (um_msg msg)"
      "uv_send env (us_sends s) = Success"
      "s' = us_put key ((ue_charge_send (ue_cost msg) ept)\<lparr>ue_send_queue := ms\<rparr>)
         (s\<lparr>us_x := x, us_sends := Suc (us_sends s),
            us_sent := us_sent s @ [(key, um_src msg, buffer_view (um_msg msg))]\<rparr>)"
  | (failed) ept e' x n where "\<not> go_on" "smap_find (us_endpoints s) key = Some ept"
      "uv_send env (us_sends s) \<noteq> Success"
      "e' = ue_stop ept \<and> \<not> ue_server_flag ept \<or> e' = ue_init (uv_init env (us_inits s)) (ue_stop ept) \<and> ue_server_flag ept"
      "s' = us_put key e' (s\<lparr>us_x := x, us_sends := Suc (us_sends s), us_inits := n\<rparr>)"
proof -
  obtain ept where e: "smap_find (us_endpoints s) key = Some ept"
    using assms by (auto simp: us_send_one_def split: option.splits)
  show thesis
  proof (cases "ue_send_queue ept")
    case Nil
    with assms e ended [of "us_x s"] show thesis by (simp add: us_send_one_def)
  next
    case (Cons msg ms)
    show thesis
    proof (cases "ue_send_avail_bytes ept < 0")
      case True
      with assms e Cons ended [of "us_x s"] show thesis by (simp add: us_send_one_def)
    next
      case False
      then obtain go x where pay: "ue_pay I0 ept msg (us_x s) = Inr (go, x)"
        using assms e Cons by (auto simp: us_send_one_def result_simps)
      show thesis
      proof (cases go)
        case no: False
        with assms e Cons False pay ended [of x] show thesis by (simp add: us_send_one_def)
      next
        case True
        with assms e Cons False pay obtain bytes where b: "buffer_read (um_msg msg) = Inr bytes"
          by (auto simp: us_send_one_def Let_def result_simps)
        then have ok: "buffer_ok (um_msg msg)" "bytes = buffer_view (um_msg msg)"
          by (simp_all add: buffer_ok_def buffer_view_def)
        show thesis
        proof (cases "uv_send env (us_sends s) = Success")
          case ec: True
          with assms e Cons False pay True b
          have "go_on" "s' = us_put key ((ue_charge_send (ue_cost msg) ept)\<lparr>ue_send_queue := ms\<rparr>)
             (s\<lparr>us_x := x, us_sends := Suc (us_sends s),
                us_sent := us_sent s @ [(key, um_src msg, buffer_view (um_msg msg))]\<rparr>)"
            by (auto simp: us_send_one_def Let_def us_put_def ok)
          with sent [OF _ e Cons, of x] False pay True ok ec show thesis by simp
        next
          case ec: False
          show thesis
          proof (cases "ue_server_flag ept")
            case srv: True
            with assms e Cons False pay True b ec failed [where x = x and n = "Suc (us_inits s)", OF _ e ec, of "ue_init (uv_init env (us_inits s)) (ue_stop ept)"]
            show thesis by (simp add: us_send_one_def Let_def us_put_def ue_stop_def)
          next
            case cl: False
            with assms e Cons False pay True b ec failed [where x = x and n = "us_inits s", OF _ e ec, of "ue_stop ept"]
            show thesis by (simp add: us_send_one_def Let_def us_put_def ue_stop_def)
          qed
        qed
      qed
    qed
  qed
qed

lemma us_send_one_traffic:
  assumes "us_send_one env key s = Inr (go_on, s')" and ok: "us_maps_ok s"
  shows "us_traffic s' \<subseteq># us_traffic s \<and> us_maps_ok s'"
  using assms(1)
proof (cases rule: us_send_one_cases)
  case (ended x)
  with ok show ?thesis by simp
next
  case (sent ept msg ms x)
  define s1 where "s1 = s\<lparr>us_x := x, us_sends := Suc (us_sends s),
    us_sent := us_sent s @ [(key, um_src msg, buffer_view (um_msg msg))]\<rparr>"
  define e' where "e' = (ue_charge_send (ue_cost msg) ept)\<lparr>ue_send_queue := ms\<rparr>"
  have ok1: "us_maps_ok s1" and find: "smap_find (us_endpoints s1) key = Some ept"
    using ok sent(2) by (simp_all add: s1_def)
  have tr: "us_traffic s1 = us_traffic s + {#(um_src msg, key, buffer_view (um_msg msg))#}"
    by (simp add: s1_def us_traffic_def)
  have "ue_traffic key ept = ue_traffic key e' + {#(um_src msg, key, buffer_view (um_msg msg))#}"
    using sent(3) by (simp add: ue_traffic_def e'_def ue_charge_send_def)
  with us_traffic_put [OF ok1 find, of e'] tr have "us_traffic s' = us_traffic s"
    by (simp add: sent(8) e'_def [symmetric] s1_def [symmetric])
  with ok1 show ?thesis by (simp add: sent(8) s1_def)
next
  case (failed ept e' x n)
  have same: "ue_traffic key e' = ue_traffic key ept"
    using failed(4) by (auto simp: ue_traffic_def ue_stop_def)
  have "us_traffic (us_put key e' (s\<lparr>us_x := x, us_sends := Suc (us_sends s), us_inits := n\<rparr>)) \<subseteq>#
      us_traffic (s\<lparr>us_x := x, us_sends := Suc (us_sends s), us_inits := n\<rparr>)"
    by (rule us_put_le [where e = ept]) (use ok failed(2) same in simp_all)
  with ok show ?thesis by (simp add: failed(5))
qed

lemma us_send_loop_traffic:
  "us_send_loop n env key s = Inr s' \<Longrightarrow> us_maps_ok s \<Longrightarrow> us_traffic s' \<subseteq># us_traffic s \<and> us_maps_ok s'"
proof (induction n arbitrary: s)
  case (Suc n)
  then obtain go_on s1 where one: "us_send_one env key s = Inr (go_on, s1)"
    and rest: "(if go_on then us_send_loop n env key s1 else Inr s1) = Inr s'"
    by (auto simp: result_simps)
  from us_send_one_traffic [OF one Suc.prems(2)] rest Suc.IH [of s1] show ?case
    by (cases go_on) (auto intro: subset_mset.trans)
qed simp

lemma us_send_at_traffic:
  "us_send_at env key s = Inr s' \<Longrightarrow> us_maps_ok s \<Longrightarrow> us_traffic s' \<subseteq># us_traffic s \<and> us_maps_ok s'"
  by (auto simp: us_send_at_def simp del: us_send_loop.simps split: option.splits dest: us_send_loop_traffic)

lemma us_tick_traffic:
  assumes "us_tick env tmo now t0 s = Inr (t, s')" and ok: "us_maps_ok s"
  shows "us_traffic s' \<subseteq># us_traffic s \<and> us_maps_ok s'"
proof (cases "now - t0 \<le> 0")
  case True
  with assms show ?thesis by (auto simp: us_tick_def Let_def)
next
  case False
  define a where "a = s\<lparr>us_new := []\<rparr>"
  have a: "us_traffic a \<subseteq># us_traffic s \<and> us_maps_ok a"
    using ok by (simp add: a_def us_traffic_def us_maps_ok_def ac_simps)
  obtain b where b: "us_each (us_recv_at env now (now - t0) (now - tmo)) (smap_keys (us_endpoints a)) a = Inr b"
    and c: "us_each (us_send_at env) (smap_keys (smap_insert_all (us_new b) (us_endpoints b)))
      (b\<lparr>us_endpoints := smap_insert_all (us_new b) (us_endpoints b), us_new := []\<rparr>) = Inr s'"
    using assms(1) False by (auto simp: us_tick_def Let_def result_simps a_def)
  have b': "us_traffic b \<subseteq># us_traffic s \<and> us_maps_ok b"
    by (rule us_each_inv [OF b, where P = "\<lambda>b. us_traffic b \<subseteq># us_traffic s \<and> us_maps_ok b", OF a]) (auto dest: us_recv_at_traffic intro: subset_mset.trans)
  define d where "d = b\<lparr>us_endpoints := smap_insert_all (us_new b) (us_endpoints b), us_new := []\<rparr>"
  have "us_traffic d \<subseteq># us_traffic b"
    using msum_insert_all [of "us_endpoints b" ue_traffic "us_new b"] b' by (simp add: us_traffic_def d_def us_maps_ok_def ac_simps)
  then have d': "us_traffic d \<subseteq># us_traffic s \<and> us_maps_ok d"
    using b' by (auto simp: us_maps_ok_def d_def smap_insert_all_ok intro: subset_mset.trans)
  show ?thesis
    by (rule us_each_inv [OF c [folded d_def], where P = "\<lambda>b. us_traffic b \<subseteq># us_traffic s \<and> us_maps_ok b", OF d']) (auto dest: us_send_at_traffic intro: subset_mset.trans)
qed

end
