(* ===== verification/Udp_Props.thy ===== *)
theory Udp_Props
  imports Udp_Traffic
begin

text \<open>
  The UDP proxy as a system of steps (datagrams received, errors, ticks of the routine
  thread, new rules) and what holds in every reachable state: nothing is sent that was not
  received, queues are bounded, one receive is outstanding; and what one datagram goes
  through: dropped or queued, routed, sent.
\<close>

section \<open>Invariants of one socket\<close>

text \<open>
  A property of a socket that every operation of the routine thread keeps holds of all
  sockets after a tick.
\<close>

locale ept_invariant =
  fixes P :: "'a::linorder udp_ept \<Rightarrow> bool"
  assumes P_new: "ue_new r rule x = (e, y) \<Longrightarrow> P e"
    and P_active: "P e \<Longrightarrow> P (e\<lparr>ue_active_tm := t\<rparr>)"
    and P_push: "P e \<Longrightarrow> P (ue_push_send m e)"
    and P_pop: "P e \<Longrightarrow> ue_recv_queue e = m # ms \<Longrightarrow> P (ue_pop_recv c e)"
    and P_refill: "P e \<Longrightarrow> P (ue_refill c e)"
    and P_sent: "P e \<Longrightarrow> ue_send_queue e = m # ms \<Longrightarrow> P ((ue_charge_send c e)\<lparr>ue_send_queue := ms\<rparr>)"
    and P_stop: "P e \<Longrightarrow> P (ue_stop e)"
    and P_restart: "P e \<Longrightarrow> ue_server_flag e \<Longrightarrow> P (ue_init r (ue_stop e))"
begin

definition all_ok :: "'a udp_server \<Rightarrow> bool" where
  "all_ok s \<longleftrightarrow> us_maps_ok s \<and> (\<forall>k e. smap_find (us_endpoints s) k = Some e \<longrightarrow> P e) \<and>
     (\<forall>k e. smap_find (us_new s) k = Some e \<longrightarrow> P e)"

lemma all_ok_put: "all_ok s \<Longrightarrow> P e \<Longrightarrow> all_ok (us_put k e s)"
  by (auto simp: all_ok_def smap_find_put)

lemma all_ok_find: "all_ok s \<Longrightarrow> smap_find (us_endpoints s) k = Some e \<Longrightarrow> P e"
  by (simp add: all_ok_def)

lemma all_ok_fields:
  "all_ok s \<Longrightarrow> all_ok (s\<lparr>us_x := x\<rparr>)" "all_ok s \<Longrightarrow> all_ok (s\<lparr>us_inits := n\<rparr>)"
  "all_ok s \<Longrightarrow> all_ok (s\<lparr>us_sends := n\<rparr>)" "all_ok s \<Longrightarrow> all_ok (s\<lparr>us_sent := l\<rparr>)"
  by (simp_all add: all_ok_def)

lemma all_ok_route:
  assumes "us_route env now key ept msg s = Inr s'" and "all_ok s"
  shows "all_ok s'"
proof (cases "smap_find (us_endpoints s) (um_src msg)")
  case (Some sender)
  with assms show ?thesis
    by (auto simp: us_route_def Let_def intro!: all_ok_put P_push P_active dest: all_ok_find)
next
  case None
  obtain sender x where new: "ue_new (uv_init env (us_inits s))
      ((ue_rule ept)\<lparr>ur_dst_endpoint := um_src msg, ur_src_port := 0\<rparr>) (us_x s) = (sender, x)" by force
  have P: "P (ue_push_send (msg\<lparr>um_src := key\<rparr>) sender)" using P_push [OF P_new [OF new]] .
  consider y where "s' = s\<lparr>us_inits := Suc (us_inits s), us_x := y,
        us_new := smap_put (um_src msg) (ue_push_send (msg\<lparr>um_src := key\<rparr>) sender) (us_new s)\<rparr>"
    | y where "s' = s\<lparr>us_inits := Suc (us_inits s), us_x := y\<rparr>"
    using assms(1) None new
    by (cases "ue_active_tm sender \<noteq> 0") (auto simp: us_route_def Let_def result_simps)
  then show ?thesis
    by cases (use assms(2) P in \<open>auto simp: all_ok_def us_maps_ok_def smap_ok_put smap_find_put split: if_splits\<close>)
qed

lemma all_ok_recv_one:
  assumes "us_recv_one env now key s = Inr (go, s')" and "all_ok s"
  shows "all_ok s'"
  using assms(1)
proof (cases rule: us_recv_one_cases)
  case (ended x)
  with assms(2) show ?thesis by (simp add: all_ok_fields)
next
  case (moved ept msg ms x s2)
  have "all_ok s2" using moved(8) all_ok_fields(1) [OF assms(2)] by (rule all_ok_route)
  moreover have "P (ue_pop_recv (ue_cost msg) ept)"
    using all_ok_find [OF assms(2) moved(2)] moved(3) by (rule P_pop)
  ultimately show ?thesis unfolding moved(9) by (rule all_ok_put)
qed

lemma all_ok_recv_loop: "us_recv_loop n env now key s = Inr s' \<Longrightarrow> all_ok s \<Longrightarrow> all_ok s'"
  by (induction n arbitrary: s) (auto simp: result_simps split: if_splits dest: all_ok_recv_one)

lemma all_ok_recv_at:
  assumes "us_recv_at env now iv tmo key s = Inr s'" and "all_ok s"
  shows "all_ok s'"
proof -
  obtain e where e: "smap_find (us_endpoints s) key = Some e"
    using assms(1) by (auto simp: us_recv_at_def split: option.splits)
  show ?thesis
  proof (cases "ue_active_tm e = 0 \<or> (ue_active_tm e < tmo \<and> \<not> ue_server_flag e)")
    case True
    then obtain x where "s' = s\<lparr>us_endpoints := smap_erase key (us_endpoints s), us_x := x\<rparr>"
      using assms(1) e by (auto simp: us_recv_at_def result_simps split: if_splits)
    then show ?thesis
      using assms(2) by (auto simp: all_ok_def us_maps_ok_def sm.ok_erase sm.find_erase split: if_splits)
  next
    case False
    have "us_recv_loop (Suc (length (ue_recv_queue e))) env now key
        (us_put key (ue_refill (i32 (iv * ur_max_bandwidth (ue_rule e) sdiv 1000)) e) s) = Inr s'"
      using assms(1) e False by (simp add: us_recv_at_def Let_def del: us_recv_loop.simps)
    then show ?thesis
      by (rule all_ok_recv_loop) (intro all_ok_put P_refill assms(2) all_ok_find [OF assms(2) e])
  qed
qed

lemma all_ok_send_one:
  assumes "us_send_one env key s = Inr (go, s')" and "all_ok s"
  shows "all_ok s'"
  using assms(1)
proof (cases rule: us_send_one_cases)
  case (ended x)
  with assms(2) show ?thesis by (simp add: all_ok_fields)
next
  case (sent ept msg ms x)
  have "P ((ue_charge_send (ue_cost msg) ept)\<lparr>ue_send_queue := ms\<rparr>)"
    using all_ok_find [OF assms(2) sent(2)] sent(3) by (rule P_sent)
  then show ?thesis unfolding sent(8) using assms(2) by (intro all_ok_put all_ok_fields)
next
  case (failed ept e' x n)
  have "P e'" using failed(4) all_ok_find [OF assms(2) failed(2)] P_stop P_restart by auto
  then show ?thesis unfolding failed(5) using assms(2) by (intro all_ok_put all_ok_fields)
qed

lemma all_ok_send_loop: "us_send_loop n env key s = Inr s' \<Longrightarrow> all_ok s \<Longrightarrow> all_ok s'"
  by (induction n arbitrary: s) (auto simp: result_simps split: if_splits dest: all_ok_send_one)

lemma all_ok_send_at: "us_send_at env key s = Inr s' \<Longrightarrow> all_ok s \<Longrightarrow> all_ok s'"
  by (auto simp: us_send_at_def simp del: us_send_loop.simps split: option.splits dest: all_ok_send_loop)

lemma all_ok_tick:
  assumes "us_tick env tmo now t0 s = Inr (t, s')" and ok: "all_ok s"
  shows "all_ok s'"
proof (cases "now - t0 \<le> 0")
  case True
  with assms show ?thesis by (auto simp: us_tick_def Let_def)
next
  case False
  define a where "a = s\<lparr>us_new := []\<rparr>"
  have a: "all_ok a" using ok by (simp add: a_def all_ok_def us_maps_ok_def)
  obtain b where b: "us_each (us_recv_at env now (now - t0) (now - tmo)) (smap_keys (us_endpoints a)) a = Inr b"
    and c: "us_each (us_send_at env) (smap_keys (smap_insert_all (us_new b) (us_endpoints b)))
      (b\<lparr>us_endpoints := smap_insert_all (us_new b) (us_endpoints b), us_new := []\<rparr>) = Inr s'"
    using assms(1) False by (auto simp: us_tick_def Let_def result_simps a_def)
  have b': "all_ok b"
    by (rule us_each_inv [OF b, where P = all_ok, OF a]) (auto dest: all_ok_recv_at)
  have d: "all_ok (b\<lparr>us_endpoints := smap_insert_all (us_new b) (us_endpoints b), us_new := []\<rparr>)"
    using b' by (auto simp: all_ok_def us_maps_ok_def smap_insert_all_ok smap_find_insert_all split: option.splits)
  show ?thesis
    by (rule us_each_inv [OF c, where P = all_ok, OF d]) (auto dest: all_ok_send_at)
qed

end

text \<open>
  The state of one socket: the buffer it receives into is fresh, the send queue is bounded,
  and a client socket has one receive outstanding while its receive queue has room.
\<close>

definition ue_client_ok :: "'a udp_ept \<Rightarrow> bool" where
  "ue_client_ok e \<longleftrightarrow> ue_receives e \<le> 1 \<and>
     (if ue_recving_flag e then length (ue_recv_queue e) \<le> 50
      else length (ue_recv_queue e) = 51 \<and> ue_receives e = 0)"

definition ue_ok :: "'a udp_ept \<Rightarrow> bool" where
  "ue_ok e \<longleftrightarrow> ue_recving_msg e = new_udp_msg_buffer \<and> length (ue_send_queue e) \<le> 50 \<and>
     (\<not> ue_server_flag e \<longrightarrow> ue_client_ok e)"

lemma ue_new_ok: "ue_new r rule x = (e, y) \<Longrightarrow> ue_ok e"
  by (auto simp: ue_new_def ue_init_def ue_asyncRecv_def ue_ok_def ue_client_ok_def Let_def split: prod.splits if_splits)

interpretation uei: ept_invariant "ue_ok :: 'a::linorder udp_ept \<Rightarrow> bool"
proof
  fix e :: "'a udp_ept" and m :: "'a udp_msg" and ms c r t rule x y
  show "ue_new r rule x = (e, y) \<Longrightarrow> ue_ok e" by (rule ue_new_ok)
  assume ok: "ue_ok e"
  show "ue_ok (e\<lparr>ue_active_tm := t\<rparr>)" using ok by (simp add: ue_ok_def ue_client_ok_def)
  show "ue_ok (ue_push_send m e)"
    using ok by (simp add: ue_ok_def ue_client_ok_def ue_push_send_def MAX_UDP_MSG_QUEUE_SIZE_def)
  show "ue_recv_queue e = m # ms \<Longrightarrow> ue_ok (ue_pop_recv c e)"
    using ok by (auto simp: ue_ok_def ue_client_ok_def ue_pop_recv_def ue_charge_recv_def ue_asyncRecv_def Let_def split: if_splits)
  show "ue_ok (ue_refill c e)" using ok by (simp add: ue_ok_def ue_client_ok_def ue_refill_def Let_def)
  show "ue_send_queue e = m # ms \<Longrightarrow> ue_ok ((ue_charge_send c e)\<lparr>ue_send_queue := ms\<rparr>)"
    using ok by (simp add: ue_ok_def ue_client_ok_def ue_charge_send_def)
  show "ue_ok (ue_stop e)" using ok by (simp add: ue_ok_def ue_client_ok_def ue_stop_def)
  show "ue_server_flag e \<Longrightarrow> ue_ok (ue_init r (ue_stop e))"
    using ok by (simp add: ue_ok_def ue_stop_def)
qed

section \<open>Steps and reachable states\<close>

text \<open>
  \<open>uw_log\<close> collects the datagrams received. A receive delivers at most the 1500 bytes of
  its buffer, from any source.
\<close>

record 'a udp_world =
  uw_s :: "'a udp_server"
  uw_last :: msec
  uw_log :: "'a datagram list"

definition ue_received :: "'a udp_ept \<Rightarrow> 'a udp_ept" where
  "ue_received e = e\<lparr>ue_receives := ue_receives e - 1\<rparr>"

definition udp_init_world :: "'a::linorder udp_world \<Rightarrow> bool" where
  "udp_init_world w \<longleftrightarrow> us_endpoints (uw_s w) = [] \<and> us_new (uw_s w) = [] \<and> us_sent (uw_s w) = [] \<and> uw_log w = []"

inductive udp_own :: "'a::linorder udp_world \<Rightarrow> 'a udp_world \<Rightarrow> bool" where
  recv: "smap_find (us_endpoints (uw_s w)) k = Some e \<Longrightarrow> 0 < ue_receives e \<Longrightarrow> length data \<le> UDP_BUFFER_SIZE \<Longrightarrow>
     udp_own w (w\<lparr>uw_s := us_put k (ue_handleRecv r clock roll Success src data (ue_received e)) (uw_s w),
       uw_log := uw_log w @ [(k, src, data)]\<rparr>)"
| recv_error: "smap_find (us_endpoints (uw_s w)) k = Some e \<Longrightarrow> 0 < ue_receives e \<Longrightarrow> error \<noteq> Success \<Longrightarrow>
     udp_own w (w\<lparr>uw_s := us_put k (ue_handleRecv r clock roll error src [] (ue_received e)) (uw_s w)\<rparr>)"
| tick: "us_tick env timeout now (uw_last w) (uw_s w) = Inr (t, s) \<Longrightarrow> udp_own w (w\<lparr>uw_s := s, uw_last := t\<rparr>)"

text \<open>Rules are added before the server runs; others use the table of client addresses.\<close>

inductive udp_step :: "'a::linorder udp_world \<Rightarrow> 'a udp_world \<Rightarrow> bool" where
  own: "udp_own w w' \<Longrightarrow> udp_step w w'"
| add: "us_addServerProxy r rule (uw_s w) = Inr s \<Longrightarrow> udp_step w (w\<lparr>uw_s := s\<rparr>)"
| others: "udp_step w (w\<lparr>uw_s := (uw_s w)\<lparr>us_x := x\<rparr>\<rparr>)"

definition udp_inv :: "'a::linorder udp_world \<Rightarrow> bool" where
  "udp_inv w \<longleftrightarrow> uei.all_ok (uw_s w) \<and> us_traffic (uw_s w) \<subseteq># mset (uw_log w)"

lemma us_traffic_put_new:
  assumes "us_maps_ok s" and "ue_traffic k e = {#}"
  shows "us_traffic (us_put k e s) \<subseteq># us_traffic s"
proof (cases "smap_find (us_endpoints s) k")
  case None
  with assms show ?thesis
    by (simp add: us_traffic_def us_maps_ok_def msum_put smap_erase_None)
next
  case (Some e0)
  then show ?thesis using us_put_le [OF assms(1) Some, of e] assms(2) by simp
qed

lemma udp_inv_add:
  assumes inv: "udp_inv w" and h: "us_addServerProxy r rule (uw_s w) = Inr s"
  shows "udp_inv (w\<lparr>uw_s := s\<rparr>)"
proof -
  obtain e x where new: "ue_new r rule (us_x (uw_s w)) = (e, x)" by force
  obtain y where s: "s = (us_put (ur_dst_endpoint rule) e (uw_s w))\<lparr>us_x := y\<rparr>"
    using h new by (auto simp: us_addServerProxy_def result_simps)
  have "ue_traffic k e = {#}" for k using ue_new_queues [OF new] by (simp add: ue_traffic_def)
  then have "us_traffic s \<subseteq># us_traffic (uw_s w)"
    using us_traffic_put_new [of "uw_s w"] inv by (simp add: s udp_inv_def uei.all_ok_def)
  moreover have "uei.all_ok s"
    using inv ue_new_ok [OF new] unfolding s udp_inv_def by (intro uei.all_ok_fields uei.all_ok_put) simp_all
  ultimately show ?thesis using inv by (auto simp: udp_inv_def intro: subset_mset.trans)
qed

lemma new_buffer_read:
  assumes "length data \<le> UDP_BUFFER_SIZE"
  shows "buffer_view (buffer_resize (int (length data))
    (new_udp_msg_buffer\<lparr>bf_buf := map_option (\<lambda>arr. data @ drop (length data) arr) (bf_buf new_udp_msg_buffer)\<rparr>)) = data"
  using assms
  by (simp add: new_udp_msg_buffer_def buffer_alloc_def buffer_resize_def buffer_view_def buffer_read_def)

lemma ue_handleRecv_traffic:
  assumes "ue_recving_msg e = new_udp_msg_buffer" and "length data \<le> UDP_BUFFER_SIZE"
  shows "ue_traffic k (ue_handleRecv r clock roll Success src data (ue_received e)) \<subseteq># ue_traffic k e + {#(k, src, data)#}"
  using new_buffer_read [OF assms(2)] assms(1)
  by (simp add: ue_handleRecv_def ue_received_def ue_asyncRecv_def ue_traffic_def Let_def)

lemma ue_handleRecv_error_traffic:
  "error \<noteq> Success \<Longrightarrow> ue_traffic k (ue_handleRecv r clock roll error src data (ue_received e)) = ue_traffic k e"
  by (simp add: ue_handleRecv_def ue_received_def ue_asyncRecv_def ue_stop_def ue_traffic_def Let_def)

lemma ue_handleRecv_ok:
  fixes e :: "'a::linorder udp_ept"
  assumes "ue_ok e" and "0 < ue_receives e"
  shows "ue_ok (ue_handleRecv r clock roll error src data (ue_received e))"
proof (cases "error = Success")
  case True
  with assms show ?thesis
    by (auto simp: ue_handleRecv_def ue_received_def ue_asyncRecv_def ue_ok_def ue_client_ok_def Let_def
        MAX_UDP_MSG_QUEUE_SIZE_def split: if_splits)
next
  case False
  with assms uei.P_restart [of e r] show ?thesis
    by (auto simp: ue_handleRecv_def ue_received_def ue_asyncRecv_def ue_ok_def ue_client_ok_def ue_stop_def Let_def
        split: if_splits)
qed

lemma udp_inv_put:
  assumes inv: "udp_inv w" and e: "smap_find (us_endpoints (uw_s w)) k = Some e"
    and ok: "ue_ok e'" and tr: "ue_traffic k e' \<subseteq># ue_traffic k e + mset D"
  shows "udp_inv (w\<lparr>uw_s := us_put k e' (uw_s w), uw_log := uw_log w @ D\<rparr>)"
proof -
  have m: "us_maps_ok (uw_s w)" using inv by (simp add: udp_inv_def uei.all_ok_def)
  from mset_le_cancel [OF us_traffic_put [OF m e] tr]
  have "us_traffic (us_put k e' (uw_s w)) \<subseteq># us_traffic (uw_s w) + mset D" .
  also have "\<dots> \<subseteq># mset (uw_log w) + mset D" using inv by (simp add: udp_inv_def)
  finally show ?thesis using inv ok uei.all_ok_put by (auto simp: udp_inv_def)
qed

lemma udp_inv_own:
  assumes inv: "udp_inv w" and step: "udp_own w w'"
  shows "udp_inv w'"
  using step
proof cases
  case (recv k e data src r clock roll)
  have ok: "ue_ok e" using inv recv(2) by (auto simp: udp_inv_def dest: uei.all_ok_find)
  then have "ue_recving_msg e = new_udp_msg_buffer" by (simp add: ue_ok_def)
  then have tr: "ue_traffic k (ue_handleRecv r clock roll Success src data (ue_received e)) \<subseteq>#
      ue_traffic k e + mset [(k, src, data)]"
    using ue_handleRecv_traffic [OF _ recv(4), of e k r clock roll src] by simp
  from udp_inv_put [OF inv recv(2) ue_handleRecv_ok [OF ok recv(3)] tr]
  show ?thesis unfolding recv(1) .
next
  case (recv_error k e error r clock roll src)
  have "ue_ok e" using inv recv_error(2) by (auto simp: udp_inv_def dest: uei.all_ok_find)
  then have ok: "ue_ok (ue_handleRecv r clock roll error src [] (ue_received e))"
    using recv_error(3) by (rule ue_handleRecv_ok)
  have tr: "ue_traffic k (ue_handleRecv r clock roll error src [] (ue_received e)) \<subseteq># ue_traffic k e + mset []"
    using ue_handleRecv_error_traffic [OF recv_error(4), of k r clock roll src "[]" e] by simp
  from udp_inv_put [OF inv recv_error(2) ok tr] show ?thesis unfolding recv_error(1) by simp
next
  case (tick env timeout now t s)
  have "us_maps_ok (uw_s w)" using inv by (simp add: udp_inv_def uei.all_ok_def)
  with us_tick_traffic [OF tick(2)] uei.all_ok_tick [OF tick(2)] inv
  show ?thesis by (auto simp: tick(1) udp_inv_def intro: subset_mset.trans)
qed

lemma udp_inv_step:
  assumes inv: "udp_inv w" and step: "udp_step w w'"
  shows "udp_inv w'"
  using step
proof cases
  case own
  then show ?thesis using udp_inv_own [OF inv] by simp
next
  case add
  then show ?thesis using udp_inv_add [OF inv] by simp
next
  case (others x)
  with inv show ?thesis by (simp add: udp_inv_def uei.all_ok_fields)
qed

lemma udp_inv_init: "udp_init_world w \<Longrightarrow> udp_inv w"
  by (simp add: udp_init_world_def udp_inv_def uei.all_ok_def us_maps_ok_def us_traffic_def)

interpretation udw: step_invariant "udp_init_world :: 'a::linorder udp_world \<Rightarrow> bool" udp_step udp_inv
  by unfold_locales (fact udp_inv_init, fact udp_inv_step)

text \<open>
  Nothing is forged or repeated (\<open>udp_proxy.cpp\<close>): in every state reached by any
  order of datagrams received, errors, ticks and new rules, the datagrams sent, each seen as
  (socket of its target, address of the socket it left from, bytes), are a sub-multiset of the
  datagrams received. So a datagram is sent only on behalf of the party it was received
  from, to the party whose socket it came in on, unaltered and at most once.
\<close>

lemma udp_no_forgery:
  assumes "reachable udp_init_world udp_step w"
  shows "us_sent_as (uw_s w) \<subseteq># mset (uw_log w)"
proof -
  have "us_traffic (uw_s w) \<subseteq># mset (uw_log w)" using udw.reachable_inv [OF assms] by (simp add: udp_inv_def)
  moreover have "us_sent_as (uw_s w) \<subseteq># us_traffic (uw_s w)" by (simp add: us_traffic_def us_sent_as_def)
  ultimately show ?thesis using subset_mset.trans by blast
qed

text \<open>
  C16. Bounded queues (\<open>udp_proxy.cpp\<close>): in every reachable state a send queue holds at
  most 50 datagrams, and a client socket holds at most 51 received ones, has at most one
  receive outstanding (so no two receives write the same buffer), and has stopped receiving
  exactly while its queue is full.
\<close>

theorem udp_bounds:
  assumes "reachable udp_init_world udp_step w" and "smap_find (us_endpoints (uw_s w)) k = Some e"
  shows "length (ue_send_queue e) \<le> 50 \<and>
    (\<not> ue_server_flag e \<longrightarrow> length (ue_recv_queue e) \<le> 51 \<and> ue_receives e \<le> 1 \<and>
      (ue_recving_flag e \<longleftrightarrow> length (ue_recv_queue e) \<le> 50) \<and>
      (length (ue_recv_queue e) = 51 \<longrightarrow> ue_receives e = 0))"
proof -
  have "ue_ok e" using udw.reachable_inv [OF assms(1)] assms(2) by (auto simp: udp_inv_def dest: uei.all_ok_find)
  then show ?thesis by (auto simp: ue_ok_def ue_client_ok_def split: if_splits)
qed

section \<open>A proxy to evaluate on\<close>

text \<open>
  A rule that forwards port 53 to \<open>demo_dst\<close> with a delay of 5 ms. A client sends two bytes at
  10; the tick at 20 forwards them; the destination answers with one byte and the tick at 40
  returns it.
\<close>

definition demo_dst :: "nat endpoint" where "demo_dst = Endpoint 9 53"
definition demo_client :: "nat endpoint" where "demo_client = Endpoint 7 1000"

definition demo_udp_rule :: "nat udp_rule" where
  "demo_udp_rule = \<lparr>ur_src_port = 53, ur_dst_endpoint = demo_dst, ur_max_bandwidth = 0, ur_delay_ms = 5,
     ur_drop_prob = 0\<rparr>"

definition demo_ui :: udp_init where
  "demo_ui = \<lparr>ui_open = Success, ui_set_option = Success, ui_bind = Success, ui_clock = 10\<rparr>"

definition demo_env :: udp_env where
  "demo_env = \<lparr>uv_init = (\<lambda>_. demo_ui), uv_send = (\<lambda>_. Success)\<rparr>"

definition demo_fail_env :: udp_env where
  "demo_fail_env = \<lparr>uv_init = (\<lambda>_. demo_ui), uv_send = (\<lambda>_. Other_error)\<rparr>"

definition demo_u0 :: "nat udp_world" where
  "demo_u0 = \<lparr>uw_s = \<lparr>us_endpoints = [], us_new = [], us_x = new_ip_proxies, us_inits = 0, us_sends = 0, us_sent = []\<rparr>,
     uw_last = 10, uw_log = []\<rparr>"

definition udp_do_add :: "'a udp_rule \<Rightarrow> 'a::linorder udp_world \<Rightarrow> 'a udp_world" where
  "udp_do_add rule w = (case us_addServerProxy demo_ui rule (uw_s w) of Inl _ \<Rightarrow> w | Inr s \<Rightarrow> w\<lparr>uw_s := s\<rparr>)"

definition udp_do_recv :: "'a::linorder endpoint \<Rightarrow> 'a endpoint \<Rightarrow> byte list \<Rightarrow> 'a udp_world \<Rightarrow> 'a udp_world" where
  "udp_do_recv k src data w =
     (case smap_find (us_endpoints (uw_s w)) k of
        None \<Rightarrow> w
      | Some e \<Rightarrow> if 0 < ue_receives e \<and> length data \<le> UDP_BUFFER_SIZE
          then w\<lparr>uw_s := us_put k (ue_handleRecv demo_ui 10 1 Success src data (ue_received e)) (uw_s w),
                 uw_log := uw_log w @ [(k, src, data)]\<rparr>
          else w)"

definition udp_do_tick :: "udp_env \<Rightarrow> msec \<Rightarrow> 'a::linorder udp_world \<Rightarrow> 'a udp_world" where
  "udp_do_tick env now w =
     (case us_tick env 60000 now (uw_last w) (uw_s w) of Inl _ \<Rightarrow> w | Inr (t, s) \<Rightarrow> w\<lparr>uw_s := s, uw_last := t\<rparr>)"

lemma udp_do_add_reach: "reachable udp_init_world udp_step w \<Longrightarrow> reachable udp_init_world udp_step (udp_do_add rule w)"
  by (cases "us_addServerProxy demo_ui rule (uw_s w)")
     (auto simp: udp_do_add_def intro: reach_step [of udp_init_world] udp_step.add)

lemma udp_do_recv_reach:
  "reachable udp_init_world udp_step w \<Longrightarrow> reachable udp_init_world udp_step (udp_do_recv k src data w)"
  using udp_own.recv [where w = w and k = k and data = data and r = demo_ui and clock = 10 and roll = 1 and src = src]
  by (cases "smap_find (us_endpoints (uw_s w)) k")
     (auto simp: udp_do_recv_def intro: reach_step [of udp_init_world] udp_step.own)

lemma udp_do_tick_reach:
  "reachable udp_init_world udp_step w \<Longrightarrow> reachable udp_init_world udp_step (udp_do_tick env now w)"
  by (cases "us_tick env 60000 now (uw_last w) (uw_s w)")
     (auto simp: udp_do_tick_def intro: reach_step [of udp_init_world] udp_step.own udp_own.tick)

definition demo_u1 :: "nat udp_world" where
  "demo_u1 = udp_do_recv demo_dst demo_client [1, 2] (udp_do_add demo_udp_rule demo_u0)"

definition demo_u2 :: "nat udp_world" where
  "demo_u2 = udp_do_tick demo_env 40 (udp_do_recv demo_client demo_dst [3] (udp_do_tick demo_env 20 demo_u1))"

lemma demo_u1_reach: "reachable udp_init_world udp_step demo_u1"
  unfolding demo_u1_def
  by (intro udp_do_recv_reach udp_do_add_reach reach_init) (simp add: udp_init_world_def demo_u0_def)

lemma demo_u2_reach: "reachable udp_init_world udp_step demo_u2"
  unfolding demo_u2_def by (intro udp_do_tick_reach udp_do_recv_reach demo_u1_reach)

lemma udp_no_forgery_witness:
  "us_sent_as (uw_s demo_u2) \<subseteq># mset (uw_log demo_u2) \<and>
   us_sent (uw_s demo_u2) = [(demo_client, demo_dst, [1, 2]), (demo_dst, demo_client, [3])]"
proof
  show "us_sent_as (uw_s demo_u2) \<subseteq># mset (uw_log demo_u2)" using demo_u2_reach by (rule udp_no_forgery)
  show "us_sent (uw_s demo_u2) = [(demo_client, demo_dst, [1, 2]), (demo_dst, demo_client, [3])]" by code_simp
qed

theorem udp_bounds_witness:
  "\<exists>e. smap_find (us_endpoints (uw_s demo_u2)) demo_client = Some e \<and> \<not> ue_server_flag e \<and> ue_receives e \<le> 1"
proof -
  have "map_option ue_server_flag (smap_find (us_endpoints (uw_s demo_u2)) demo_client) = Some False" by code_simp
  then obtain e where e: "smap_find (us_endpoints (uw_s demo_u2)) demo_client = Some e" "\<not> ue_server_flag e" by auto
  with udp_bounds [OF demo_u2_reach e(1)] show ?thesis by blast
qed

end
