(* ===== verification/Udp_Order.thy ===== *)
theory Udp_Order
  imports Udp_Props "HOL-Library.Sublist"
begin

text \<open>
  The order of datagrams. What the UDP server promises is a channel per flow that loses
  datagrams but neither reorders nor repeats them: one channel for each pair of a socket and
  the address a datagram came from. Every step of the server is a sequence of steps of these
  channels, so what holds of them holds of the server.
\<close>

section \<open>Lossy channels\<close>

record ('f, 'm) lossy =
  ls_in :: "'f \<Rightarrow> 'm list"
  ls_flight :: "'f \<Rightarrow> 'm list"
  ls_out :: "'f \<Rightarrow> 'm list"

inductive lossy_step :: "('f, 'm) lossy \<Rightarrow> ('f, 'm) lossy \<Rightarrow> bool" where
  enter: "lossy_step c (c\<lparr>ls_in := (ls_in c)(f := ls_in c f @ [m]), ls_flight := (ls_flight c)(f := ls_flight c f @ [m])\<rparr>)"
| lose: "(\<And>f. subseq (fl f) (ls_flight c f)) \<Longrightarrow> lossy_step c (c\<lparr>ls_flight := fl\<rparr>)"
| leave: "ls_flight c f = m # ms \<Longrightarrow>
     lossy_step c (c\<lparr>ls_flight := (ls_flight c)(f := ms), ls_out := (ls_out c)(f := ls_out c f @ [m])\<rparr>)"

text \<open>What left a channel, followed by what is in it, is part of what entered, in order.\<close>

definition lossy_ok :: "('f, 'm) lossy \<Rightarrow> bool" where
  "lossy_ok c \<longleftrightarrow> (\<forall>f. subseq (ls_out c f @ ls_flight c f) (ls_in c f))"

lemma lossy_ok_step: "lossy_ok c \<Longrightarrow> lossy_step c d \<Longrightarrow> lossy_ok d"
proof (erule lossy_step.cases, goal_cases)
  case (1 c' f m)
  then have "subseq ((ls_out c f @ ls_flight c f) @ [m]) (ls_in c f @ [m])"
    by (intro list_emb_append_mono) (simp_all add: lossy_ok_def)
  then show ?case using 1 by (simp add: lossy_ok_def)
next
  case (2 fl c')
  have "subseq (ls_out c f @ fl f) (ls_out c f @ ls_flight c f)" for f
    by (rule list_emb_append_mono) (use 2 in simp_all)
  then show ?case using 2 unfolding lossy_ok_def by (auto intro: subseq_order.trans)
next
  case (3 c' f m ms)
  then show ?case unfolding lossy_ok_def by (auto split: if_splits) (metis)
qed

lemma lossy_steps_ok: "lossy_step\<^sup>*\<^sup>* c d \<Longrightarrow> lossy_ok c \<Longrightarrow> lossy_ok d"
  by (induction rule: rtranclp_induct) (auto intro: lossy_ok_step)

section \<open>The channels of the server\<close>

text \<open>
  A flow is the key of the socket a datagram came in on and the address it came from. The
  datagrams of a flow wait in the receive queue of that socket, then in the send queue of the
  socket of their sender, which may still be among the new ones.
\<close>

type_synonym 'a flow = "'a endpoint \<times> 'a endpoint"

definition um_view :: "'a udp_msg \<Rightarrow> byte list" where
  "um_view m = buffer_view (um_msg m)"

definition q_from :: "'a endpoint \<Rightarrow> 'a udp_msg list \<Rightarrow> byte list list" where
  "q_from a q = map um_view (filter (\<lambda>m. um_src m = a) q)"

definition recv_flow :: "('a endpoint, 'a udp_ept) smap \<Rightarrow> 'a flow \<Rightarrow> byte list list" where
  "recv_flow es f = (case smap_find es (fst f) of None \<Rightarrow> [] | Some e \<Rightarrow> q_from (snd f) (ue_recv_queue e))"

definition send_flow :: "('a endpoint, 'a udp_ept) smap \<Rightarrow> 'a flow \<Rightarrow> byte list list" where
  "send_flow es f = (case smap_find es (snd f) of None \<Rightarrow> [] | Some e \<Rightarrow> q_from (fst f) (ue_send_queue e))"

definition us_flight :: "'a udp_server \<Rightarrow> 'a flow \<Rightarrow> byte list list" where
  "us_flight s f = send_flow (us_new s) f @ send_flow (us_endpoints s) f @
     recv_flow (us_endpoints s) f @ recv_flow (us_new s) f"

definition us_out :: "'a udp_server \<Rightarrow> 'a flow \<Rightarrow> byte list list" where
  "us_out s f = map (\<lambda>(k, t, bs). bs) (filter (\<lambda>(k, t, bs). t = fst f \<and> k = snd f) (us_sent s))"

definition udp_in :: "'a datagram list \<Rightarrow> 'a flow \<Rightarrow> byte list list" where
  "udp_in log f = map (\<lambda>(k, src, bs). bs) (filter (\<lambda>(k, src, bs). k = fst f \<and> src = snd f) log)"

definition us_lossy :: "'a datagram list \<Rightarrow> 'a udp_server \<Rightarrow> ('a flow, byte list) lossy" where
  "us_lossy log s = \<lparr>ls_in = udp_in log, ls_flight = us_flight s, ls_out = us_out s\<rparr>"

definition udp_lossy :: "'a udp_world \<Rightarrow> ('a flow, byte list) lossy" where
  "udp_lossy w = us_lossy (uw_log w) (uw_s w)"

lemma q_from_simps [simp]:
  "q_from a [] = []" "q_from a (m # q) = (if um_src m = a then um_view m # q_from a q else q_from a q)"
  "q_from a (q @ q') = q_from a q @ q_from a q'"
  by (simp_all add: q_from_def)

lemma flow_Nil [simp]: "recv_flow [] f = []" "send_flow [] f = []"
  by (simp_all add: recv_flow_def send_flow_def)

lemma q_from_push: "subseq (q_from a (ue_send_queue (ue_push_send m e))) (q_from a (ue_send_queue e @ [m]))"
  by (auto simp: ue_push_send_def)

section \<open>Losing\<close>

lemma us_lose:
  assumes "\<And>f. subseq (us_flight s' f) (us_flight s f)" and "us_sent s' = us_sent s"
  shows "lossy_step (us_lossy log s) (us_lossy log s')"
proof -
  have "us_lossy log s' = (us_lossy log s)\<lparr>ls_flight := us_flight s'\<rparr>"
    using assms(2) by (simp add: us_lossy_def us_out_def [abs_def])
  then show ?thesis using lossy_step.lose [of "us_flight s'" "us_lossy log s"] assms(1) by (simp add: us_lossy_def)
qed

lemma us_same: "us_flight s' = us_flight s \<Longrightarrow> us_sent s' = us_sent s \<Longrightarrow> lossy_step (us_lossy log s) (us_lossy log s')"
  by (rule us_lose) simp_all

lemma us_flight_fields [simp]:
  "us_flight (s\<lparr>us_x := x\<rparr>) = us_flight s" "us_flight (s\<lparr>us_inits := n\<rparr>) = us_flight s"
  "us_flight (s\<lparr>us_sends := n\<rparr>) = us_flight s" "us_flight (s\<lparr>us_sent := l\<rparr>) = us_flight s"
  by (simp_all add: us_flight_def fun_eq_iff)

text \<open>Replacing the entry of a socket by one whose queues have not grown.\<close>

lemma us_flight_put:
  "us_flight (us_put j e s) f = send_flow (us_new s) f @
     (if snd f = j then q_from (fst f) (ue_send_queue e) else send_flow (us_endpoints s) f) @
     (if fst f = j then q_from (snd f) (ue_recv_queue e) else recv_flow (us_endpoints s) f) @
     recv_flow (us_new s) f"
  by (simp add: us_flight_def send_flow_def recv_flow_def smap_find_put)

lemma us_put_lose:
  assumes "\<And>a. subseq (q_from a (ue_send_queue e)) (send_flow (us_endpoints s) (a, j))"
    and "\<And>a. subseq (q_from a (ue_recv_queue e)) (recv_flow (us_endpoints s) (j, a))"
  shows "subseq (us_flight (us_put j e s) f) (us_flight s f)"
proof -
  have "subseq (if snd f = j then q_from (fst f) (ue_send_queue e) else send_flow (us_endpoints s) f) (send_flow (us_endpoints s) f)"
    using assms(1) [of "fst f"] by (cases f) auto
  moreover have "subseq (if fst f = j then q_from (snd f) (ue_recv_queue e) else recv_flow (us_endpoints s) f) (recv_flow (us_endpoints s) f)"
    using assms(2) [of "snd f"] by (cases f) auto
  ultimately show ?thesis
    unfolding us_flight_put unfolding us_flight_def by (intro list_emb_append_mono subseq_order.refl)
qed

lemma us_erase_lose:
  assumes "us_maps_ok s"
  shows "subseq (us_flight (s\<lparr>us_endpoints := smap_erase key (us_endpoints s)\<rparr>) f) (us_flight s f)"
  using assms unfolding us_flight_def
  by (intro list_emb_append_mono)
     (auto simp: us_maps_ok_def send_flow_def recv_flow_def smap_find_erase split: option.splits)

lemma us_merge_lose:
  "subseq (us_flight (s\<lparr>us_endpoints := smap_insert_all (us_new s) (us_endpoints s), us_new := []\<rparr>) f) (us_flight s f)"
proof -
  have "subseq (send_flow (smap_insert_all (us_new s) (us_endpoints s)) f) (send_flow (us_new s) f @ send_flow (us_endpoints s) f)"
    "subseq (recv_flow (smap_insert_all (us_new s) (us_endpoints s)) f) (recv_flow (us_endpoints s) f @ recv_flow (us_new s) f)"
    by (auto simp: send_flow_def recv_flow_def smap_find_insert_all split: option.splits)
  from list_emb_append_mono [OF this]
  show ?thesis by (simp add: us_flight_def send_flow_def [of "[]"] recv_flow_def [of "[]"])
qed

section \<open>The receive pass\<close>

lemma us_route_flows:
  assumes "us_route env now key ept msg s = Inr s'"
  shows "subseq (send_flow (us_new s') f @ send_flow (us_endpoints s') f)
      (send_flow (us_new s) f @ send_flow (us_endpoints s) f @ (if f = (key, um_src msg) then [um_view msg] else []))"
    and "subseq (recv_flow (us_new s') f) (recv_flow (us_new s) f)"
    and "recv_flow (us_endpoints s') f = recv_flow (us_endpoints s) f" and "us_sent s' = us_sent s"
proof -
  let ?a = "um_src msg" and ?x = "if f = (key, um_src msg) then [um_view msg] else []"
  have view: "um_view (msg\<lparr>um_src := key\<rparr>) = um_view msg" by (simp add: um_view_def)
  have "subseq (send_flow (us_new s') f @ send_flow (us_endpoints s') f)
      (send_flow (us_new s) f @ send_flow (us_endpoints s) f @ ?x) \<and>
    subseq (recv_flow (us_new s') f) (recv_flow (us_new s) f) \<and>
    recv_flow (us_endpoints s') f = recv_flow (us_endpoints s) f \<and> us_sent s' = us_sent s" (is ?all)
  proof (cases "smap_find (us_endpoints s) ?a")
    case (Some sender)
    define e where "e = (if ue_active_tm sender \<noteq> 0 then sender\<lparr>ue_active_tm := now\<rparr> else sender)"
    define e' where "e' = ue_push_send (msg\<lparr>um_src := key\<rparr>) e"
    have q: "ue_send_queue e = ue_send_queue sender" "ue_recv_queue e' = ue_recv_queue sender"
      by (simp_all add: e_def e'_def ue_push_send_def)
    have s': "s' = us_put ?a e' s"
      using assms Some by (simp add: us_route_def e_def e'_def Let_def split: if_splits)
    have "subseq (send_flow (us_endpoints s') f) (send_flow (us_endpoints s) f @ ?x)"
      using q_from_push [of "fst f" "msg\<lparr>um_src := key\<rparr>" e, folded e'_def] Some q(1) view
      by (cases f) (auto simp: s' send_flow_def smap_find_put split: if_splits)
    moreover have "recv_flow (us_endpoints s') f = recv_flow (us_endpoints s) f"
      using Some q(2) by (simp add: s' recv_flow_def smap_find_put)
    ultimately show ?all by (simp add: s' subseq_append' split del: if_split)
  next
    case None
    obtain sender x where new: "ue_new (uv_init env (us_inits s)) ((ue_rule ept)\<lparr>ur_dst_endpoint := ?a, ur_src_port := 0\<rparr>)
        (us_x s) = (sender, x)" by force
    note q = ue_new_queues(1,2) [OF new]
    define e' where "e' = ue_push_send (msg\<lparr>um_src := key\<rparr>) sender"
    consider (kept) y where "s' = s\<lparr>us_inits := Suc (us_inits s), us_x := y, us_new := smap_put ?a e' (us_new s)\<rparr>"
      | (gone) y where "s' = s\<lparr>us_inits := Suc (us_inits s), us_x := y\<rparr>"
      using assms None new
      by (cases "ue_active_tm sender \<noteq> 0") (auto simp: us_route_def e'_def Let_def result_simps)
    then show ?all
    proof cases
      case kept
      have "subseq (send_flow (us_new s') f) (send_flow (us_new s) f @ ?x)" if "snd f \<noteq> ?a"
        using that by (cases f) (simp add: kept send_flow_def smap_find_put)
      moreover have "send_flow (us_endpoints s) f = []" "subseq (send_flow (us_new s') f) ?x" if "snd f = ?a"
        using that None q q_from_push [of "fst f" "msg\<lparr>um_src := key\<rparr>" sender, folded e'_def] view
        by (cases f; auto simp: kept send_flow_def smap_find_put split: if_splits)+
      ultimately have "subseq (send_flow (us_new s') f @ send_flow (us_endpoints s) f)
          (send_flow (us_new s) f @ send_flow (us_endpoints s) f @ ?x)"
        by (cases "snd f = ?a") (auto simp: subseq_drop_many subseq_rev_drop_many)
      moreover have "subseq (recv_flow (us_new s') f) (recv_flow (us_new s) f)"
        using q by (simp add: kept recv_flow_def smap_find_put e'_def ue_push_send_def)
      ultimately show ?all by (simp add: kept)
    next
      case gone
      then show ?all by (simp add: subseq_append' subseq_rev_drop_many split del: if_split)
    qed
  qed
  then show "subseq (send_flow (us_new s') f @ send_flow (us_endpoints s') f)
      (send_flow (us_new s) f @ send_flow (us_endpoints s) f @ ?x)"
    and "subseq (recv_flow (us_new s') f) (recv_flow (us_new s) f)"
    and "recv_flow (us_endpoints s') f = recv_flow (us_endpoints s) f" and "us_sent s' = us_sent s"
    by blast+
qed

lemma us_recv_one_lose:
  assumes "us_recv_one env now key s = Inr (go, s')"
  shows "subseq (us_flight s' f) (us_flight s f) \<and> us_sent s' = us_sent s"
  using assms
proof (cases rule: us_recv_one_cases)
  case (ended x)
  then show ?thesis by simp
next
  case (moved ept msg ms x s1)
  let ?s = "s\<lparr>us_x := x\<rparr>" and ?x = "if f = (key, um_src msg) then [um_view msg] else []"
  note r = us_route_flows(1-3) [OF moved(8), of f] us_route_flows(4) [OF moved(8)]
  have find: "smap_find (us_endpoints s1) key = Some ept"
    using us_route_keeps [OF moved(8), of key] moved(2,4) by simp
  have recv: "recv_flow (us_endpoints s) f = ?x @ recv_flow (us_endpoints s') f"
    using r(3) moved(2,3) by (cases f) (auto simp: moved(9) recv_flow_def smap_find_put)
  have send: "send_flow (us_endpoints s') f = send_flow (us_endpoints s1) f"
    using find by (simp add: moved(9) send_flow_def smap_find_put)
  have "subseq (send_flow (us_new s1) f @ send_flow (us_endpoints s1) f)
      (send_flow (us_new s) f @ send_flow (us_endpoints s) f @ ?x)" using r(1) by simp
  then have "subseq ((send_flow (us_new s1) f @ send_flow (us_endpoints s1) f) @ recv_flow (us_endpoints s') f @ recv_flow (us_new s1) f)
      ((send_flow (us_new s) f @ send_flow (us_endpoints s) f @ ?x) @ recv_flow (us_endpoints s') f @ recv_flow (us_new s) f)"
    by (rule list_emb_append_mono) (rule list_emb_append_mono [OF subseq_order.refl], use r(2) in simp)
  then show ?thesis unfolding us_flight_def recv send using r(4) by (simp add: moved(9))
qed

lemma us_recv_loop_lose:
  "us_recv_loop n env now key s = Inr s' \<Longrightarrow> subseq (us_flight s' f) (us_flight s f) \<and> us_sent s' = us_sent s"
proof (induction n arbitrary: s)
  case (Suc n)
  then obtain go s1 where one: "us_recv_one env now key s = Inr (go, s1)"
    and rest: "(if go then us_recv_loop n env now key s1 else Inr s1) = Inr s'"
    by (auto simp: result_simps)
  from us_recv_one_lose [OF one, of f] rest Suc.IH [of s1] show ?case
    by (cases go) (auto intro: subseq_order.trans)
qed simp

lemma us_recv_at_lose:
  assumes "us_recv_at env now iv tmo key s = Inr s'" and ok: "us_maps_ok s"
  shows "subseq (us_flight s' f) (us_flight s f) \<and> us_sent s' = us_sent s"
proof -
  obtain e where e: "smap_find (us_endpoints s) key = Some e"
    using assms(1) by (auto simp: us_recv_at_def split: option.splits)
  show ?thesis
  proof (cases "ue_active_tm e = 0 \<or> (ue_active_tm e < tmo \<and> \<not> ue_server_flag e)")
    case True
    then obtain x where "s' = s\<lparr>us_endpoints := smap_erase key (us_endpoints s), us_x := x\<rparr>"
      using assms(1) e by (auto simp: us_recv_at_def result_simps split: if_splits)
    then show ?thesis using us_erase_lose [OF ok, of key f] by simp
  next
    case False
    let ?s = "us_put key (ue_refill (i32 (iv * ur_max_bandwidth (ue_rule e) sdiv 1000)) e) s"
    have "us_recv_loop (Suc (length (ue_recv_queue e))) env now key ?s = Inr s'"
      using assms(1) e False by (simp add: us_recv_at_def Let_def del: us_recv_loop.simps)
    from us_recv_loop_lose [OF this, of f] have "subseq (us_flight s' f) (us_flight ?s f)" "us_sent s' = us_sent s"
      by simp_all
    moreover have "subseq (us_flight ?s f) (us_flight s f)"
      by (rule us_put_lose) (use e in \<open>simp_all add: send_flow_def recv_flow_def\<close>)
    ultimately show ?thesis using subseq_order.trans by blast
  qed
qed

lemma us_recv_at_maps: "us_recv_at env now iv tmo key s = Inr s' \<Longrightarrow> us_maps_ok s \<Longrightarrow> us_maps_ok s'"
  using us_recv_at_traffic by blast

section \<open>The send pass\<close>

lemma us_put_same:
  assumes "smap_find (us_endpoints s) j = Some e" and "ue_send_queue e' = ue_send_queue e" and "ue_recv_queue e' = ue_recv_queue e"
  shows "us_flight (us_put j e' s) = us_flight s"
  using assms by (simp add: fun_eq_iff us_flight_def send_flow_def recv_flow_def smap_find_put)

lemma us_send_one_leave:
  assumes "us_send_one env key s = Inr (go, s')" and "us_new s = []"
  shows "lossy_step (us_lossy log s) (us_lossy log s') \<and> us_new s' = []"
  using assms(1)
proof (cases rule: us_send_one_cases)
  case (ended x)
  then show ?thesis using assms(2) by (auto intro: us_same)
next
  case (sent ept msg ms x)
  let ?f = "(um_src msg, key)"
  have flight: "us_flight s ?f = um_view msg # us_flight s' ?f" "f \<noteq> ?f \<Longrightarrow> us_flight s' f = us_flight s f" for f
    using sent(2,3) assms(2)
    by (cases f; auto simp: sent(8) us_flight_def send_flow_def recv_flow_def smap_find_put ue_charge_send_def)+
  have out: "us_out s' ?f = us_out s ?f @ [um_view msg]" "f \<noteq> ?f \<Longrightarrow> us_out s' f = us_out s f" for f
    by (cases f; auto simp: sent(8) us_out_def um_view_def)+
  have "us_lossy log s' = (us_lossy log s)\<lparr>ls_flight := (ls_flight (us_lossy log s))(?f := us_flight s' ?f),
      ls_out := (ls_out (us_lossy log s))(?f := ls_out (us_lossy log s) ?f @ [um_view msg])\<rparr>"
    using flight(2) out by (auto simp: us_lossy_def fun_eq_iff)
  then have "lossy_step (us_lossy log s) (us_lossy log s')"
    using lossy_step.leave [of "us_lossy log s" ?f "um_view msg" "us_flight s' ?f"] flight(1) by (simp add: us_lossy_def)
  then show ?thesis using assms(2) by (simp add: sent(8))
next
  case (failed ept e' x n)
  have "ue_send_queue e' = ue_send_queue ept" "ue_recv_queue e' = ue_recv_queue ept"
    using failed(4) by (auto simp: ue_stop_def)
  then show ?thesis
    using assms(2) us_put_same [of "s\<lparr>us_x := x, us_sends := Suc (us_sends s), us_inits := n\<rparr>" key ept e'] failed(2)
    by (auto simp: failed(5) intro: us_same)
qed

lemma us_send_loop_leave:
  "us_send_loop n env key s = Inr s' \<Longrightarrow> us_new s = [] \<Longrightarrow>
     lossy_step\<^sup>*\<^sup>* (us_lossy log s) (us_lossy log s') \<and> us_new s' = []"
proof (induction n arbitrary: s)
  case (Suc n)
  then obtain go s1 where one: "us_send_one env key s = Inr (go, s1)"
    and rest: "(if go then us_send_loop n env key s1 else Inr s1) = Inr s'"
    by (auto simp: result_simps)
  from us_send_one_leave [OF one Suc.prems(2), of log] rest Suc.IH [of s1] show ?case
    by (cases go) (auto intro: converse_rtranclp_into_rtranclp)
qed simp

lemma us_send_at_leave:
  "us_send_at env key s = Inr s' \<Longrightarrow> us_new s = [] \<Longrightarrow>
     lossy_step\<^sup>*\<^sup>* (us_lossy log s) (us_lossy log s') \<and> us_new s' = []"
  by (auto simp: us_send_at_def simp del: us_send_loop.simps split: option.splits dest: us_send_loop_leave)

section \<open>Every step of the server\<close>

lemma lossy_refl: "lossy_step c c"
  using lossy_step.lose [of "ls_flight c" c] by simp

lemma us_tick_lossy:
  assumes "us_tick env tmo now t0 s = Inr (t, s')" and ok: "us_maps_ok s" and new: "us_new s = []"
  shows "lossy_step\<^sup>*\<^sup>* (us_lossy log s) (us_lossy log s') \<and> us_new s' = []"
proof (cases "now - t0 \<le> 0")
  case True
  with assms show ?thesis by (auto simp: us_tick_def Let_def)
next
  case False
  define a where "a = s\<lparr>us_new := []\<rparr>"
  have as: "a = s" using new by (simp add: a_def)
  obtain b where b: "us_each (us_recv_at env now (now - t0) (now - tmo)) (smap_keys (us_endpoints a)) a = Inr b"
    and c: "us_each (us_send_at env) (smap_keys (smap_insert_all (us_new b) (us_endpoints b)))
      (b\<lparr>us_endpoints := smap_insert_all (us_new b) (us_endpoints b), us_new := []\<rparr>) = Inr s'"
    using assms(1) False by (auto simp: us_tick_def Let_def result_simps a_def)
  define d where "d = b\<lparr>us_endpoints := smap_insert_all (us_new b) (us_endpoints b), us_new := []\<rparr>"
  have "us_maps_ok b \<and> (\<forall>f. subseq (us_flight b f) (us_flight s f)) \<and> us_sent b = us_sent s"
    by (rule us_each_inv [OF b, where P = "\<lambda>b. us_maps_ok b \<and> (\<forall>f. subseq (us_flight b f) (us_flight s f)) \<and> us_sent b = us_sent s"])
       (use ok as in \<open>auto dest: us_recv_at_lose us_recv_at_maps intro: subseq_order.trans\<close>)
  moreover have "subseq (us_flight d f) (us_flight b f)" for f unfolding d_def by (rule us_merge_lose)
  ultimately have "\<And>f. subseq (us_flight d f) (us_flight s f)" "us_sent d = us_sent s"
    using subseq_order.trans by (blast, simp add: d_def)
  then have sd: "lossy_step (us_lossy log s) (us_lossy log d)" by (rule us_lose)
  have "lossy_step\<^sup>*\<^sup>* (us_lossy log d) (us_lossy log s') \<and> us_new s' = []"
    by (rule us_each_inv [OF c [folded d_def], where P = "\<lambda>s'. lossy_step\<^sup>*\<^sup>* (us_lossy log d) (us_lossy log s') \<and> us_new s' = []"])
       (auto simp: d_def dest!: us_send_at_leave [where log = log] intro: rtranclp_trans)
  with sd show ?thesis by (auto intro: converse_rtranclp_into_rtranclp)
qed

lemma ue_handleRecv_queues:
  assumes "ue_recving_msg e = new_udp_msg_buffer" and "length data \<le> UDP_BUFFER_SIZE"
  shows "ue_send_queue (ue_handleRecv r clock roll Success src data (ue_received e)) = ue_send_queue e"
    and "(\<forall>a. q_from a (ue_recv_queue (ue_handleRecv r clock roll Success src data (ue_received e))) = q_from a (ue_recv_queue e)) \<or>
      (\<forall>a. q_from a (ue_recv_queue (ue_handleRecv r clock roll Success src data (ue_received e))) =
         q_from a (ue_recv_queue e) @ (if a = src then [data] else []))"
  using new_buffer_read [OF assms(2)] assms(1)
  by (auto simp: ue_handleRecv_def ue_received_def ue_asyncRecv_def um_view_def Let_def)

text \<open>Between steps no socket is among the new ones.\<close>

definition udp_quiet :: "'a::linorder udp_world \<Rightarrow> bool" where
  "udp_quiet w \<longleftrightarrow> udp_inv w \<and> us_new (uw_s w) = []"

lemma us_recv_lossy:
  assumes "\<And>g. subseq (us_flight s' g) (us_flight s g @ (if g = (k, src) then [bs] else []))" and "us_sent s' = us_sent s"
  shows "lossy_step\<^sup>*\<^sup>* (us_lossy log s) (us_lossy (log @ [(k, src, bs)]) s')"
proof -
  let ?c = "us_lossy log s"
  let ?d = "?c\<lparr>ls_in := (ls_in ?c)((k, src) := ls_in ?c (k, src) @ [bs]),
    ls_flight := (ls_flight ?c)((k, src) := ls_flight ?c (k, src) @ [bs])\<rparr>"
  have "lossy_step ?c ?d" by (rule lossy_step.enter)
  moreover have "lossy_step ?d (?d\<lparr>ls_flight := us_flight s'\<rparr>)"
  proof (rule lossy_step.lose)
    show "subseq (us_flight s' g) (ls_flight ?d g)" for g
      using assms(1) [of g] by (simp add: us_lossy_def split: if_splits)
  qed
  moreover have "udp_in (log @ [(k, src, bs)]) = (udp_in log)((k, src) := udp_in log (k, src) @ [bs])"
    by (auto simp: udp_in_def fun_eq_iff)
  then have "?d\<lparr>ls_flight := us_flight s'\<rparr> = us_lossy (log @ [(k, src, bs)]) s'"
    using assms(2) by (simp add: us_lossy_def us_out_def [abs_def])
  ultimately show ?thesis
    by (metis (no_types) r_into_rtranclp rtranclp.rtrancl_into_rtrancl)
qed

lemma us_put_recv:
  assumes e: "smap_find (us_endpoints s) k = Some e" and fresh: "ue_recving_msg e = new_udp_msg_buffer"
    and len: "length data \<le> UDP_BUFFER_SIZE" and new: "recv_flow (us_new s) (k, src) = []"
  shows "subseq (us_flight (us_put k (ue_handleRecv r clock roll Success src data (ue_received e)) s) f)
    (us_flight s f @ (if f = (k, src) then [data] else []))"
proof -
  let ?es = "us_endpoints s" and ?e = "ue_handleRecv r clock roll Success src data (ue_received e)"
  note h = ue_handleRecv_queues [OF fresh len, of r clock roll src]
  have "(if snd f = k then q_from (fst f) (ue_send_queue ?e) else send_flow ?es f) = send_flow ?es f"
    using h(1) e by (simp add: send_flow_def)
  moreover have "subseq ((if fst f = k then q_from (snd f) (ue_recv_queue ?e) else recv_flow ?es f) @ recv_flow (us_new s) f)
      ((recv_flow ?es f @ recv_flow (us_new s) f) @ (if f = (k, src) then [data] else []))"
    using h(2) e new by (cases f) (auto simp: recv_flow_def subseq_rev_drop_many split: if_splits)
  ultimately show ?thesis
    unfolding us_flight_put by (simp add: us_flight_def subseq_append' split del: if_split)
qed

lemma udp_lossy_own:
  assumes inv: "udp_inv w" and new: "us_new (uw_s w) = []" and "udp_own w w'"
  shows "lossy_step\<^sup>*\<^sup>* (udp_lossy w) (udp_lossy w') \<and> us_new (uw_s w') = []"
  using assms(3)
proof cases
  case (recv k e data src r clock roll)
  let ?e = "ue_handleRecv r clock roll Success src data (ue_received e)"
  have "ue_ok e" using inv recv(2) by (auto simp: udp_inv_def dest: uei.all_ok_find)
  then have fresh: "ue_recving_msg e = new_udp_msg_buffer" by (simp add: ue_ok_def)
  have "recv_flow (us_new (uw_s w)) (k, src) = []" using new by simp
  from us_put_recv [OF recv(2) fresh recv(4) this]
  have "subseq (us_flight (us_put k ?e (uw_s w)) f) (us_flight (uw_s w) f @ (if f = (k, src) then [data] else []))" for f .
  from us_recv_lossy [OF this] show ?thesis using new by (simp add: recv(1) udp_lossy_def)
next
  case (recv_error k e error r clock roll src)
  let ?e = "ue_handleRecv r clock roll error src [] (ue_received e)"
  have "ue_send_queue ?e = ue_send_queue e" "ue_recv_queue ?e = ue_recv_queue e"
    using recv_error(4) by (simp_all add: ue_handleRecv_def ue_received_def ue_asyncRecv_def ue_stop_def Let_def)
  then have "us_flight (us_put k ?e (uw_s w)) = us_flight (uw_s w)" by (rule us_put_same [OF recv_error(2)])
  from us_same [OF this] show ?thesis using new by (auto simp: recv_error(1) udp_lossy_def)
next
  case (tick env timeout now t s)
  have "us_maps_ok (uw_s w)" using inv by (simp add: udp_inv_def uei.all_ok_def)
  from us_tick_lossy [OF tick(2) this new] show ?thesis by (simp add: tick(1) udp_lossy_def)
qed

lemma udp_lossy_step:
  assumes q: "udp_quiet w" and "udp_step w w'"
  shows "lossy_step\<^sup>*\<^sup>* (udp_lossy w) (udp_lossy w') \<and> udp_quiet w'"
proof -
  have inv: "udp_inv w" and new: "us_new (uw_s w) = []" using q by (simp_all add: udp_quiet_def)
  then have ok: "us_maps_ok (uw_s w)" by (simp add: udp_inv_def uei.all_ok_def)
  have inv': "udp_inv w'" using inv assms(2) by (rule udp_inv_step)
  from assms(2) have "lossy_step\<^sup>*\<^sup>* (udp_lossy w) (udp_lossy w') \<and> us_new (uw_s w') = []"
  proof cases
    case (add r rule s)
    obtain e x where n: "ue_new r rule (us_x (uw_s w)) = (e, x)" by force
    note q = ue_new_queues(1,2) [OF n]
    obtain y where s: "s = (us_put (ur_dst_endpoint rule) e (uw_s w))\<lparr>us_x := y\<rparr>"
      using add(2) n by (auto simp: us_addServerProxy_def result_simps)
    have "subseq (us_flight s f) (us_flight (uw_s w) f)" for f
      using us_put_lose [of e "uw_s w" "ur_dst_endpoint rule" f] q by (simp add: s)
    then have "lossy_step (us_lossy (uw_log w) (uw_s w)) (us_lossy (uw_log w) s)"
      by (rule us_lose) (simp add: s)
    then show ?thesis using new by (auto simp: add(1) udp_lossy_def s)
  next
    case own
    then show ?thesis by (rule udp_lossy_own [OF inv new])
  next
    case (others x)
    have "udp_lossy w' = udp_lossy w"
      by (simp add: others udp_lossy_def us_lossy_def us_out_def [abs_def])
    then show ?thesis using new by (simp add: others)
  qed
  then show ?thesis using inv' by (simp add: udp_quiet_def)
qed

interpretation udq: step_invariant "udp_init_world :: 'a::linorder udp_world \<Rightarrow> bool" udp_step udp_quiet
proof
  show "udp_init_world w \<Longrightarrow> udp_quiet w" for w :: "'a udp_world"
    using udp_inv_init [of w] by (simp add: udp_quiet_def udp_init_world_def)
  show "udp_quiet w \<Longrightarrow> udp_step w w' \<Longrightarrow> udp_quiet w'" for w w' :: "'a udp_world"
    using udp_lossy_step by blast
qed

section \<open>The promise\<close>


text \<open>The answer of the destination has been received, and the tick at 40 sends it.\<close>

definition demo_answered :: "nat udp_world" where
  "demo_answered = udp_do_recv demo_client demo_dst [3] (udp_do_tick demo_env 20 demo_u1)"


lemma udp_reach_lossy_ok: "reachable udp_init_world udp_step w \<Longrightarrow> lossy_ok (udp_lossy w)"
proof (induction rule: reachable.induct)
  case (reach_init w)
  then show ?case
    by (simp add: udp_init_world_def lossy_ok_def udp_lossy_def us_lossy_def us_out_def us_flight_def
        send_flow_def recv_flow_def)
next
  case (reach_step w w')
  then show ?case using lossy_steps_ok udp_lossy_step [OF udq.reachable_inv] by blast
qed

text \<open>
  Datagrams stay in order (\<open>udp_proxy.cpp\<close>): in every reachable state, for every socket \<open>k\<close>
  and address \<open>src\<close>, the datagrams that were sent on behalf of \<open>src\<close> to \<open>k\<close>, followed by those
  that still wait, are a subsequence of the datagrams received on \<open>k\<close> from \<open>src\<close>: some may be
  lost, none is reordered, repeated or altered.
\<close>

lemma udp_in_order:
  assumes "reachable udp_init_world udp_step w"
  shows "subseq (us_out (uw_s w) (k, src) @ us_flight (uw_s w) (k, src)) (udp_in (uw_log w) (k, src))"
  using udp_reach_lossy_ok [OF assms] by (simp add: lossy_ok_def udp_lossy_def us_lossy_def)

lemma udp_in_order_witness:
  "subseq (us_out (uw_s demo_u2) (demo_dst, demo_client) @ us_flight (uw_s demo_u2) (demo_dst, demo_client))
     (udp_in (uw_log demo_u2) (demo_dst, demo_client)) \<and>
   us_out (uw_s demo_u2) (demo_dst, demo_client) = [[1, 2]]"
proof
  show "us_out (uw_s demo_u2) (demo_dst, demo_client) = [[1, 2]]" by code_simp
qed (rule udp_in_order [OF demo_u2_reach])

end
