(* ===== verification/Udp_Threads.thy ===== *)
theory Udp_Threads
  imports Udp_Order
begin

text \<open>
  The UDP server with its threads. The routine thread of \<open>udp_proxy.cpp\<close> holds the mutex of one
  socket at a time, so the handler of a receive on any other socket can run in the middle of a
  tick, also on a socket the tick has only just made. Here a step of the routine thread is one
  turn of an inner loop, and receives come between any two. A whole tick as in \<open>us_tick\<close> is
  one of the runs, and what \<open>Udp_Props\<close> and \<open>Udp_Order\<close> prove of whole ticks holds of all runs.
\<close>

section \<open>Sockets of either map\<close>

text \<open>During the first pass a socket is in \<open>endpoints\<close> or in \<open>new_epts\<close>.\<close>

definition us_find :: "'a::linorder udp_server \<Rightarrow> 'a endpoint \<Rightarrow> 'a udp_ept option" where
  "us_find s k = (case smap_find (us_endpoints s) k of Some e \<Rightarrow> Some e | None \<Rightarrow> smap_find (us_new s) k)"

definition us_store :: "'a::linorder endpoint \<Rightarrow> 'a udp_ept \<Rightarrow> 'a udp_server \<Rightarrow> 'a udp_server" where
  "us_store k e s =
     (if smap_find (us_endpoints s) k \<noteq> None then us_put k e s else s\<lparr>us_new := smap_put k e (us_new s)\<rparr>)"

section \<open>The routine thread\<close>

text \<open>
  Where the thread is, with its local variables: asleep or at the head of its loop; before the
  next socket of the first pass (\<open>interval\<close>, \<open>active_timeout_tm\<close>, \<open>now\<close> and the sockets ahead);
  inside the loop over the receive queue of a socket, whose mutex it holds; the same for the
  second pass; in the loop that stops every socket; at its end.
\<close>

datatype 'a udp_pc =
    Sleeping
  | Receiving msec msec msec "'a endpoint list"
  | Receiving_in msec msec msec "'a endpoint" "'a endpoint list"
  | Sending "'a endpoint list"
  | Sending_in "'a endpoint" "'a endpoint list"
  | Stopping "'a endpoint list"
  | Finished

record 'a udp_thread =
  ut_w :: "'a udp_world"
  ut_pc :: "'a udp_pc"

text \<open>The head of the first pass at one socket: erase it, or top its allowances up and go on.\<close>

definition us_recv_enter :: "msec \<Rightarrow> msec \<Rightarrow> 'a::linorder endpoint \<Rightarrow> 'a udp_server \<Rightarrow> failure + (bool \<times> 'a udp_server)" where
  "us_recv_enter interval active_timeout_tm key s =
     (case smap_find (us_endpoints s) key of
        None \<Rightarrow> Inl Dangling_deref
      | Some ept \<Rightarrow>
          if ue_active_tm ept = 0 \<or> (ue_active_tm ept < active_timeout_tm \<and> \<not> ue_server_flag ept)
          then and_then (ue_delete ept (us_x s)) (\<lambda>x.
                 Inr (False, s\<lparr>us_endpoints := smap_erase key (us_endpoints s), us_x := x\<rparr>))
          else
            let bytes = i32 (interval * ur_max_bandwidth (ue_rule ept) sdiv 1000)
            in Inr (True, us_put key (ue_refill bytes ept) s))"

text \<open>\<open>endpoints.insert(new_epts.begin(), new_epts.end())\<close>.\<close>

definition us_merge :: "'a::linorder udp_server \<Rightarrow> 'a udp_server" where
  "us_merge s = s\<lparr>us_endpoints := smap_insert_all (us_new s) (us_endpoints s), us_new := []\<rparr>"

definition us_stop_at :: "'a::linorder endpoint \<Rightarrow> 'a udp_server \<Rightarrow> failure + 'a udp_server" where
  "us_stop_at key s =
     (case smap_find (us_endpoints s) key of
        None \<Rightarrow> Inl Dangling_deref
      | Some ept \<Rightarrow> Inr (us_put key (ue_stop ept) s))"

definition ut_goto :: "'a udp_thread \<Rightarrow> 'a udp_server \<Rightarrow> 'a udp_pc \<Rightarrow> 'a udp_thread" where
  "ut_goto t s pc = t\<lparr>ut_w := (ut_w t)\<lparr>uw_s := s\<rparr>, ut_pc := pc\<rparr>"

text \<open>
  The next step of \<open>routineThreadHandler\<close>. \<open>running\<close> is \<open>args.running_flag\<close> and \<open>now\<close> the clock,
  both read at the head of the loop only.
\<close>

definition ut_next :: "udp_env \<Rightarrow> msec \<Rightarrow> bool \<Rightarrow> msec \<Rightarrow> 'a::linorder udp_thread \<Rightarrow> failure + 'a udp_thread" where
  "ut_next env udp_timeout running now t =
     (let s = uw_s (ut_w t) in
      case ut_pc t of
        Sleeping \<Rightarrow>
          if \<not> running then Inr (ut_goto t s (Stopping (smap_keys (us_endpoints s))))
          else let interval = now - uw_last (ut_w t) in
          if interval \<le> 0 then Inr t
          else Inr (ut_goto (t\<lparr>ut_w := (ut_w t)\<lparr>uw_last := now\<rparr>\<rparr>) (s\<lparr>us_new := []\<rparr>)
                 (Receiving interval (now - udp_timeout) now (smap_keys (us_endpoints s))))
      | Receiving interval active_timeout_tm tick_now (k # ks) \<Rightarrow>
          and_then (us_recv_enter interval active_timeout_tm k s) (\<lambda>(go, s).
            Inr (ut_goto t s (if go then Receiving_in interval active_timeout_tm tick_now k ks
                              else Receiving interval active_timeout_tm tick_now ks)))
      | Receiving interval active_timeout_tm tick_now [] \<Rightarrow>
          let s = us_merge s in Inr (ut_goto t s (Sending (smap_keys (us_endpoints s))))
      | Receiving_in interval active_timeout_tm tick_now k ks \<Rightarrow>
          and_then (us_recv_one env tick_now k s) (\<lambda>(go, s).
            Inr (ut_goto t s (if go then ut_pc t else Receiving interval active_timeout_tm tick_now ks)))
      | Sending (k # ks) \<Rightarrow> Inr (ut_goto t s (Sending_in k ks))
      | Sending [] \<Rightarrow> Inr (ut_goto t s Sleeping)
      | Sending_in k ks \<Rightarrow>
          and_then (us_send_one env k s) (\<lambda>(go, s).
            Inr (ut_goto t s (if go then ut_pc t else Sending ks)))
      | Stopping (k # ks) \<Rightarrow> and_then (us_stop_at k s) (\<lambda>s. Inr (ut_goto t s (Stopping ks)))
      | Stopping [] \<Rightarrow> Inr (ut_goto t s Finished)
      | Finished \<Rightarrow> Inr t)"

text \<open>The sockets the thread still visits, and the one whose mutex it holds.\<close>

fun pc_keys :: "'a udp_pc \<Rightarrow> 'a endpoint list" where
  "pc_keys (Receiving _ _ _ ks) = ks"
| "pc_keys (Receiving_in _ _ _ k ks) = k # ks"
| "pc_keys (Sending ks) = ks"
| "pc_keys (Sending_in k ks) = k # ks"
| "pc_keys (Stopping ks) = ks"
| "pc_keys _ = []"

fun pc_locked :: "'a udp_pc \<Rightarrow> 'a endpoint option" where
  "pc_locked (Receiving_in _ _ _ k _) = Some k"
| "pc_locked (Sending_in k _) = Some k"
| "pc_locked _ = None"

fun pc_first :: "'a udp_pc \<Rightarrow> bool" where
  "pc_first (Receiving _ _ _ _) = True"
| "pc_first (Receiving_in _ _ _ _ _) = True"
| "pc_first _ = False"

section \<open>Steps\<close>

text \<open>
  The handler of a receive takes the mutex of its socket; only that of an error which just
  receives again, or returns, does not.
\<close>

definition unlocked_error :: "error_code \<Rightarrow> bool" where
  "unlocked_error error \<longleftrightarrow> error \<in> {Connection_refused, Connection_reset, Operation_aborted}"

inductive ut_own :: "'a::linorder udp_thread \<Rightarrow> 'a udp_thread \<Rightarrow> bool" where
  recv: "us_find (uw_s (ut_w t)) k = Some e \<Longrightarrow> 0 < ue_receives e \<Longrightarrow> length data \<le> UDP_BUFFER_SIZE \<Longrightarrow>
     pc_locked (ut_pc t) \<noteq> Some k \<Longrightarrow>
     ut_own t (t\<lparr>ut_w := (ut_w t)\<lparr>uw_s := us_store k (ue_handleRecv r clock roll Success src data (ue_received e)) (uw_s (ut_w t)),
       uw_log := uw_log (ut_w t) @ [(k, src, data)]\<rparr>\<rparr>)"
| recv_error: "us_find (uw_s (ut_w t)) k = Some e \<Longrightarrow> 0 < ue_receives e \<Longrightarrow> error \<noteq> Success \<Longrightarrow>
     pc_locked (ut_pc t) \<noteq> Some k \<or> unlocked_error error \<Longrightarrow>
     ut_own t (t\<lparr>ut_w := (ut_w t)\<lparr>uw_s := us_store k (ue_handleRecv r clock roll error src [] (ue_received e)) (uw_s (ut_w t))\<rparr>\<rparr>)"
| routine: "ut_next env timeout running now t = Inr t' \<Longrightarrow> ut_own t t'"

inductive ut_step :: "'a::linorder udp_thread \<Rightarrow> 'a udp_thread \<Rightarrow> bool" where
  own: "ut_own t t' \<Longrightarrow> ut_step t t'"
| others: "ut_step t (t\<lparr>ut_w := (ut_w t)\<lparr>uw_s := (uw_s (ut_w t))\<lparr>us_x := x\<rparr>\<rparr>\<rparr>)"

text \<open>The thread starts in a state that the configuration, or earlier ticks, have reached.\<close>

definition ut_init :: "'a::linorder udp_thread \<Rightarrow> bool" where
  "ut_init t \<longleftrightarrow> ut_pc t = Sleeping \<and> reachable udp_init_world udp_step (ut_w t)"

abbreviation ut_reach :: "'a::linorder udp_thread \<Rightarrow> bool" where
  "ut_reach \<equiv> reachable ut_init ut_step"

lemma ut_goto_sel [simp]:
  "ut_pc (ut_goto t s pc) = pc" "uw_s (ut_w (ut_goto t s pc)) = s"
  "uw_log (ut_w (ut_goto t s pc)) = uw_log (ut_w t)" "uw_last (ut_w (ut_goto t s pc)) = uw_last (ut_w t)"
  by (simp_all add: ut_goto_def)

lemma ut_goto_goto [simp]: "ut_goto (ut_goto t s pc) s' pc' = ut_goto t s' pc'"
  by (simp add: ut_goto_def)

text \<open>The ways a step of the routine thread can go.\<close>

lemma ut_next_cases:
  assumes "ut_next env timeout running now t = Inr t'"
  obtains (stay) "t' = t"
  | (stop) "ut_pc t = Sleeping" "t' = ut_goto t (uw_s (ut_w t)) (Stopping (smap_keys (us_endpoints (uw_s (ut_w t)))))"
  | (start) "ut_pc t = Sleeping" "0 < now - uw_last (ut_w t)"
      "t' = ut_goto (t\<lparr>ut_w := (ut_w t)\<lparr>uw_last := now\<rparr>\<rparr>) ((uw_s (ut_w t))\<lparr>us_new := []\<rparr>)
         (Receiving (now - uw_last (ut_w t)) (now - timeout) now (smap_keys (us_endpoints (uw_s (ut_w t)))))"
  | (enter) iv tmo n k ks go s where "ut_pc t = Receiving iv tmo n (k # ks)" "us_recv_enter iv tmo k (uw_s (ut_w t)) = Inr (go, s)"
      "t' = ut_goto t s (if go then Receiving_in iv tmo n k ks else Receiving iv tmo n ks)"
  | (merge) iv tmo n where "ut_pc t = Receiving iv tmo n []"
      "t' = ut_goto t (us_merge (uw_s (ut_w t))) (Sending (smap_keys (us_endpoints (us_merge (uw_s (ut_w t))))))"
  | (take) iv tmo n k ks go s where "ut_pc t = Receiving_in iv tmo n k ks" "us_recv_one env n k (uw_s (ut_w t)) = Inr (go, s)"
      "t' = ut_goto t s (if go then ut_pc t else Receiving iv tmo n ks)"
  | (visit) k ks where "ut_pc t = Sending (k # ks)" "t' = ut_goto t (uw_s (ut_w t)) (Sending_in k ks)"
  | (sleep) "ut_pc t = Sending []" "t' = ut_goto t (uw_s (ut_w t)) Sleeping"
  | (put) k ks go s where "ut_pc t = Sending_in k ks" "us_send_one env k (uw_s (ut_w t)) = Inr (go, s)"
      "t' = ut_goto t s (if go then ut_pc t else Sending ks)"
  | (close) k ks e where "ut_pc t = Stopping (k # ks)" "smap_find (us_endpoints (uw_s (ut_w t))) k = Some e"
      "t' = ut_goto t (us_put k (ue_stop e) (uw_s (ut_w t))) (Stopping ks)"
  | (finish) "ut_pc t = Stopping []" "t' = ut_goto t (uw_s (ut_w t)) Finished"
proof (cases "ut_pc t")
  case Sleeping
  with assms show thesis by (auto simp: ut_next_def Let_def split: if_splits intro: stay stop start)
next
  case (Receiving iv tmo n ks)
  with assms show thesis
    by (cases ks) (auto simp: ut_next_def Let_def result_simps split: if_splits intro: enter merge)
next
  case (Receiving_in iv tmo n k ks)
  with assms show thesis by (auto simp: ut_next_def Let_def result_simps intro: take)
next
  case (Sending ks)
  with assms show thesis by (cases ks) (auto simp: ut_next_def Let_def intro: visit sleep)
next
  case (Sending_in k ks)
  with assms show thesis by (auto simp: ut_next_def Let_def result_simps intro: put)
next
  case (Stopping ks)
  with assms show thesis
    by (cases ks) (auto simp: ut_next_def us_stop_at_def Let_def result_simps split: option.splits intro: close finish)
next
  case Finished
  with assms show thesis by (auto simp: ut_next_def Let_def intro: stay)
qed

section \<open>A whole tick is a run\<close>

abbreviation ut_runs :: "udp_env \<Rightarrow> msec \<Rightarrow> 'a::linorder udp_thread \<Rightarrow> 'a udp_thread \<Rightarrow> bool" where
  "ut_runs env timeout \<equiv> (\<lambda>t t'. \<exists>running now. ut_next env timeout running now t = Inr t')\<^sup>*\<^sup>*"

lemma ut_runs_step: "ut_next env timeout True now t = Inr t1 \<Longrightarrow> ut_runs env timeout t1 t' \<Longrightarrow> ut_runs env timeout t t'"
  by (rule converse_rtranclp_into_rtranclp) auto

lemma ut_runs_own: "ut_runs env timeout t t' \<Longrightarrow> ut_own\<^sup>*\<^sup>* t t'"
  by (induction rule: rtranclp_induct) (auto intro: ut_own.routine rtranclp.rtrancl_into_rtrancl)

lemma ut_take_step:
  "us_recv_one env n k s = Inr (go, s') \<Longrightarrow> ut_next env timeout running now (ut_goto t s (Receiving_in iv tmo n k ks)) =
     Inr (ut_goto t s' (if go then Receiving_in iv tmo n k ks else Receiving iv tmo n ks))"
  by (simp add: ut_next_def)

lemma ut_put_step:
  "us_send_one env k s = Inr (go, s') \<Longrightarrow> ut_next env timeout running now (ut_goto t s (Sending_in k ks)) =
     Inr (ut_goto t s' (if go then Sending_in k ks else Sending ks))"
  by (simp add: ut_next_def)

lemma us_recv_loop_runs:
  "us_recv_loop m env n k s = Inr s' \<Longrightarrow> smap_find (us_endpoints s) k = Some e \<Longrightarrow> length (ue_recv_queue e) < m \<Longrightarrow>
     ut_runs env timeout (ut_goto t s (Receiving_in iv tmo n k ks)) (ut_goto t s' (Receiving iv tmo n ks))"
proof (induction m arbitrary: s e)
  case (Suc m)
  then obtain go s1 where one: "us_recv_one env n k s = Inr (go, s1)"
    and rest: "(if go then us_recv_loop m env n k s1 else Inr s1) = Inr s'"
    by (auto simp: result_simps)
  note step = ut_take_step [OF one, of timeout True 0 t iv tmo ks]
  show ?case
  proof (cases go)
    case False
    then show ?thesis using ut_runs_step [OF step] rest by simp
  next
    case True
    with one obtain ept msg ms x s2 where moved: "smap_find (us_endpoints s) k = Some ept"
      "ue_recv_queue ept = msg # ms" "s1 = us_put k (ue_pop_recv (ue_cost msg) ept) s2"
      by (cases rule: us_recv_one_cases) auto
    have "ut_runs env timeout (ut_goto t s1 (Receiving_in iv tmo n k ks)) (ut_goto t s' (Receiving iv tmo n ks))"
      by (rule Suc.IH [of s1 "ue_pop_recv (ue_cost msg) ept"])
        (use rest True moved Suc.prems(2,3) in \<open>auto simp: smap_find_put\<close>)
    then show ?thesis using ut_runs_step [OF step] True by simp
  qed
qed simp

lemma us_send_loop_runs:
  "us_send_loop m env k s = Inr s' \<Longrightarrow> smap_find (us_endpoints s) k = Some e \<Longrightarrow> length (ue_send_queue e) < m \<Longrightarrow>
     ut_runs env timeout (ut_goto t s (Sending_in k ks)) (ut_goto t s' (Sending ks))"
proof (induction m arbitrary: s e)
  case (Suc m)
  then obtain go s1 where one: "us_send_one env k s = Inr (go, s1)"
    and rest: "(if go then us_send_loop m env k s1 else Inr s1) = Inr s'"
    by (auto simp: result_simps)
  note step = ut_put_step [OF one, of timeout True 0 t ks]
  show ?case
  proof (cases go)
    case False
    then show ?thesis using ut_runs_step [OF step] rest by simp
  next
    case True
    with one obtain ept msg ms x where sent: "smap_find (us_endpoints s) k = Some ept" "ue_send_queue ept = msg # ms"
      "smap_find (us_endpoints s1) k = Some ((ue_charge_send (ue_cost msg) ept)\<lparr>ue_send_queue := ms\<rparr>)"
      by (cases rule: us_send_one_cases) (auto simp: smap_find_put)
    have "ut_runs env timeout (ut_goto t s1 (Sending_in k ks)) (ut_goto t s' (Sending ks))"
      by (rule Suc.IH [OF _ sent(3)]) (use rest True sent(1,2) Suc.prems(2,3) in auto)
    then show ?thesis using ut_runs_step [OF step] True by simp
  qed
qed simp

lemma us_recv_at_runs:
  assumes "us_recv_at env n iv tmo k s = Inr s'"
  shows "ut_runs env timeout (ut_goto t s (Receiving iv tmo n (k # ks))) (ut_goto t s' (Receiving iv tmo n ks))"
proof -
  obtain e where e: "smap_find (us_endpoints s) k = Some e"
    using assms by (auto simp: us_recv_at_def split: option.splits)
  have next': "us_recv_enter iv tmo k s = Inr (go, s1) \<Longrightarrow> ut_next env timeout True 0 (ut_goto t s (Receiving iv tmo n (k # ks))) =
     Inr (ut_goto t s1 (if go then Receiving_in iv tmo n k ks else Receiving iv tmo n ks))" for go s1
    by (simp add: ut_next_def)
  show ?thesis
  proof (cases "ue_active_tm e = 0 \<or> (ue_active_tm e < tmo \<and> \<not> ue_server_flag e)")
    case True
    then have "us_recv_enter iv tmo k s = Inr (False, s')"
      using assms e by (auto simp: us_recv_at_def us_recv_enter_def result_simps split: if_splits)
    from ut_runs_step [OF next' [OF this]] show ?thesis by simp
  next
    case False
    define e1 where "e1 = ue_refill (i32 (iv * ur_max_bandwidth (ue_rule e) sdiv 1000)) e"
    have enter: "us_recv_enter iv tmo k s = Inr (True, us_put k e1 s)"
      using e False by (auto simp: us_recv_enter_def e1_def Let_def)
    have "us_recv_loop (Suc (length (ue_recv_queue e))) env n k (us_put k e1 s) = Inr s'"
      using assms e False by (simp add: us_recv_at_def e1_def Let_def del: us_recv_loop.simps)
    then have "ut_runs env timeout (ut_goto t (us_put k e1 s) (Receiving_in iv tmo n k ks)) (ut_goto t s' (Receiving iv tmo n ks))"
      by (rule us_recv_loop_runs [where e = e1]) (simp_all add: smap_find_put e1_def)
    then show ?thesis using ut_runs_step [OF next' [OF enter]] by simp
  qed
qed

lemma us_send_at_runs:
  assumes "us_send_at env k s = Inr s'"
  shows "ut_runs env timeout (ut_goto t s (Sending (k # ks))) (ut_goto t s' (Sending ks))"
proof -
  obtain e where e: "smap_find (us_endpoints s) k = Some e"
    and loop: "us_send_loop (Suc (length (ue_send_queue e))) env k s = Inr s'"
    using assms by (auto simp: us_send_at_def simp del: us_send_loop.simps split: option.splits)
  have "ut_next env timeout True 0 (ut_goto t s (Sending (k # ks))) = Inr (ut_goto t s (Sending_in k ks))"
    by (simp add: ut_next_def)
  from ut_runs_step [OF this us_send_loop_runs [OF loop e]] show ?thesis by simp
qed

text \<open>A loop over keys whose turns are runs is a run.\<close>

lemma us_each_runs:
  assumes "\<And>k ks s s'. f k s = Inr s' \<Longrightarrow> ut_runs env timeout (ut_goto t s (pc (k # ks))) (ut_goto t s' (pc ks))"
  shows "us_each f ks s = Inr s' \<Longrightarrow> ut_runs env timeout (ut_goto t s (pc ks)) (ut_goto t s' (pc []))"
proof (induction ks arbitrary: s)
  case (Cons k ks)
  then obtain s1 where "f k s = Inr s1" "us_each f ks s1 = Inr s'" by (auto simp: result_simps)
  then show ?case using assms [of k s s1 ks] Cons.IH [of s1] by (auto intro: rtranclp_trans)
qed simp

lemma us_tick_runs:
  assumes "us_tick env timeout now (uw_last w) (uw_s w) = Inr (t1, s)"
  shows "ut_runs env timeout \<lparr>ut_w = w, ut_pc = Sleeping\<rparr> \<lparr>ut_w = w\<lparr>uw_s := s, uw_last := t1\<rparr>, ut_pc = Sleeping\<rparr>"
proof (cases "now - uw_last w \<le> 0")
  case True
  then have "w\<lparr>uw_s := s, uw_last := t1\<rparr> = w" using assms by (auto simp: us_tick_def Let_def)
  then show ?thesis by simp
next
  case False
  let ?iv = "now - uw_last w" and ?tmo = "now - timeout" and ?s = "(uw_s w)\<lparr>us_new := []\<rparr>"
  let ?t = "\<lparr>ut_w = w\<lparr>uw_last := now\<rparr>, ut_pc = Sleeping\<rparr>"
  obtain b where recv: "us_each (us_recv_at env now ?iv ?tmo) (smap_keys (us_endpoints ?s)) ?s = Inr b"
    and send: "us_each (us_send_at env) (smap_keys (us_endpoints (us_merge b))) (us_merge b) = Inr s" and l: "t1 = now"
    using assms False by (auto simp: us_tick_def us_merge_def Let_def result_simps)
  have s1: "ut_next env timeout True now \<lparr>ut_w = w, ut_pc = Sleeping\<rparr> =
      Inr (ut_goto ?t ?s (Receiving ?iv ?tmo now (smap_keys (us_endpoints ?s))))"
    using False by (simp add: ut_next_def ut_goto_def Let_def)
  have r1: "ut_runs env timeout (ut_goto ?t ?s (Receiving ?iv ?tmo now (smap_keys (us_endpoints ?s))))
      (ut_goto ?t b (Receiving ?iv ?tmo now []))"
    by (rule us_each_runs [OF us_recv_at_runs recv])
  have s2: "ut_next env timeout True now (ut_goto ?t b (Receiving ?iv ?tmo now [])) =
      Inr (ut_goto ?t (us_merge b) (Sending (smap_keys (us_endpoints (us_merge b)))))"
    by (simp add: ut_next_def Let_def)
  have r2: "ut_runs env timeout (ut_goto ?t (us_merge b) (Sending (smap_keys (us_endpoints (us_merge b)))))
      (ut_goto ?t s (Sending []))"
    by (rule us_each_runs [OF us_send_at_runs send])
  have s3: "ut_next env timeout True now (ut_goto ?t s (Sending [])) = Inr (ut_goto ?t s Sleeping)"
    by (simp add: ut_next_def)
  have e: "ut_goto ?t s Sleeping = \<lparr>ut_w = w\<lparr>uw_s := s, uw_last := t1\<rparr>, ut_pc = Sleeping\<rparr>"
    by (simp add: ut_goto_def l)
  from r2 ut_runs_step [OF s3 rtranclp.rtrancl_refl] have "ut_runs env timeout
      (ut_goto ?t (us_merge b) (Sending (smap_keys (us_endpoints (us_merge b))))) (ut_goto ?t s Sleeping)"
    by (rule rtranclp_trans)
  from rtranclp_trans [OF r1 ut_runs_step [OF s2 this]] show ?thesis unfolding e by (rule ut_runs_step [OF s1])
qed

section \<open>What every step keeps\<close>

text \<open>No socket is in both maps.\<close>

definition us_fresh :: "'a::linorder udp_server \<Rightarrow> bool" where
  "us_fresh s \<longleftrightarrow> (\<forall>k. smap_find (us_new s) k \<noteq> None \<longrightarrow> smap_find (us_endpoints s) k = None)"

lemma us_fresh_put: "us_fresh s \<Longrightarrow> smap_find (us_endpoints s) k \<noteq> None \<Longrightarrow> us_fresh (us_put k e s)"
  by (auto simp: us_fresh_def smap_find_put)

lemma us_route_keys:
  assumes "us_route env now key ept msg s = Inr s'" and fresh: "us_fresh s"
  shows "us_fresh s' \<and> (\<forall>j. smap_find (us_endpoints s') j = None \<longleftrightarrow> smap_find (us_endpoints s) j = None)"
proof (cases "smap_find (us_endpoints s) (um_src msg)")
  case (Some sender)
  with assms show ?thesis
    by (auto simp: us_route_def Let_def smap_find_put us_fresh_put split: if_splits)
next
  case None
  obtain sender x where new: "ue_new (uv_init env (us_inits s))
      ((ue_rule ept)\<lparr>ur_dst_endpoint := um_src msg, ur_src_port := 0\<rparr>) (us_x s) = (sender, x)" by force
  consider y e where "s' = s\<lparr>us_inits := Suc (us_inits s), us_x := y, us_new := smap_put (um_src msg) e (us_new s)\<rparr>"
    | y where "s' = s\<lparr>us_inits := Suc (us_inits s), us_x := y\<rparr>"
    using assms(1) None new
    by (cases "ue_active_tm sender \<noteq> 0") (auto simp: us_route_def Let_def result_simps)
  then show ?thesis by cases (use fresh None in \<open>auto simp: us_fresh_def smap_find_put split: if_splits\<close>)
qed

lemma us_recv_one_keys:
  assumes "us_recv_one env now key s = Inr (go, s')" and "us_fresh s"
  shows "us_fresh s' \<and> (\<forall>j. smap_find (us_endpoints s') j = None \<longleftrightarrow> smap_find (us_endpoints s) j = None)"
  using assms(1)
proof (cases rule: us_recv_one_cases)
  case (ended x)
  then show ?thesis using assms(2) by (simp add: us_fresh_def)
next
  case (moved ept msg ms x s1)
  have "us_fresh s1 \<and> (\<forall>j. smap_find (us_endpoints s1) j = None \<longleftrightarrow> smap_find (us_endpoints s) j = None)"
    using us_route_keys [OF moved(8)] assms(2) by (simp add: us_fresh_def)
  then show ?thesis using moved(2) by (auto simp: moved(9) smap_find_put us_fresh_put)
qed

lemma us_send_one_keys:
  assumes "us_send_one env key s = Inr (go, s')"
  shows "us_new s' = us_new s \<and> (\<forall>j. smap_find (us_endpoints s') j = None \<longleftrightarrow> smap_find (us_endpoints s) j = None)"
  using assms by (cases rule: us_send_one_cases) (auto simp: smap_find_put)

lemma us_recv_enter_cases:
  assumes "us_recv_enter iv tmo k s = Inr (go, s')"
  obtains (erase) e x where "\<not> go" "smap_find (us_endpoints s) k = Some e" "ue_delete e (us_x s) = Inr x"
      "s' = s\<lparr>us_endpoints := smap_erase k (us_endpoints s), us_x := x\<rparr>"
  | (refill) e n where "go" "smap_find (us_endpoints s) k = Some e" "s' = us_put k (ue_refill n e) s"
  using assms by (auto simp: us_recv_enter_def Let_def result_simps split: option.splits if_splits)

lemma us_store_sel [simp]:
  "us_x (us_store k e s) = us_x s" "us_sent (us_store k e s) = us_sent s"
  "smap_find (us_endpoints (us_store k e s)) j = None \<longleftrightarrow> smap_find (us_endpoints s) j = None"
  by (auto simp: us_store_def smap_find_put)

lemma us_find_store: "us_find (us_store k e s) j = (if j = k then Some e else us_find s j)"
  by (auto simp: us_find_def us_store_def smap_find_put split: option.splits)

context ept_invariant
begin

lemma all_ok_store: "all_ok s \<Longrightarrow> P e \<Longrightarrow> all_ok (us_store k e s)"
  by (auto simp: us_store_def all_ok_put) (auto simp: all_ok_def us_maps_ok_def smap_ok_put smap_find_put)

lemma all_ok_us_find: "all_ok s \<Longrightarrow> us_find s k = Some e \<Longrightarrow> P e"
  by (auto simp: us_find_def all_ok_def split: option.splits)

lemma all_ok_enter:
  assumes "us_recv_enter iv tmo k s = Inr (go, s')" and "all_ok s"
  shows "all_ok s'"
  using assms(1)
proof (cases rule: us_recv_enter_cases)
  case (erase e x)
  with assms(2) show ?thesis
    by (auto simp: all_ok_def us_maps_ok_def sm.ok_erase sm.find_erase split: if_splits)
next
  case (refill e n)
  with assms(2) show ?thesis by (auto intro: all_ok_put P_refill dest: all_ok_find)
qed

lemma all_ok_merge: "all_ok s \<Longrightarrow> all_ok (us_merge s)"
  by (auto simp: all_ok_def us_maps_ok_def us_merge_def smap_insert_all_ok smap_find_insert_all split: option.splits)

lemma all_ok_next:
  assumes "ut_next env timeout running now t = Inr t'" and ok: "all_ok (uw_s (ut_w t))"
  shows "all_ok (uw_s (ut_w t'))"
  using assms(1)
proof (cases rule: ut_next_cases)
  case start
  with ok show ?thesis by (simp add: all_ok_def us_maps_ok_def)
next
  case close
  with ok show ?thesis by (auto intro: all_ok_put P_stop dest: all_ok_find)
qed (use ok in \<open>auto intro: all_ok_merge dest: all_ok_enter all_ok_recv_one all_ok_send_one\<close>)

end

section \<open>Traffic and order\<close>

lemma us_store_traffic:
  assumes ok: "us_maps_ok s" and e: "us_find s k = Some e"
  shows "us_traffic (us_store k e' s) + ue_traffic k e = us_traffic s + ue_traffic k e'"
proof (cases "smap_find (us_endpoints s) k")
  case None
  then have "smap_find (us_new s) k = Some e" using e by (simp add: us_find_def)
  then show ?thesis
    using ok None by (simp add: us_store_def us_traffic_def us_maps_ok_def msum_put msum_erase ac_simps)
next
  case (Some d)
  then show ?thesis using us_traffic_put [OF ok Some, of e'] e by (simp add: us_store_def us_find_def)
qed

lemma us_recv_enter_traffic:
  assumes "us_recv_enter iv tmo k s = Inr (go, s')" and ok: "us_maps_ok s"
  shows "us_traffic s' \<subseteq># us_traffic s"
  using assms(1)
proof (cases rule: us_recv_enter_cases)
  case (erase e x)
  have "us_traffic s = ue_traffic k e + us_traffic s'"
    by (simp add: erase(4) us_traffic_def msum_erase [OF erase(2)] ac_simps)
  then show ?thesis by simp
next
  case (refill e n)
  then show ?thesis using us_put_le [OF ok refill(2)] ue_traffic_same [of "ue_refill n e" e k] by simp
qed

lemma us_merge_traffic: "us_maps_ok s \<Longrightarrow> us_traffic (us_merge s) \<subseteq># us_traffic s"
  using msum_insert_all [of "us_endpoints s" ue_traffic "us_new s"]
  by (simp add: us_merge_def us_traffic_def us_maps_ok_def ac_simps)

lemma us_recv_enter_lose:
  assumes "us_recv_enter iv tmo k s = Inr (go, s')" and ok: "us_maps_ok s"
  shows "subseq (us_flight s' f) (us_flight s f) \<and> us_sent s' = us_sent s"
  using assms(1)
proof (cases rule: us_recv_enter_cases)
  case (erase e x)
  then show ?thesis using us_erase_lose [OF ok, of k f] by simp
next
  case (refill e n)
  then show ?thesis using us_put_same [OF refill(2), of "ue_refill n e"] by simp
qed

lemma us_find_new: "us_find s k = Some e \<Longrightarrow> smap_find (us_endpoints s) k = None \<Longrightarrow> smap_find (us_new s) k = Some e"
  by (simp add: us_find_def)

text \<open>A receive on a socket of either map is a datagram that enters its channel.\<close>

lemma us_store_recv:
  assumes e: "us_find s k = Some e" and fresh: "us_fresh s" and buf: "ue_recving_msg e = new_udp_msg_buffer"
    and len: "length data \<le> UDP_BUFFER_SIZE"
  shows "subseq (us_flight (us_store k (ue_handleRecv r clock roll Success src data (ue_received e)) s) f)
    (us_flight s f @ (if f = (k, src) then [data] else []))"
proof (cases "smap_find (us_endpoints s) k")
  case (Some d)
  then have "smap_find (us_new s) k = None" using fresh by (auto simp: us_fresh_def)
  then show ?thesis
    using us_put_recv [OF Some _ len, of src r clock roll f] e buf Some
    by (simp add: us_store_def us_find_def recv_flow_def)
next
  case None
  let ?e = "ue_handleRecv r clock roll Success src data (ue_received e)"
  note h = ue_handleRecv_queues [OF buf len, of r clock roll src]
  have new: "smap_find (us_new s) k = Some e" using us_find_new [OF e None] .
  have "send_flow (smap_put k ?e (us_new s)) f = send_flow (us_new s) f"
    using h(1) new by (simp add: send_flow_def smap_find_put)
  moreover have "subseq (recv_flow (smap_put k ?e (us_new s)) f) (recv_flow (us_new s) f @ (if f = (k, src) then [data] else []))"
    using h(2) new by (cases f) (auto simp: recv_flow_def smap_find_put subseq_rev_drop_many)
  ultimately show ?thesis using None by (simp add: us_store_def us_flight_def subseq_append' split del: if_split)
qed

lemma us_store_same:
  assumes e: "us_find s k = Some e" and q: "ue_send_queue e' = ue_send_queue e" "ue_recv_queue e' = ue_recv_queue e"
  shows "us_flight (us_store k e' s) = us_flight s"
proof (cases "smap_find (us_endpoints s) k")
  case (Some d)
  then have "d = e" using e by (simp add: us_find_def)
  then show ?thesis using us_put_same [OF Some, of e'] q Some by (simp add: us_store_def)
next
  case None
  then show ?thesis
    using us_find_new [OF e None] q
    by (simp add: us_store_def us_flight_def fun_eq_iff send_flow_def recv_flow_def smap_find_put)
qed

section \<open>The invariant\<close>

definition ut_inv :: "'a::linorder udp_thread \<Rightarrow> bool" where
  "ut_inv t \<longleftrightarrow> udp_inv (ut_w t) \<and> lossy_ok (udp_lossy (ut_w t)) \<and> us_fresh (uw_s (ut_w t)) \<and>
     (\<not> pc_first (ut_pc t) \<longrightarrow> us_new (uw_s (ut_w t)) = []) \<and> distinct (pc_keys (ut_pc t)) \<and>
     (\<forall>k \<in> set (pc_keys (ut_pc t)). smap_find (us_endpoints (uw_s (ut_w t))) k \<noteq> None)"

lemma ut_inv_init: "ut_init t \<Longrightarrow> ut_inv t"
proof -
  assume t: "ut_init t"
  then have r: "reachable udp_init_world udp_step (ut_w t)" by (simp add: ut_init_def)
  then have "udp_quiet (ut_w t)" by (rule udq.reachable_inv)
  then show "ut_inv t"
    using t udp_reach_lossy_ok [OF r] by (simp add: ut_inv_def udp_quiet_def ut_init_def us_fresh_def)
qed

text \<open>A step of the routine thread is a sequence of steps of the channels.\<close>

lemma ut_next_lossy:
  assumes "ut_next env timeout running now t = Inr t'" and inv: "ut_inv t"
  shows "lossy_step\<^sup>*\<^sup>* (udp_lossy (ut_w t)) (udp_lossy (ut_w t')) \<and>
    us_traffic (uw_s (ut_w t')) \<subseteq># us_traffic (uw_s (ut_w t)) \<and> uw_log (ut_w t') = uw_log (ut_w t)"
proof -
  let ?s = "uw_s (ut_w t)" and ?s' = "uw_s (ut_w t')"
  have ok: "us_maps_ok ?s" using inv by (simp add: ut_inv_def udp_inv_def uei.all_ok_def)
  have lose: "lossy_step\<^sup>*\<^sup>* (udp_lossy (ut_w t)) (udp_lossy (ut_w t'))"
    if "\<And>f. subseq (us_flight ?s' f) (us_flight ?s f) \<and> us_sent ?s' = us_sent ?s" "uw_log (ut_w t') = uw_log (ut_w t)"
    using us_lose [of ?s' ?s "uw_log (ut_w t)"] that by (auto simp: udp_lossy_def)
  show ?thesis
    using assms(1)
  proof (cases rule: ut_next_cases)
    case start
    then have "us_new ?s = []" using inv by (simp add: ut_inv_def)
    then have "?s' = ?s" by (simp add: start)
    then show ?thesis using lose by (simp add: start)
  next
    case (enter iv tmo n k ks go s)
    then show ?thesis
      using lose us_recv_enter_lose [OF enter(2) ok] us_recv_enter_traffic [OF enter(2) ok] by simp
  next
    case merge
    then show ?thesis
      using lose us_merge_lose [of ?s] us_merge_traffic [OF ok] by (simp add: us_merge_def)
  next
    case (take iv tmo n k ks go s)
    then show ?thesis using lose us_recv_one_lose [OF take(2)] us_recv_one_traffic [OF take(2) ok] by simp
  next
    case (put k ks go s)
    then have "us_new ?s = []" using inv by (simp add: ut_inv_def)
    then show ?thesis
      using us_send_one_leave [OF put(2), of "uw_log (ut_w t)"] us_send_one_traffic [OF put(2) ok]
      by (auto simp: put(3) udp_lossy_def)
  next
    case (close k ks e)
    have "ue_traffic k (ue_stop e) = ue_traffic k e" by (rule ue_traffic_same) (simp_all add: ue_stop_def)
    then show ?thesis
      using lose us_put_same [OF close(2), of "ue_stop e"] us_put_le [OF ok close(2), of "ue_stop e"]
      by (simp add: close(3) ue_stop_def)
  qed (use lose in simp_all)
qed

lemma ut_next_inv:
  assumes h: "ut_next env timeout running now t = Inr t'" and inv: "ut_inv t"
  shows "ut_inv t'"
proof -
  let ?s = "uw_s (ut_w t)" and ?s' = "uw_s (ut_w t')"
  note l = ut_next_lossy [OF h inv]
  have ok: "uei.all_ok ?s" using inv by (simp add: ut_inv_def udp_inv_def)
  then have maps: "us_maps_ok ?s" by (simp add: uei.all_ok_def)
  then have sok: "smap_ok (us_endpoints ?s)" "smap_ok (us_new ?s)" by (simp_all add: us_maps_ok_def)
  have "us_traffic ?s \<subseteq># mset (uw_log (ut_w t))" using inv by (simp add: ut_inv_def udp_inv_def)
  then have "udp_inv (ut_w t')"
    using uei.all_ok_next [OF h ok] l by (auto simp: udp_inv_def intro: subset_mset.trans)
  moreover have "lossy_ok (udp_lossy (ut_w t'))" using l inv by (auto simp: ut_inv_def intro: lossy_steps_ok)
  moreover have keys: "distinct (smap_keys m)" "k \<in> set (smap_keys m) \<Longrightarrow> smap_find m k \<noteq> None"
    if "smap_ok m" for m :: "('a endpoint, 'a udp_ept) smap" and k
    using sm.distinct_keys [OF that] sm.set_keys [OF that] by auto
  have "us_fresh ?s' \<and> (\<not> pc_first (ut_pc t') \<longrightarrow> us_new ?s' = []) \<and> distinct (pc_keys (ut_pc t')) \<and>
     (\<forall>k \<in> set (pc_keys (ut_pc t')). smap_find (us_endpoints ?s') k \<noteq> None)"
    using h
  proof (cases rule: ut_next_cases)
    case stay
    then show ?thesis using inv by (simp add: ut_inv_def)
  next
    case stop
    then show ?thesis using inv keys [OF sok(1)] by (simp add: ut_inv_def us_fresh_def)
  next
    case start
    then show ?thesis using keys [OF sok(1)] by (simp add: us_fresh_def)
  next
    case (enter iv tmo n k ks go s)
    have "us_fresh s \<and> (\<forall>j. j \<noteq> k \<or> go \<longrightarrow> (smap_find (us_endpoints s) j = None) = (smap_find (us_endpoints ?s) j = None))"
      using enter(2)
    proof (cases rule: us_recv_enter_cases)
      case (erase e x)
      then show ?thesis using inv by (auto simp: ut_inv_def us_fresh_def smap_find_erase [OF sok(1)])
    next
      case (refill e m)
      then show ?thesis using inv by (auto simp: ut_inv_def us_fresh_put smap_find_put)
    qed
    then show ?thesis using inv enter by (cases go) (auto simp: ut_inv_def simp del: not_None_eq)
  next
    case merge
    then show ?thesis
      using keys [of "smap_insert_all (us_new ?s) (us_endpoints ?s)"] sok
      by (simp add: us_merge_def us_fresh_def smap_insert_all_ok)
  next
    case (take iv tmo n k ks go s)
    then show ?thesis using us_recv_one_keys [OF take(2)] inv take by (auto simp: ut_inv_def simp del: not_None_eq)
  next
    case visit
    then show ?thesis using inv by (simp add: ut_inv_def)
  next
    case sleep
    then show ?thesis using inv by (simp add: ut_inv_def)
  next
    case (put k ks go s)
    then show ?thesis using us_send_one_keys [OF put(2)] inv put by (auto simp: ut_inv_def us_fresh_def simp del: not_None_eq)
  next
    case (close k ks e)
    then show ?thesis using inv by (auto simp: ut_inv_def us_fresh_def smap_find_put)
  next
    case finish
    then show ?thesis using inv by (simp add: ut_inv_def)
  qed
  ultimately show ?thesis by (simp add: ut_inv_def)
qed

lemma ut_inv_store:
  assumes inv: "ut_inv t" and e: "us_find (uw_s (ut_w t)) k = Some e" and ok: "ue_ok e'"
    and tr: "ue_traffic k e' \<subseteq># ue_traffic k e + mset D"
    and order: "lossy_step\<^sup>*\<^sup>* (us_lossy log s) (us_lossy (log @ D) s')"
    and s: "s = uw_s (ut_w t)" "log = uw_log (ut_w t)" "s' = us_store k e' s"
  shows "ut_inv (t\<lparr>ut_w := (ut_w t)\<lparr>uw_s := s', uw_log := log @ D\<rparr>\<rparr>)"
proof -
  have ok': "uei.all_ok s" using inv by (simp add: ut_inv_def udp_inv_def s)
  then have maps: "us_maps_ok s" by (simp add: uei.all_ok_def)
  have "us_traffic s' \<subseteq># us_traffic s + mset D"
    using mset_le_cancel [OF us_store_traffic [OF maps e [folded s(1)], of e'] tr] by (simp add: s(3))
  also have "\<dots> \<subseteq># mset log + mset D" using inv by (simp add: ut_inv_def udp_inv_def s)
  finally have "udp_inv ((ut_w t)\<lparr>uw_s := s', uw_log := log @ D\<rparr>)"
    using uei.all_ok_store [OF ok' ok] by (simp add: udp_inv_def s(3))
  moreover have "lossy_ok (us_lossy (log @ D) s')"
    using lossy_steps_ok [OF order] inv by (simp add: ut_inv_def udp_lossy_def s)
  moreover have "us_fresh s'" "us_new s = [] \<Longrightarrow> us_new s' = []"
    using inv e us_find_new [OF e]
    by (auto simp: ut_inv_def s us_store_def us_fresh_def smap_find_put us_find_def split: option.splits if_splits)
  ultimately show ?thesis using inv by (auto simp: ut_inv_def udp_lossy_def s)
qed

lemma ut_inv_own:
  assumes inv: "ut_inv t" and "ut_own t t'"
  shows "ut_inv t'"
  using assms(2)
proof cases
  case (recv k e data src r clock roll)
  let ?e = "ue_handleRecv r clock roll Success src data (ue_received e)" and ?s = "uw_s (ut_w t)"
  have ok: "ue_ok e" using inv uei.all_ok_us_find [OF _ recv(2)] by (simp add: ut_inv_def udp_inv_def)
  then have buf: "ue_recving_msg e = new_udp_msg_buffer" by (simp add: ue_ok_def)
  have fresh: "us_fresh ?s" using inv by (simp add: ut_inv_def)
  have tr: "ue_traffic k ?e \<subseteq># ue_traffic k e + mset [(k, src, data)]"
    using ue_handleRecv_traffic [OF buf recv(4), of k r clock roll src] by simp
  have "lossy_step\<^sup>*\<^sup>* (us_lossy (uw_log (ut_w t)) ?s) (us_lossy (uw_log (ut_w t) @ [(k, src, data)]) (us_store k ?e ?s))"
    by (rule us_recv_lossy [OF us_store_recv [OF recv(2) fresh buf recv(4)]]) simp
  from ut_inv_store [OF inv recv(2) ue_handleRecv_ok [OF ok recv(3)] tr this] show ?thesis by (simp add: recv(1))
next
  case (recv_error k e error r clock roll src)
  let ?e = "ue_handleRecv r clock roll error src [] (ue_received e)" and ?s = "uw_s (ut_w t)"
  have ok: "ue_ok e" using inv uei.all_ok_us_find [OF _ recv_error(2)] by (simp add: ut_inv_def udp_inv_def)
  have "ue_send_queue ?e = ue_send_queue e" "ue_recv_queue ?e = ue_recv_queue e"
    using recv_error(4) by (simp_all add: ue_handleRecv_def ue_received_def ue_asyncRecv_def ue_stop_def Let_def)
  then have "us_flight (us_store k ?e ?s) = us_flight ?s" by (rule us_store_same [OF recv_error(2)])
  then have order: "lossy_step\<^sup>*\<^sup>* (us_lossy (uw_log (ut_w t)) ?s) (us_lossy (uw_log (ut_w t) @ []) (us_store k ?e ?s))"
    using us_same [of "us_store k ?e ?s" ?s "uw_log (ut_w t)"] by auto
  have tr: "ue_traffic k ?e \<subseteq># ue_traffic k e + mset []"
    using ue_handleRecv_error_traffic [OF recv_error(4), of k r clock roll src "[]" e] by simp
  from ut_inv_store [OF inv recv_error(2) ue_handleRecv_ok [OF ok recv_error(3)] tr order]
  show ?thesis by (simp add: recv_error(1))
next
  case routine
  then show ?thesis using ut_next_inv inv by blast
qed

lemma ut_inv_step:
  assumes inv: "ut_inv t" and "ut_step t t'"
  shows "ut_inv t'"
  using assms(2)
proof cases
  case own
  then show ?thesis by (rule ut_inv_own [OF inv])
next
  case (others x)
  then show ?thesis
    using inv by (simp add: ut_inv_def udp_inv_def uei.all_ok_fields us_fresh_def udp_lossy_def us_lossy_def us_out_def [abs_def])
qed

interpretation utw: step_invariant "ut_init :: 'a::linorder udp_thread \<Rightarrow> bool" ut_step ut_inv
  by unfold_locales (fact ut_inv_init, fact ut_inv_step)

section \<open>The promise\<close>

text \<open>
  C8. The view of a tick as one step is sound (\<open>UdpProxyServer::routineThreadHandler\<close> against
  \<open>us_tick\<close>): every step of the server with whole ticks, a receive, an error or a tick with
  both its passes, is a run of the server with its threads, from and to a state in which the
  routine thread sleeps. In particular the loops over the queues of a socket end, and the
  turns that \<open>us_tick\<close> gives them are enough.
\<close>

theorem udp_tick_is_run:
  assumes "udp_own w w'"
  shows "ut_own\<^sup>*\<^sup>* \<lparr>ut_w = w, ut_pc = Sleeping\<rparr> \<lparr>ut_w = w', ut_pc = Sleeping\<rparr>"
  using assms
proof cases
  case (recv k e data src r clock roll)
  let ?t = "\<lparr>ut_w = w, ut_pc = Sleeping\<rparr>"
  have "us_find (uw_s (ut_w ?t)) k = Some e" using recv(2) by (simp add: us_find_def)
  from ut_own.recv [OF this recv(3,4), of src r clock roll] show ?thesis
    using recv(1,2) by (simp add: us_store_def r_into_rtranclp)
next
  case (recv_error k e error r clock roll src)
  let ?t = "\<lparr>ut_w = w, ut_pc = Sleeping\<rparr>"
  have "us_find (uw_s (ut_w ?t)) k = Some e" using recv_error(2) by (simp add: us_find_def)
  from ut_own.recv_error [OF this recv_error(3,4), of r clock roll src] show ?thesis
    using recv_error(1,2) by (simp add: us_store_def r_into_rtranclp)
next
  case (tick env timeout now t s)
  then show ?thesis using ut_runs_own [OF us_tick_runs [OF tick(2)]] by simp
qed


section \<open>A receive in the middle of a tick\<close>

text \<open>
  The tick at 20 has taken the datagram of the client from the socket of the rule and made the
  client's socket, not yet in \<open>endpoints\<close>; the destination's answer arrives there at once.
\<close>

fun ut_do_next :: "nat \<Rightarrow> msec \<Rightarrow> 'a::linorder udp_thread \<Rightarrow> 'a udp_thread" where
  "ut_do_next 0 now t = t"
| "ut_do_next (Suc n) now t = (case ut_next demo_env 60000 True now t of Inl _ \<Rightarrow> t | Inr t \<Rightarrow> ut_do_next n now t)"

definition ut_do_recv :: "'a::linorder endpoint \<Rightarrow> 'a endpoint \<Rightarrow> byte list \<Rightarrow> 'a udp_thread \<Rightarrow> 'a udp_thread" where
  "ut_do_recv k src data t =
     (case us_find (uw_s (ut_w t)) k of
        None \<Rightarrow> t
      | Some e \<Rightarrow> if 0 < ue_receives e \<and> length data \<le> UDP_BUFFER_SIZE \<and> pc_locked (ut_pc t) \<noteq> Some k
          then t\<lparr>ut_w := (ut_w t)\<lparr>uw_s := us_store k (ue_handleRecv demo_ui 10 1 Success src data (ue_received e)) (uw_s (ut_w t)),
                 uw_log := uw_log (ut_w t) @ [(k, src, data)]\<rparr>\<rparr>
          else t)"

lemma ut_do_next_owns: "ut_own\<^sup>*\<^sup>* t (ut_do_next n now t)"
proof (induction n arbitrary: t)
  case (Suc n)
  show ?case
    using Suc [of "projr (ut_next demo_env 60000 True now t)"] ut_own.routine [of demo_env 60000 True now t]
    by (cases "ut_next demo_env 60000 True now t") (auto intro: converse_rtranclp_into_rtranclp)
qed simp

lemma ut_do_recv_owns: "ut_own\<^sup>*\<^sup>* t (ut_do_recv k src data t)"
  using ut_own.recv [where t = t and k = k and data = data and r = demo_ui and clock = 10 and roll = 1 and src = src]
  by (cases "us_find (uw_s (ut_w t)) k") (auto simp: ut_do_recv_def)

lemma ut_owns_reach: "ut_own\<^sup>*\<^sup>* t t' \<Longrightarrow> ut_reach t \<Longrightarrow> ut_reach t'"
  by (induction rule: rtranclp_induct) (auto intro: reach_step [of ut_init] ut_step.own)

definition demo_t0 :: "nat udp_thread" where
  "demo_t0 = \<lparr>ut_w = demo_u1, ut_pc = Sleeping\<rparr>"

definition demo_t1 :: "nat udp_thread" where
  "demo_t1 = ut_do_recv demo_client demo_dst [3] (ut_do_next 3 20 demo_t0)"

definition demo_t2 :: "nat udp_thread" where
  "demo_t2 = ut_do_next 13 40 (ut_do_next 9 20 demo_t1)"

lemma demo_t1_reach: "ut_reach demo_t1"
proof -
  have "ut_reach demo_t0" by (rule reach_init) (simp add: ut_init_def demo_t0_def demo_u1_reach)
  then show ?thesis
    unfolding demo_t1_def using ut_owns_reach ut_do_next_owns ut_do_recv_owns by blast
qed

theorem udp_tick_is_run_witness:
  "ut_own\<^sup>*\<^sup>* \<lparr>ut_w = demo_answered, ut_pc = Sleeping\<rparr> \<lparr>ut_w = demo_u2, ut_pc = Sleeping\<rparr> \<and>
   us_sent (uw_s demo_u2) = [(demo_client, demo_dst, [1, 2]), (demo_dst, demo_client, [3])]"
proof
  have "\<not> isl (us_tick demo_env 60000 40 (uw_last demo_answered) (uw_s demo_answered))" by code_simp
  then have "udp_own demo_answered (udp_do_tick demo_env 40 demo_answered)"
    by (cases "us_tick demo_env 60000 40 (uw_last demo_answered) (uw_s demo_answered)")
       (auto simp: udp_do_tick_def intro: udp_own.tick)
  then have "udp_own demo_answered demo_u2" by (simp add: demo_u2_def demo_answered_def)
  then show "ut_own\<^sup>*\<^sup>* \<lparr>ut_w = demo_answered, ut_pc = Sleeping\<rparr> \<lparr>ut_w = demo_u2, ut_pc = Sleeping\<rparr>"
    by (rule udp_tick_is_run)
  show "us_sent (uw_s demo_u2) = [(demo_client, demo_dst, [1, 2]), (demo_dst, demo_client, [3])]" by code_simp
qed


text \<open>The answer received in the middle of the tick at 20 is sent by the one at 40.\<close>

lemma demo_t2_sent: "us_sent (uw_s (ut_w demo_t2)) = [(demo_client, demo_dst, [1, 2]), (demo_dst, demo_client, [3])]"
  by code_simp

end
