(* ===== verification/Udp_Account.thy ===== *)
theory Udp_Account
  imports Ip_Account Udp_Threads
begin

text \<open>
  The UDP server as a holder of client addresses: the first pass takes an entry of the table
  for every socket it makes for a client and gives back those of the sockets it destroys.
  The same induction shows that a pass does not fail but for a datagram that claims to come
  from the address its socket stands for.
\<close>

section \<open>What the sockets hold\<close>

definition ue_held :: "'a endpoint \<Rightarrow> 'a udp_ept \<Rightarrow> 'a multiset" where
  "ue_held k e = opt_mset (ue_client_ip e)"

definition us_held :: "'a udp_server \<Rightarrow> 'a multiset" where
  "us_held s = msum ue_held (us_endpoints s) + msum ue_held (us_new s)"

text \<open>The datagrams that wait to be routed; each may make a socket.\<close>

definition ue_waiting :: "'a endpoint \<Rightarrow> 'a udp_ept \<Rightarrow> 'a udp_msg multiset" where
  "ue_waiting k e = mset (ue_recv_queue e)"

definition us_waiting :: "'a udp_server \<Rightarrow> nat" where
  "us_waiting s = size (msum ue_waiting (us_endpoints s)) + size (msum ue_waiting (us_new s))"

text \<open>A client socket has an entry when addresses are limited; queued messages can be read.\<close>

definition ue_good :: "(idx2 \<Rightarrow> int) \<Rightarrow> 'a udp_ept \<Rightarrow> bool" where
  "ue_good bw e \<longleftrightarrow> (\<not> ue_server_flag e \<longrightarrow> bw I0 = 0 \<and> bw I1 = 0 \<or> ue_client_ip e \<noteq> None) \<and>
     (\<forall>m \<in> set (ue_recv_queue e) \<union> set (ue_send_queue e). buffer_ok (um_msg m))"

definition us_sound :: "(idx2 \<Rightarrow> int) \<Rightarrow> 'a::linorder multiset \<Rightarrow> 'a udp_server \<Rightarrow> bool" where
  "us_sound bw H s \<longleftrightarrow> us_maps_ok s \<and> ip_acc (us_x s) (us_held s + H) \<and> ipx_bandwidth (us_x s) = bw \<and>
     (\<forall>k e. smap_find (us_endpoints s) k = Some e \<longrightarrow> ue_good bw e) \<and>
     (\<forall>k e. smap_find (us_new s) k = Some e \<longrightarrow>
        ue_good bw e \<and> smap_find (us_endpoints s) k = None)"

definition us_fine :: "(idx2 \<Rightarrow> int) \<Rightarrow> 'a::linorder multiset \<Rightarrow> 'a udp_server \<Rightarrow> bool" where
  "us_fine bw H s \<longleftrightarrow> us_sound bw H s \<and> size (us_held s + H) + us_waiting s < 2147483648"

definition us_self :: "'a udp_server \<Rightarrow> bool" where
  "us_self s \<longleftrightarrow> (\<exists>k e. (smap_find (us_endpoints s) k = Some e \<or> smap_find (us_new s) k = Some e) \<and>
     k \<in> um_src ` set (ue_recv_queue e))"

lemma us_held_fields [simp]:
  "us_held (s\<lparr>us_x := x\<rparr>) = us_held s" "us_held (s\<lparr>us_inits := n\<rparr>) = us_held s"
  "us_held (s\<lparr>us_sends := n\<rparr>) = us_held s" "us_held (s\<lparr>us_sent := l\<rparr>) = us_held s"
  "us_waiting (s\<lparr>us_x := x\<rparr>) = us_waiting s" "us_waiting (s\<lparr>us_inits := n\<rparr>) = us_waiting s"
  "us_waiting (s\<lparr>us_sends := n\<rparr>) = us_waiting s" "us_waiting (s\<lparr>us_sent := l\<rparr>) = us_waiting s"
  by (simp_all add: us_held_def us_waiting_def)

lemma msum_put_old:
  "smap_ok m \<Longrightarrow> smap_find m k = Some v \<Longrightarrow> msum f (smap_put k w m) + f k v = msum f m + f k w"
  by (simp add: msum_put msum_erase ac_simps)

lemma us_held_put:
  assumes "us_maps_ok s" and "smap_find (us_endpoints s) k = Some e" and "ue_client_ip e' = ue_client_ip e"
  shows "us_held (us_put k e' s) = us_held s"
  using msum_put_old [of "us_endpoints s" k e ue_held e'] assms
  by (simp add: us_held_def us_maps_ok_def ue_held_def)

lemma us_waiting_put:
  assumes "us_maps_ok s" and "smap_find (us_endpoints s) k = Some e"
  shows "us_waiting (us_put k e' s) + length (ue_recv_queue e) = us_waiting s + length (ue_recv_queue e')"
proof -
  have "size (msum ue_waiting (smap_put k e' (us_endpoints s)) + ue_waiting k e) =
      size (msum ue_waiting (us_endpoints s) + ue_waiting k e')"
    using msum_put_old [of "us_endpoints s" k e ue_waiting e'] assms by (simp add: us_maps_ok_def)
  then show ?thesis by (simp add: us_waiting_def ue_waiting_def)
qed

lemma us_sound_put:
  assumes "us_sound bw H s" and "smap_find (us_endpoints s) k = Some e" and "ue_client_ip e' = ue_client_ip e"
    and "ue_good bw e'"
  shows "us_sound bw H (us_put k e' s)"
proof -
  have "smap_find (us_new s) k = None"
    using assms(1,2) unfolding us_sound_def by (metis not_None_eq)
  then show ?thesis using assms us_held_put [OF _ assms(2,3)] by (auto simp: us_sound_def smap_find_put)
qed

lemma us_sound_find: "us_sound bw H s \<Longrightarrow> smap_find (us_endpoints s) k = Some e \<Longrightarrow> ue_good bw e"
  by (simp add: us_sound_def)

lemma us_sound_maps: "us_sound bw H s \<Longrightarrow> us_maps_ok s"
  by (simp add: us_sound_def)

lemma us_sound_x:
  "us_sound bw H s \<Longrightarrow> ip_acc x (us_held s + H) \<Longrightarrow> ipx_bandwidth x = bw \<Longrightarrow> us_sound bw H (s\<lparr>us_x := x\<rparr>)"
  by (simp add: us_sound_def)

lemma us_sound_fields:
  "us_sound bw H (s\<lparr>us_inits := n\<rparr>) = us_sound bw H s" "us_sound bw H (s\<lparr>us_sends := n\<rparr>) = us_sound bw H s"
  "us_sound bw H (s\<lparr>us_sent := l\<rparr>) = us_sound bw H s"
  by (simp_all add: us_sound_def)

text \<open>Paying succeeds, and pays out of an entry that the socket holds.\<close>

lemma msum_member: "smap_find m k = Some v \<Longrightarrow> f k v \<subseteq># msum f m"
  by (simp add: msum_erase)

lemma ue_pay_goes:
  assumes s: "us_sound bw H s" and e: "smap_find (us_endpoints s) k = Some e"
  obtains go x where "ue_pay i e m (us_x s) = Inr (go, x)" and "us_sound bw H (s\<lparr>us_x := x\<rparr>)"
proof (cases "ue_server_flag e \<or> ipx_bandwidth (us_x s) i \<le> 0")
  case True
  then have "ue_pay i e m (us_x s) = Inr (True, us_x s)" by (auto simp: ue_pay_def ip_pay_def)
  then show thesis using that s by simp
next
  case False
  have good: "ue_good bw e" and bw: "ipx_bandwidth (us_x s) = bw" and acc: "ip_acc (us_x s) (us_held s + H)"
    using s e by (simp_all add: us_sound_def)
  have "bw i \<noteq> 0" using False bw by simp
  then obtain a where a: "ue_client_ip e = Some a" using False good by (cases i) (auto simp: ue_good_def)
  have "opt_mset (Some a) \<subseteq># us_held s"
    using msum_member [OF e, of ue_held] a by (auto simp: us_held_def ue_held_def intro: subset_mset.order_trans)
  then have "a \<in># us_held s + H" by simp
  then obtain p where "ip_lookup (us_x s) a = Some p" using ip_acc_held [OF acc] by blast
  then obtain go x where pay: "ue_pay i e m (us_x s) = Inr (go, x)"
    using False a by (cases "ip_pay_entry i (ue_cost m) p") (auto simp: ue_pay_def ip_pay_def)
  then have "ip_pay i (ue_cost m) (ue_client_ip e) (us_x s) = Inr (go, x)" using False by (simp add: ue_pay_def)
  then have "us_sound bw H (s\<lparr>us_x := x\<rparr>)"
    using us_sound_x [OF s ip_acc_pay [OF acc]] ip_pay_bandwidth bw by metis
  then show thesis using that pay by blast
qed

section \<open>Routing\<close>

lemma ue_good_push: "ue_good bw e \<Longrightarrow> buffer_ok (um_msg m) \<Longrightarrow> ue_good bw (ue_push_send m e)"
  by (auto simp: ue_good_def ue_push_send_def)

lemma ue_push_send_sel [simp]:
  "ue_client_ip (ue_push_send m e) = ue_client_ip e" "ue_recv_queue (ue_push_send m e) = ue_recv_queue e"
  "ue_server_flag (ue_push_send m e) = ue_server_flag e"
  by (simp_all add: ue_push_send_def)

definition us_queues_same :: "'a udp_server \<Rightarrow> 'a udp_server \<Rightarrow> bool" where
  "us_queues_same s s' \<longleftrightarrow> us_waiting s' \<le> us_waiting s \<and>
     (\<forall>j e. smap_find (us_new s') j = Some e \<longrightarrow> ue_recv_queue e = [] \<or> smap_find (us_new s) j = Some e) \<and>
     (\<forall>j. map_option ue_recv_queue (smap_find (us_endpoints s') j) = map_option ue_recv_queue (smap_find (us_endpoints s) j))"

lemma ue_new_client:
  assumes "ue_new r rule x = (e, y)" and "ur_src_port rule = 0"
  shows "getIPProxy (ep_address (ur_dst_endpoint rule)) x = (ue_client_ip e, y)"
  using assms by (auto simp: ue_new_def Let_def split: prod.splits)

lemma us_route_new:
  assumes s: "us_sound bw H s" and room: "size (us_held s + H) < 2147483647" and msg: "buffer_ok (um_msg msg)"
    and none: "smap_find (us_endpoints s) (um_src msg) = None"
  shows "\<exists>s'. us_route env now key ept msg s = Inr s' \<and> us_sound bw H s' \<and>
    size (us_held s') \<le> Suc (size (us_held s)) \<and> us_endpoints s' = us_endpoints s \<and> us_queues_same s s'"
proof -
  let ?rule = "(ue_rule ept)\<lparr>ur_dst_endpoint := um_src msg, ur_src_port := 0\<rparr>" and ?a = "um_src msg"
  obtain e x where new: "ue_new (uv_init env (us_inits s)) ?rule (us_x s) = (e, x)" by force
  define e' where "e' = ue_push_send (msg\<lparr>um_src := key\<rparr>) e"
  have get: "getIPProxy (ep_address ?a) (us_x s) = (ue_client_ip e, x)" using ue_new_client [OF new] by simp
  have acc: "ip_acc x (opt_mset (ue_client_ip e) + (us_held s + H))"
    using ip_acc_get [OF _ room get] s by (simp add: us_sound_def)
  have bw: "ipx_bandwidth x = bw" using getIPProxy_bandwidth [of "ep_address ?a" "us_x s"] get s by (simp add: us_sound_def)
  have e: "ue_recv_queue e = []" "ue_send_queue e = []" using ue_new_queues [OF new] by simp_all
  have "ue_client_ip e = (if bw I0 = 0 \<and> bw I1 = 0 then None else Some (ep_address ?a))"
    using getIPProxy_fst [of "ep_address ?a" "us_x s"] get s by (simp add: us_sound_def)
  then have "ue_good bw e" by (simp add: ue_good_def e)
  then have good: "ue_good bw e'" "ue_recv_queue e' = []" "ue_client_ip e' = ue_client_ip e"
    using msg e by (simp_all add: e'_def ue_good_push)
  have maps: "smap_ok (us_new s)" using s by (simp add: us_sound_def us_maps_ok_def)
  have "msum ue_waiting (smap_put ?a e' (us_new s)) = msum ue_waiting (smap_erase ?a (us_new s))"
    using maps good(2) by (simp add: msum_put ue_waiting_def)
  moreover have "msum ue_waiting (smap_erase ?a (us_new s)) \<subseteq># msum ue_waiting (us_new s)"
    by (cases "smap_find (us_new s) ?a") (simp_all add: smap_erase_None msum_erase)
  ultimately have same: "us_queues_same s (s\<lparr>us_inits := n, us_x := y, us_new := smap_put ?a e' (us_new s)\<rparr>)" for n y
    using good(2) by (auto simp: us_queues_same_def us_waiting_def smap_find_put dest: size_mset_mono)
  show ?thesis
  proof (cases "ue_active_tm e \<noteq> 0")
    case True
    have sound: "us_sound bw H (s\<lparr>us_inits := Suc (us_inits s), us_x := y, us_new := smap_put ?a e' (us_new s)\<rparr>)"
      if "ip_acc y (msum ue_held (us_endpoints s) + msum ue_held (smap_put ?a e' (us_new s)) + H)" "ipx_bandwidth y = bw" for y
      using s that good(1,2) none
      by (auto simp: us_sound_def us_held_def us_maps_ok_def smap_ok_put smap_find_put split: if_splits)
    show ?thesis
    proof (cases "smap_find (us_new s) ?a")
      case None
      have put: "msum ue_held (smap_put ?a e' (us_new s)) = opt_mset (ue_client_ip e) + msum ue_held (us_new s)"
        using None maps good(3) by (simp add: msum_put smap_erase_None ue_held_def)
      have "us_route env now key ept msg s =
          Inr (s\<lparr>us_inits := Suc (us_inits s), us_x := x, us_new := smap_put ?a e' (us_new s)\<rparr>)"
        using none new True None by (simp add: us_route_def e'_def)
      moreover have "us_sound bw H (s\<lparr>us_inits := Suc (us_inits s), us_x := x, us_new := smap_put ?a e' (us_new s)\<rparr>)"
        by (rule sound [OF _ bw]) (use acc in \<open>simp add: put us_held_def ac_simps\<close>)
      ultimately show ?thesis using same by (simp add: us_held_def put) (simp add: opt_mset_def split: option.split)
    next
      case (Some old)
      have put: "msum ue_held (smap_put ?a e' (us_new s)) =
          opt_mset (ue_client_ip e) + msum ue_held (smap_erase ?a (us_new s))"
        using maps good(3) by (simp add: msum_put ue_held_def)
      have split: "msum ue_held (us_new s) = opt_mset (ue_client_ip old) + msum ue_held (smap_erase ?a (us_new s))"
        using msum_erase [OF Some, of ue_held] by (simp add: ue_held_def)
      have "ip_acc x (opt_mset (ue_client_ip old) +
          (msum ue_held (us_endpoints s) + msum ue_held (smap_put ?a e' (us_new s)) + H))"
        using acc by (simp add: put us_held_def split ac_simps)
      from ip_acc_release_total [OF this] obtain y where y: "ip_release (ue_client_ip old) x = Inr y"
        "ip_acc y (msum ue_held (us_endpoints s) + msum ue_held (smap_put ?a e' (us_new s)) + H)" by blast
      have "us_route env now key ept msg s =
          Inr (s\<lparr>us_inits := Suc (us_inits s), us_x := y, us_new := smap_put ?a e' (us_new s)\<rparr>)"
        using none new True Some y(1) by (simp add: us_route_def e'_def ue_delete_def)
      moreover have "us_sound bw H (s\<lparr>us_inits := Suc (us_inits s), us_x := y, us_new := smap_put ?a e' (us_new s)\<rparr>)"
        by (rule sound [OF y(2)]) (use ip_release_bandwidth [OF y(1)] bw in simp)
      ultimately show ?thesis using same by (simp add: us_held_def put split) (simp add: opt_mset_def split: option.split)
    qed
  next
    case False
    from ip_acc_release_total [OF acc] obtain y where y: "ip_release (ue_client_ip e) x = Inr y" "ip_acc y (us_held s + H)" by blast
    have "us_route env now key ept msg s = Inr (s\<lparr>us_inits := Suc (us_inits s), us_x := y\<rparr>)"
      using none new False y(1) by (simp add: us_route_def ue_delete_def)
    moreover have "us_sound bw H (s\<lparr>us_inits := Suc (us_inits s), us_x := y\<rparr>)"
      using us_sound_x [of bw H "s\<lparr>us_inits := Suc (us_inits s)\<rparr>" y] s y(2) ip_release_bandwidth [OF y(1)] bw
      by (simp add: us_sound_fields)
    moreover have "us_queues_same s (s\<lparr>us_inits := Suc (us_inits s), us_x := y\<rparr>)" by (simp add: us_queues_same_def)
    ultimately show ?thesis by simp
  qed
qed

lemma us_route_goes:
  assumes s: "us_sound bw H s" and room: "size (us_held s + H) < 2147483647" and msg: "buffer_ok (um_msg msg)"
  shows "\<exists>s'. us_route env now key ept msg s = Inr s' \<and> us_sound bw H s' \<and>
    size (us_held s') \<le> Suc (size (us_held s)) \<and> us_queues_same s s'"
proof (cases "smap_find (us_endpoints s) (um_src msg)")
  case None
  from us_route_new [OF assms None] show ?thesis by blast
next
  case (Some sender)
  define e where "e = (if ue_active_tm sender \<noteq> 0 then sender\<lparr>ue_active_tm := now\<rparr> else sender)"
  define e' where "e' = ue_push_send (msg\<lparr>um_src := key\<rparr>) e"
  have e: "ue_client_ip e' = ue_client_ip sender" "ue_recv_queue e' = ue_recv_queue sender"
    by (simp_all add: e'_def e_def)
  have "ue_good bw e" using us_sound_find [OF s Some] by (simp add: e_def ue_good_def)
  then have "ue_good bw e'" unfolding e'_def using msg by (intro ue_good_push) simp_all
  then have "us_sound bw H (us_put (um_src msg) e' s)" using us_sound_put [OF s Some e(1)] by simp
  moreover have "us_route env now key ept msg s = Inr (us_put (um_src msg) e' s)"
    using Some by (simp add: us_route_def e'_def e_def)
  moreover have "us_queues_same s (us_put (um_src msg) e' s)"
    using us_waiting_put [OF us_sound_maps [OF s] Some, of e'] Some e(2) by (simp add: us_queues_same_def smap_find_put)
  moreover have "us_held (us_put (um_src msg) e' s) = us_held s"
    by (rule us_held_put [OF us_sound_maps [OF s] Some e(1)])
  ultimately show ?thesis by auto
qed

section \<open>A pass goes well\<close>

text \<open>
  What a part of a pass results in: it fails only when a datagram's source is the address of
  its socket; it keeps the sockets of \<open>K\<close>, and makes no such datagram.
\<close>

definition us_goes :: "(idx2 \<Rightarrow> int) \<Rightarrow> 'a::linorder multiset \<Rightarrow> 'a endpoint set \<Rightarrow> 'a udp_server \<Rightarrow>
    failure + 'a udp_server \<Rightarrow> bool" where
  "us_goes bw H K s r \<longleftrightarrow> (case r of
     Inl err \<Rightarrow> err = Assert_failed \<and> us_self s
   | Inr s' \<Rightarrow> us_fine bw H s' \<and> (us_self s' \<longrightarrow> us_self s) \<and>
       (\<forall>j \<in> K. smap_find (us_endpoints s) j \<noteq> None \<longrightarrow> smap_find (us_endpoints s') j \<noteq> None))"

lemma us_self_x: "us_self (s\<lparr>us_x := x\<rparr>) = us_self s"
  by (simp add: us_self_def)

lemma us_goes_Inl: "us_self s \<Longrightarrow> us_goes bw H K s (Inl Assert_failed)"
  by (simp add: us_goes_def)

lemma us_goes_refl: "us_fine bw H s \<Longrightarrow> us_goes bw H K s (Inr s)"
  by (simp add: us_goes_def)

lemma us_goes_mono: "us_goes bw H K s r \<Longrightarrow> L \<subseteq> K \<Longrightarrow> us_goes bw H L s r"
  by (auto simp: us_goes_def split: sum.splits)

lemma us_goes_from:
  assumes "us_goes bw H K s r" and "us_endpoints t = us_endpoints s" and "us_new t = us_new s"
  shows "us_goes bw H K t r"
  using assms by (simp add: us_goes_def us_self_def split: sum.splits)

lemma us_goes_then:
  assumes "us_goes bw H K s (map_sum id snd r)"
    and "\<And>b s'. r = Inr (b, s') \<Longrightarrow> us_fine bw H s' \<Longrightarrow> us_goes bw H K s' (f (b, s'))"
  shows "us_goes bw H K s (and_then r f)"
proof (cases r)
  case (Inl err)
  then show ?thesis using assms(1) by (simp add: us_goes_def)
next
  case (Inr bs)
  obtain b s' where bs: "bs = (b, s')" by force
  have "us_goes bw H K s (Inr s')" using assms(1) by (simp add: Inr bs)
  moreover from this have "us_goes bw H K s' (f (b, s'))" using assms(2) by (simp add: Inr bs us_goes_def)
  ultimately show ?thesis by (auto simp: Inr bs us_goes_def split: sum.splits)
qed

lemma us_goes_then1:
  assumes "us_goes bw H K s r" and "\<And>s'. r = Inr s' \<Longrightarrow> us_goes bw H K s (Inr s') \<Longrightarrow> us_goes bw H L s' (f s')" and "L \<subseteq> K"
  shows "us_goes bw H L s (and_then r f)"
proof (cases r)
  case (Inl err)
  then show ?thesis using assms(1) by (simp add: us_goes_def)
next
  case (Inr s')
  then have "us_goes bw H L s' (f s')" using assms(1,2) by simp
  then show ?thesis using assms(1,3) by (auto simp: Inr us_goes_def split: sum.splits)
qed

lemma us_self_put:
  "smap_find (us_endpoints s) k = Some e \<Longrightarrow> set (ue_recv_queue e') \<subseteq> set (ue_recv_queue e) \<Longrightarrow>
     us_self (us_put k e' s) \<Longrightarrow> us_self s"
  by (fastforce simp: us_self_def smap_find_put split: if_splits)

lemma us_goes_put:
  assumes "us_fine bw H s" and e: "smap_find (us_endpoints s) k = Some e" and "ue_client_ip e' = ue_client_ip e"
    and "ue_good bw e'" and "mset (ue_recv_queue e') \<subseteq># mset (ue_recv_queue e)"
  shows "us_goes bw H K s (Inr (us_put k e' s))"
proof -
  have s: "us_sound bw H s" using assms(1) by (simp add: us_fine_def)
  have "length (ue_recv_queue e') \<le> length (ue_recv_queue e)" using size_mset_mono [OF assms(5)] by simp
  then have "us_waiting (us_put k e' s) \<le> us_waiting s" using us_waiting_put [OF us_sound_maps [OF s] e, of e'] by simp
  then have "us_fine bw H (us_put k e' s)"
    using us_sound_put [OF s e assms(3,4)] us_held_put [OF us_sound_maps [OF s] e assms(3)] assms(1)
    by (simp add: us_fine_def)
  moreover have "set (ue_recv_queue e') \<subseteq> set (ue_recv_queue e)" using set_mset_mono [OF assms(5)] by simp
  then have "us_self (us_put k e' s) \<longrightarrow> us_self s" using us_self_put [OF e] by blast
  ultimately show ?thesis by (simp add: us_goes_def smap_find_put)
qed

lemma us_fine_x: "us_fine bw H s \<Longrightarrow> us_sound bw H (s\<lparr>us_x := x\<rparr>) \<Longrightarrow> us_fine bw H (s\<lparr>us_x := x\<rparr>)"
  by (simp add: us_fine_def)

lemma us_queues_same_self: "us_queues_same s s' \<Longrightarrow> us_self s' \<Longrightarrow> us_self s"
proof -
  assume q: "us_queues_same s s'" and "us_self s'"
  then obtain k e where k: "k \<in> um_src ` set (ue_recv_queue e)"
    and e: "smap_find (us_endpoints s') k = Some e \<or> smap_find (us_new s') k = Some e"
    unfolding us_self_def by blast
  from e show "us_self s"
  proof
    assume e: "smap_find (us_endpoints s') k = Some e"
    have "map_option ue_recv_queue (smap_find (us_endpoints s') k) = map_option ue_recv_queue (smap_find (us_endpoints s) k)"
      using q by (simp add: us_queues_same_def)
    then have "map_option ue_recv_queue (smap_find (us_endpoints s) k) = Some (ue_recv_queue e)" by (simp add: e)
    then obtain e0 where "smap_find (us_endpoints s) k = Some e0" "ue_recv_queue e0 = ue_recv_queue e"
      by (cases "smap_find (us_endpoints s) k") auto
    then show ?thesis using k unfolding us_self_def by fastforce
  next
    assume "smap_find (us_new s') k = Some e"
    then have "ue_recv_queue e = [] \<or> smap_find (us_new s) k = Some e" using q by (simp add: us_queues_same_def)
    then show ?thesis using k unfolding us_self_def by fastforce
  qed
qed

lemma us_queues_same_present:
  "us_queues_same s s' \<Longrightarrow> smap_find (us_endpoints s') j = None \<longleftrightarrow> smap_find (us_endpoints s) j = None"
  unfolding us_queues_same_def by (metis option.map_disc_iff)

lemma us_recv_one_goes:
  assumes "us_fine bw H s" and "smap_find (us_endpoints s) key \<noteq> None"
  shows "us_goes bw H K s (map_sum id snd (us_recv_one env now key s))"
proof -
  obtain ept where e: "smap_find (us_endpoints s) key = Some ept" using assms(2) by blast
  have s: "us_sound bw H s" using assms(1) by (simp add: us_fine_def)
  show ?thesis
  proof (cases "ue_recv_queue ept")
    case Nil
    then show ?thesis using e us_goes_refl [OF assms(1)] by (simp add: us_recv_one_def)
  next
    case (Cons msg ms)
    have good: "ue_good bw ept" and buf: "buffer_ok (um_msg msg)"
      using us_sound_find [OF s e] Cons by (auto simp: ue_good_def)
    obtain go x where pay: "ue_pay I1 ept msg (us_x s) = Inr (go, x)" and sx: "us_sound bw H (s\<lparr>us_x := x\<rparr>)"
      using ue_pay_goes [OF s e] by blast
    have stay: "us_goes bw H K s (Inr (s\<lparr>us_x := x\<rparr>))"
      using us_fine_x [OF assms(1) sx] us_goes_from [OF us_goes_refl, of bw H "s\<lparr>us_x := x\<rparr>" s K] by simp
    have self: "um_src msg = key \<Longrightarrow> us_self s"
      unfolding us_self_def by (rule exI [of _ key], rule exI [of _ ept]) (simp add: e Cons)
    consider "ue_recv_avail_bytes ept < 0" | "0 \<le> ue_recv_avail_bytes ept" "um_src msg = key"
      | "0 \<le> ue_recv_avail_bytes ept" "um_src msg \<noteq> key" "now < um_time msg"
      | "0 \<le> ue_recv_avail_bytes ept" "um_src msg \<noteq> key" "um_time msg \<le> now" "\<not> go"
      | (moved) "0 \<le> ue_recv_avail_bytes ept" "um_src msg \<noteq> key" "um_time msg \<le> now" "go" by linarith
    then show ?thesis
    proof cases
      case moved
      let ?s = "s\<lparr>us_x := x\<rparr>" and ?e = "ue_pop_recv (ue_cost msg) ept"
      have "0 < us_waiting s"
        using msum_member [OF e, of ue_waiting] Cons by (auto simp: us_waiting_def ue_waiting_def nonempty_has_size [symmetric])
      then have "size (us_held ?s + H) < 2147483647" using assms(1) by (simp add: us_fine_def)
      from us_route_goes [OF sx this buf, of env now key ept] obtain s' where r:
        "us_route env now key ept msg ?s = Inr s'" "us_sound bw H s'" "size (us_held s') \<le> Suc (size (us_held s))"
        "us_queues_same ?s s'" by auto
      have key: "smap_find (us_endpoints s') key = Some ept"
        using us_route_keeps [OF r(1), of key] moved(2) e by simp
      have q: "us_queues_same s s'" using r(4) by (simp add: us_queues_same_def)
      have good': "ue_good bw ?e" using good Cons by (auto simp: ue_good_def)
      have sound: "us_sound bw H (us_put key ?e s')" by (rule us_sound_put [OF r(2) key _ good']) simp
      have "us_waiting (us_put key ?e s') + 1 \<le> us_waiting s"
        using us_waiting_put [OF us_sound_maps [OF r(2)] key, of ?e] q Cons by (simp add: us_queues_same_def)
      moreover have "us_held (us_put key ?e s') = us_held s'" by (rule us_held_put [OF us_sound_maps [OF r(2)] key]) simp
      ultimately have "us_fine bw H (us_put key ?e s')" using sound assms(1) r(3) by (simp add: us_fine_def)
      moreover have "us_self (us_put key ?e s') \<longrightarrow> us_self s'" using us_self_put [OF key, of ?e] Cons by auto
      moreover have "us_recv_one env now key s = Inr (True, us_put key ?e s')"
        using e Cons moved pay r(1) by (simp add: us_recv_one_def)
      ultimately show ?thesis
        using us_queues_same_self [OF q] us_queues_same_present [OF q]
        by (simp add: us_goes_def smap_find_put del: not_None_eq)
    qed (use e Cons pay stay self us_goes_refl [OF assms(1)] us_goes_Inl in \<open>simp_all add: us_recv_one_def\<close>)
  qed
qed

lemma us_recv_loop_goes:
  "us_fine bw H s \<Longrightarrow> smap_find (us_endpoints s) key \<noteq> None \<Longrightarrow> us_goes bw H UNIV s (us_recv_loop n env now key s)"
proof (induction n arbitrary: s)
  case (Suc n)
  have one: "us_goes bw H UNIV s (map_sum id snd (us_recv_one env now key s))" by (rule us_recv_one_goes [OF Suc.prems])
  show ?case
    unfolding us_recv_loop.simps
  proof (rule us_goes_then [OF one])
    fix b s' assume r: "us_recv_one env now key s = Inr (b, s')" and fine: "us_fine bw H s'"
    have "smap_find (us_endpoints s') key \<noteq> None" using one Suc.prems(2) by (simp add: r us_goes_def)
    then show "us_goes bw H UNIV s' (case (b, s') of (go, s) \<Rightarrow> if go then us_recv_loop n env now key s else Inr s)"
      using Suc.IH [OF fine] us_goes_refl [OF fine] by simp
  qed
qed (simp add: us_goes_refl)

lemma us_recv_enter_goes:
  assumes fine: "us_fine bw H s" and "smap_find (us_endpoints s) key \<noteq> None"
  shows "us_goes bw H (- {key}) s (map_sum id snd (us_recv_enter iv tmo key s))"
proof -
  obtain e where e: "smap_find (us_endpoints s) key = Some e" using assms(2) by blast
  have s: "us_sound bw H s" using fine by (simp add: us_fine_def)
  then have maps: "smap_ok (us_endpoints s)" by (simp add: us_sound_def us_maps_ok_def)
  show ?thesis
  proof (cases "ue_active_tm e = 0 \<or> (ue_active_tm e < tmo \<and> \<not> ue_server_flag e)")
    case True
    let ?es = "smap_erase key (us_endpoints s)"
    have held: "us_held s = opt_mset (ue_client_ip e) + us_held (s\<lparr>us_endpoints := ?es\<rparr>)"
      by (simp add: us_held_def msum_erase [OF e] ue_held_def ac_simps)
    have wait: "us_waiting (s\<lparr>us_endpoints := ?es\<rparr>) \<le> us_waiting s"
      by (simp add: us_waiting_def msum_erase [OF e])
    have "ip_acc (us_x s) (opt_mset (ue_client_ip e) + (us_held (s\<lparr>us_endpoints := ?es\<rparr>) + H))"
      using s by (simp add: us_sound_def held ac_simps)
    from ip_acc_release_total [OF this] obtain x where x: "ip_release (ue_client_ip e) (us_x s) = Inr x"
      "ip_acc x (us_held (s\<lparr>us_endpoints := ?es\<rparr>) + H)" by blast
    have r: "us_recv_enter iv tmo key s = Inr (False, s\<lparr>us_endpoints := ?es, us_x := x\<rparr>)"
      using e True x(1) by (simp add: us_recv_enter_def ue_delete_def)
    have find: "smap_find ?es = (smap_find (us_endpoints s))(key := None)" by (rule sm.find_erase [OF maps])
    have "us_sound bw H (s\<lparr>us_endpoints := ?es, us_x := x\<rparr>)"
      using s x(2) ip_release_bandwidth [OF x(1)] find
      by (auto simp: us_sound_def us_maps_ok_def sm.ok_erase us_held_def)
    moreover have "us_held (s\<lparr>us_endpoints := ?es, us_x := x\<rparr>) \<subseteq># us_held s" using held by (simp add: us_held_def)
    then have "size (us_held (s\<lparr>us_endpoints := ?es, us_x := x\<rparr>)) \<le> size (us_held s)" by (rule size_mset_mono)
    ultimately have "us_fine bw H (s\<lparr>us_endpoints := ?es, us_x := x\<rparr>)"
      using fine wait by (simp add: us_fine_def us_waiting_def)
    then show ?thesis unfolding r by (auto simp: us_goes_def us_self_def find split: if_splits)
  next
    case False
    let ?e = "ue_refill (i32 (iv * ur_max_bandwidth (ue_rule e) sdiv 1000)) e"
    have "us_goes bw H (- {key}) s (Inr (us_put key ?e s))"
      by (rule us_goes_put [OF fine e]) (use us_sound_find [OF s e] in \<open>simp_all add: ue_good_def\<close>)
    moreover have "us_recv_enter iv tmo key s = Inr (True, us_put key ?e s)"
      using e False by (auto simp: us_recv_enter_def Let_def)
    ultimately show ?thesis by simp
  qed
qed

lemma and_then_image: "and_then (and_then r (\<lambda>x. Inr (f x))) g = and_then r (\<lambda>x. g (f x))"
  by (cases r) simp_all

text \<open>A visit of the first pass is its head and, for a socket that stays, its loop.\<close>

lemma us_recv_at_split:
  "us_recv_at env now iv tmo key s = and_then (us_recv_enter iv tmo key s) (\<lambda>(go, t).
     if go then us_recv_loop (Suc (case smap_find (us_endpoints s) key of None \<Rightarrow> 0 | Some e \<Rightarrow> length (ue_recv_queue e))) env now key t
     else Inr t)"
  by (cases "smap_find (us_endpoints s) key")
     (auto simp: us_recv_at_def us_recv_enter_def Let_def and_then_image simp del: us_recv_loop.simps)

lemma us_recv_at_goes:
  assumes fine: "us_fine bw H s" and "smap_find (us_endpoints s) key \<noteq> None"
  shows "us_goes bw H (- {key}) s (us_recv_at env now iv tmo key s)"
  unfolding us_recv_at_split
proof (rule us_goes_then [OF us_recv_enter_goes [OF assms]])
  fix go t assume t: "us_recv_enter iv tmo key s = Inr (go, t)" "us_fine bw H t"
  show "us_goes bw H (- {key}) t (case (go, t) of (go, t) \<Rightarrow>
     if go then us_recv_loop (Suc (case smap_find (us_endpoints s) key of None \<Rightarrow> 0 | Some e \<Rightarrow> length (ue_recv_queue e))) env now key t
     else Inr t)"
  proof (cases go)
    case True
    from t(1) have "smap_find (us_endpoints t) key \<noteq> None"
      by (cases rule: us_recv_enter_cases) (simp_all add: True smap_find_put)
    from us_goes_mono [OF us_recv_loop_goes [OF t(2) this], of "- {key}"] show ?thesis
      using True by (simp del: us_recv_loop.simps)
  qed (simp add: us_goes_refl [OF t(2)])
qed

lemma us_send_one_goes:
  assumes "us_fine bw H s" and "smap_find (us_endpoints s) key \<noteq> None"
  shows "us_goes bw H K s (map_sum id snd (us_send_one env key s))"
proof -
  obtain ept where e: "smap_find (us_endpoints s) key = Some ept" using assms(2) by blast
  have s: "us_sound bw H s" using assms(1) by (simp add: us_fine_def)
  show ?thesis
  proof (cases "ue_send_queue ept")
    case Nil
    then show ?thesis using e us_goes_refl [OF assms(1)] by (simp add: us_send_one_def)
  next
    case (Cons msg ms)
    have good: "ue_good bw ept" and "buffer_ok (um_msg msg)"
      using us_sound_find [OF s e] Cons by (auto simp: ue_good_def)
    then obtain bytes where buf: "buffer_read (um_msg msg) = Inr bytes" by (auto simp: buffer_ok_def)
    obtain go x where pay: "ue_pay I0 ept msg (us_x s) = Inr (go, x)" and sx: "us_sound bw H (s\<lparr>us_x := x\<rparr>)"
      using ue_pay_goes [OF s e] by blast
    let ?n = "Suc (us_sends s)"
    define t where "t = s\<lparr>us_x := x, us_sends := ?n\<rparr>"
    have t: "us_fine bw H t" "us_endpoints t = us_endpoints s" "us_new t = us_new s"
      using us_fine_x [OF assms(1) sx] by (simp_all add: t_def us_fine_def us_sound_fields)
    have put: "us_goes bw H K s (Inr (us_put key e' u))"
      if "us_fine bw H u" "us_endpoints u = us_endpoints s" "ue_client_ip e' = ue_client_ip ept" "ue_good bw e'"
        "ue_recv_queue e' = ue_recv_queue ept" "us_new u = us_new s" for u e'
    proof -
      have "smap_find (us_endpoints u) key = Some ept" using e by (simp add: that(2))
      from us_goes_from [OF us_goes_put [OF that(1) this that(3,4)] that(2,6) [symmetric]] show ?thesis by (simp add: that(5))
    qed
    have stopped: "ue_good bw (ue_stop ept)" "ue_good bw (ue_init r (ue_stop ept))" for r
      using good by (simp_all add: ue_good_def ue_stop_def)
    have paid: "ue_good bw ((ue_charge_send c ept)\<lparr>ue_send_queue := ms\<rparr>)" for c
      using good Cons by (auto simp: ue_good_def ue_charge_send_def)
    have fine: "us_fine bw H (t\<lparr>us_inits := n\<rparr>)" "us_fine bw H (t\<lparr>us_sent := l\<rparr>)" for n l
      using t(1) by (simp_all add: us_fine_def us_sound_fields)
    consider "ue_send_avail_bytes ept < 0" | "0 \<le> ue_send_avail_bytes ept" "\<not> go"
      | (failed) "0 \<le> ue_send_avail_bytes ept" "go" "uv_send env (us_sends s) \<noteq> Success"
      | (sent) "0 \<le> ue_send_avail_bytes ept" "go" "uv_send env (us_sends s) = Success" by linarith
    then show ?thesis
    proof cases
      case failed
      have "us_send_one env key s = Inr (False, if ue_server_flag ept
          then us_put key (ue_init (uv_init env (us_inits s)) (ue_stop ept)) (t\<lparr>us_inits := Suc (us_inits s)\<rparr>)
          else us_put key (ue_stop ept) t)"
        using e Cons failed pay buf by (simp add: us_send_one_def t_def ue_stop_def)
      moreover have "us_goes bw H K s (Inr (us_put key (ue_init (uv_init env (us_inits s)) (ue_stop ept)) (t\<lparr>us_inits := Suc (us_inits s)\<rparr>)))"
        by (rule put) (use stopped fine t in \<open>simp_all add: ue_stop_def\<close>)
      moreover have "us_goes bw H K s (Inr (us_put key (ue_stop ept) t))"
        by (rule put) (use stopped t in \<open>simp_all add: ue_stop_def\<close>)
      ultimately show ?thesis by simp
    next
      case sent
      have "us_send_one env key s = Inr (True, us_put key ((ue_charge_send (ue_cost msg) ept)\<lparr>ue_send_queue := ms\<rparr>)
          (t\<lparr>us_sent := us_sent s @ [(key, um_src msg, bytes)]\<rparr>))"
        using e Cons sent pay buf by (simp add: us_send_one_def t_def)
      moreover have "us_goes bw H K s (Inr (us_put key ((ue_charge_send (ue_cost msg) ept)\<lparr>ue_send_queue := ms\<rparr>)
          (t\<lparr>us_sent := us_sent s @ [(key, um_src msg, bytes)]\<rparr>)))"
        by (rule put) (use paid fine t in \<open>simp_all add: ue_charge_send_def\<close>)
      ultimately show ?thesis by simp
    qed (use e Cons pay us_goes_refl [OF assms(1)] us_goes_from [OF us_goes_refl [OF us_fine_x [OF assms(1) sx]], of s K]
        in \<open>simp_all add: us_send_one_def\<close>)
  qed
qed

lemma us_send_loop_goes:
  "us_fine bw H s \<Longrightarrow> smap_find (us_endpoints s) key \<noteq> None \<Longrightarrow> us_goes bw H UNIV s (us_send_loop n env key s)"
proof (induction n arbitrary: s)
  case (Suc n)
  have one: "us_goes bw H UNIV s (map_sum id snd (us_send_one env key s))" by (rule us_send_one_goes [OF Suc.prems])
  show ?case
    unfolding us_send_loop.simps
  proof (rule us_goes_then [OF one])
    fix b s' assume r: "us_send_one env key s = Inr (b, s')" and fine: "us_fine bw H s'"
    have "smap_find (us_endpoints s') key \<noteq> None" using one Suc.prems(2) by (simp add: r us_goes_def)
    then show "us_goes bw H UNIV s' (case (b, s') of (go, s) \<Rightarrow> if go then us_send_loop n env key s else Inr s)"
      using Suc.IH [OF fine] us_goes_refl [OF fine] by simp
  qed
qed (simp add: us_goes_refl)

lemma us_send_at_goes:
  assumes "us_fine bw H s" and "smap_find (us_endpoints s) key \<noteq> None"
  shows "us_goes bw H UNIV s (us_send_at env key s)"
  using us_send_loop_goes [OF assms] assms(2) by (auto simp: us_send_at_def simp del: us_send_loop.simps)

lemma us_each_goes:
  assumes "\<And>k s. us_fine bw H s \<Longrightarrow> smap_find (us_endpoints s) k \<noteq> None \<Longrightarrow> us_goes bw H (- {k}) s (f k s)"
  shows "us_fine bw H s \<Longrightarrow> distinct ks \<Longrightarrow> \<forall>k \<in> set ks. smap_find (us_endpoints s) k \<noteq> None \<Longrightarrow>
    us_goes bw H {} s (us_each f ks s)"
proof (induction ks arbitrary: s)
  case (Cons k ks)
  have one: "us_goes bw H (- {k}) s (f k s)" using assms Cons.prems by simp
  show ?case
    unfolding us_each.simps
  proof (rule us_goes_then1 [OF one])
    fix s' assume g: "us_goes bw H (- {k}) s (Inr s')"
    then have "\<forall>j \<in> set ks. smap_find (us_endpoints s') j \<noteq> None" "us_fine bw H s'"
      using Cons.prems(2,3) by (auto simp: us_goes_def)
    then show "us_goes bw H {} s' (us_each f ks s')" using Cons.IH [of s'] Cons.prems(2) by simp
  qed simp
qed (simp add: us_goes_refl)

lemma us_each_keys:
  assumes "us_fine bw H s"
  shows "distinct (smap_keys (us_endpoints s))" and "\<forall>k \<in> set (smap_keys (us_endpoints s)). smap_find (us_endpoints s) k \<noteq> None"
proof -
  have ok: "smap_ok (us_endpoints s)" using assms by (simp add: us_fine_def us_sound_def us_maps_ok_def)
  show "distinct (smap_keys (us_endpoints s))" by (rule sm.distinct_keys [OF ok])
  show "\<forall>k \<in> set (smap_keys (us_endpoints s)). smap_find (us_endpoints s) k \<noteq> None"
    using sm.set_keys [OF ok] by auto
qed

text \<open>The new sockets join the others.\<close>

lemma msum_insert_new:
  "smap_ok m \<Longrightarrow> distinct (smap_keys es) \<Longrightarrow> \<forall>k \<in> set (smap_keys es). smap_find m k = None \<Longrightarrow>
     msum f (smap_insert_all es m) = msum f es + msum f m"
proof (induction es m rule: smap_insert_all.induct)
  case (2 k v es m)
  then have k: "smap_find m k = None" "k \<notin> set (smap_keys es)" "distinct (smap_keys es)"
    "\<forall>j \<in> set (smap_keys es). smap_find m j = None" by (simp_all add: smap_keys_def)
  then have "\<forall>j \<in> set (smap_keys es). smap_find (smap_put k v m) j = None" by (auto simp: smap_find_put)
  with 2 k show ?case by (simp add: smap_ok_put msum_put smap_erase_None ac_simps)
qed simp

lemma us_merge_fine:
  assumes "us_fine bw H s"
  shows "us_goes bw H {} s (Inr (us_merge s))"
proof -
  have s: "us_sound bw H s" using assms by (simp add: us_fine_def)
  then have ok: "smap_ok (us_endpoints s)" "smap_ok (us_new s)"
    and new: "\<And>k e. smap_find (us_new s) k = Some e \<Longrightarrow> ue_good bw e \<and> smap_find (us_endpoints s) k = None"
    by (simp_all add: us_sound_def us_maps_ok_def)
  have fresh: "\<forall>k \<in> set (smap_keys (us_new s)). smap_find (us_endpoints s) k = None"
  proof
    fix k assume "k \<in> set (smap_keys (us_new s))"
    then have "smap_find (us_new s) k \<noteq> None" using sm.set_keys [OF ok(2)] by auto
    then show "smap_find (us_endpoints s) k = None" using new by blast
  qed
  note sum = msum_insert_new [OF ok(1) sm.distinct_keys [OF ok(2)] fresh]
  have "us_held (us_merge s) = us_held s" by (simp add: us_merge_def us_held_def sum ac_simps)
  moreover have "us_waiting (us_merge s) = us_waiting s" by (simp add: us_merge_def us_waiting_def sum)
  ultimately have "us_fine bw H (us_merge s)"
    using assms s new
    by (auto simp: us_merge_def us_fine_def us_sound_def us_maps_ok_def smap_insert_all_ok smap_find_insert_all split: option.splits)
  moreover have "us_self (us_merge s) \<longrightarrow> us_self s"
    by (fastforce simp: us_merge_def us_self_def smap_find_insert_all split: option.splits)
  ultimately show ?thesis by (simp add: us_goes_def)
qed

section \<open>A tick\<close>

lemma map_sum_and_then: "map_sum id snd (and_then r (\<lambda>s. Inr (t, s))) = r"
  by (cases r) simp_all

lemma us_tick_goes:
  assumes fine: "us_fine bw H s" and new: "us_new s = []"
  shows "us_goes bw H {} s (map_sum id snd (us_tick env timeout now t0 s))"
proof (cases "now - t0 \<le> 0")
  case True
  then show ?thesis using us_goes_refl [OF fine] by (simp add: us_tick_def)
next
  case False
  have s: "s\<lparr>us_new := []\<rparr> = s" using new by simp
  let ?recv = "us_each (us_recv_at env now (now - t0) (now - timeout)) (smap_keys (us_endpoints s))"
  let ?send = "\<lambda>s. us_each (us_send_at env) (smap_keys (us_endpoints s)) s"
  have tick: "map_sum id snd (us_tick env timeout now t0 s) = and_then (?recv s) (\<lambda>s. and_then (Inr (us_merge s)) ?send)"
    using False by (cases "?recv s") (simp_all add: us_tick_def us_merge_def Let_def s map_sum_and_then)
  show ?thesis
    unfolding tick
  proof (rule us_goes_then1)
    show "us_goes bw H {} s (?recv s)"
      by (rule us_each_goes [OF us_recv_at_goes fine us_each_keys [OF fine]])
    fix b assume "us_goes bw H {} s (Inr b)"
    then have b: "us_fine bw H b" by (simp add: us_goes_def)
    show "us_goes bw H {} b (and_then (Inr (us_merge b)) ?send)"
    proof (rule us_goes_then1 [OF us_merge_fine [OF b]])
      fix c assume "us_goes bw H {} b (Inr c)"
      then have c: "us_fine bw H c" by (simp add: us_goes_def)
      show "us_goes bw H {} c (?send c)"
        by (rule us_each_goes [OF _ c us_each_keys [OF c]]) (rule us_goes_mono [OF us_send_at_goes], simp_all)
    qed simp
  qed simp
qed

section \<open>The law\<close>

abbreviation udp_reach :: "'a::linorder udp_world \<Rightarrow> bool" where
  "udp_reach \<equiv> reachable udp_init_world udp_step"

definition udp_at :: "'a ip_proxies \<Rightarrow> 'a udp_thread \<Rightarrow> 'a udp_thread" where
  "udp_at x t = t\<lparr>ut_w := (ut_w t)\<lparr>uw_s := (uw_s (ut_w t))\<lparr>us_x := x\<rparr>\<rparr>\<rparr>"

definition udp_held :: "'a udp_thread \<Rightarrow> 'a multiset" where
  "udp_held t = us_held (uw_s (ut_w t))"

definition udp_load :: "'a udp_thread \<Rightarrow> nat" where
  "udp_load t = us_waiting (uw_s (ut_w t))"

definition udp_part_step :: "'a::linorder ip_proxies \<Rightarrow> 'a udp_thread \<Rightarrow> 'a ip_proxies \<Rightarrow> 'a udp_thread \<Rightarrow> bool" where
  "udp_part_step x t y v \<longleftrightarrow> ut_own (udp_at x t) v \<and> y = us_x (uw_s (ut_w v))"

definition udp_goods :: "'a::linorder ip_proxies \<Rightarrow> 'a udp_thread \<Rightarrow> bool" where
  "udp_goods x t \<longleftrightarrow> (\<forall>k e. us_find (uw_s (ut_w t)) k = Some e \<longrightarrow> ue_good (ipx_bandwidth x) e)"

definition udp_part_inv :: "'a::linorder ip_proxies \<Rightarrow> 'a udp_thread \<Rightarrow> bool" where
  "udp_part_inv x t \<longleftrightarrow> ut_reach (udp_at x t) \<and> udp_goods x t"

lemma udp_at_sel [simp]:
  "uw_s (ut_w (udp_at x t)) = (uw_s (ut_w t))\<lparr>us_x := x\<rparr>" "uw_last (ut_w (udp_at x t)) = uw_last (ut_w t)"
  "uw_log (ut_w (udp_at x t)) = uw_log (ut_w t)" "ut_pc (udp_at x t) = ut_pc t"
  "udp_at y (udp_at x t) = udp_at y t" "udp_held (udp_at x t) = udp_held t"
  by (simp_all add: udp_at_def udp_held_def)

lemma udp_at_own [simp]: "udp_at (us_x (uw_s (ut_w t))) t = t"
  by (simp add: udp_at_def)

lemma us_find_x [simp]: "us_find (s\<lparr>us_x := x\<rparr>) = us_find s"
  by (simp add: us_find_def fun_eq_iff split: option.split)

lemma us_sound_us_find: "us_sound bw H s \<Longrightarrow> us_find s k = Some e \<Longrightarrow> ue_good bw e"
  by (auto simp: us_sound_def us_find_def split: option.splits)

lemma us_sound_fresh: "us_sound bw H s \<Longrightarrow> us_fresh s"
  unfolding us_sound_def us_fresh_def by blast

lemma udp_part_sound:
  assumes "udp_part_inv x t" and "ip_acc x (udp_held t + H)"
  shows "us_sound (ipx_bandwidth x) H (uw_s (ut_w (udp_at x t)))" and "ut_inv (udp_at x t)"
proof -
  show inv: "ut_inv (udp_at x t)" using assms(1) by (intro utw.reachable_inv) (simp add: udp_part_inv_def)
  let ?s = "uw_s (ut_w t)"
  have maps: "us_maps_ok ?s" and fresh: "us_fresh ?s"
    using inv by (simp_all add: ut_inv_def udp_inv_def uei.all_ok_def us_fresh_def)
  have goods: "ue_good (ipx_bandwidth x) e" if "us_find ?s k = Some e" for k e
    using assms(1) that by (simp add: udp_part_inv_def udp_goods_def)
  have "us_find ?s k = Some e" if "smap_find (us_endpoints ?s) k = Some e" for k e using that by (simp add: us_find_def)
  moreover have none: "smap_find (us_endpoints ?s) k = None" if "smap_find (us_new ?s) k = Some e" for k e
    using that fresh by (simp add: us_fresh_def)
  moreover have "us_find ?s k = Some e" if "smap_find (us_new ?s) k = Some e" for k e
    using that none [OF that] by (simp add: us_find_def)
  ultimately show "us_sound (ipx_bandwidth x) H (uw_s (ut_w (udp_at x t)))"
    using assms(2) maps goods by (simp add: us_sound_def udp_held_def) blast
qed

lemma us_held_store:
  assumes ok: "us_maps_ok s" and e: "us_find s k = Some e" and "ue_client_ip e' = ue_client_ip e"
  shows "us_held (us_store k e' s) = us_held s"
proof (cases "smap_find (us_endpoints s) k")
  case None
  then have "smap_find (us_new s) k = Some e" by (rule us_find_new [OF e])
  from msum_put_old [OF _ this, of ue_held e'] show ?thesis
    using ok None assms(3) by (simp add: us_store_def us_held_def us_maps_ok_def ue_held_def)
next
  case (Some d)
  then show ?thesis using us_held_put [OF ok Some] e assms(3) by (simp add: us_store_def us_find_def)
qed

lemma us_sound_store:
  assumes s: "us_sound bw H s" and e: "us_find s k = Some e" and "ue_client_ip e' = ue_client_ip e" and "ue_good bw e'"
  shows "us_sound bw H (us_store k e' s)"
proof (cases "smap_find (us_endpoints s) k")
  case (Some d)
  then show ?thesis using us_sound_put [OF s Some] e assms(3,4) by (simp add: us_store_def us_find_def)
next
  case None
  then show ?thesis
    using s assms(4) us_held_store [OF us_sound_maps [OF s] e assms(3)]
    by (auto simp: us_store_def us_sound_def us_maps_ok_def smap_ok_put smap_find_put split: if_splits)
qed

lemma ue_handleRecv_keeps:
  "ue_client_ip (ue_handleRecv r clock roll error src data (ue_received e)) = ue_client_ip e"
  "ue_server_flag (ue_handleRecv r clock roll error src data (ue_received e)) = ue_server_flag e"
  by (simp_all add: ue_handleRecv_def ue_received_def ue_asyncRecv_def ue_stop_def Let_def)

lemma ue_handleRecv_good:
  assumes "ue_good bw e" and "ue_recving_msg e = new_udp_msg_buffer" and "length data \<le> UDP_BUFFER_SIZE"
  shows "ue_good bw (ue_handleRecv r clock roll error src data (ue_received e))"
proof -
  have "buffer_ok (buffer_resize (int (length data))
      (new_udp_msg_buffer\<lparr>bf_buf := map_option (\<lambda>arr. data @ drop (length data) arr) (bf_buf new_udp_msg_buffer)\<rparr>))"
    using assms(3) by (simp add: new_udp_msg_buffer_def buffer_alloc_def buffer_resize_def buffer_ok_def buffer_read_def)
  moreover have "set (ue_recv_queue (ue_handleRecv r clock roll error src data (ue_received e))) \<subseteq> set (ue_recv_queue e) \<or>
      error = Success \<and> (\<exists>m. ue_recv_queue (ue_handleRecv r clock roll error src data (ue_received e)) = ue_recv_queue e @ [m] \<and>
        um_msg m = buffer_resize (int (length data))
          ((ue_recving_msg e)\<lparr>bf_buf := map_option (\<lambda>arr. data @ drop (length data) arr) (bf_buf (ue_recving_msg e))\<rparr>))"
    by (auto simp: ue_handleRecv_def ue_received_def ue_asyncRecv_def ue_stop_def Let_def)
  moreover have "ue_send_queue (ue_handleRecv r clock roll error src data (ue_received e)) = ue_send_queue e"
    by (simp add: ue_handleRecv_def ue_received_def ue_asyncRecv_def ue_stop_def Let_def)
  ultimately show ?thesis using assms(1,2) by (auto simp: ue_good_def ue_handleRecv_keeps)
qed

text \<open>A step of the routine thread returns unless it meets the assertion, and keeps the accounts.\<close>

lemma ut_next_goes:
  assumes fine: "us_fine bw H (uw_s (ut_w t))" and inv: "ut_inv t"
  shows "us_goes bw H {} (uw_s (ut_w t)) (map_sum id (\<lambda>t. uw_s (ut_w t)) (ut_next env timeout running now t))"
proof -
  let ?s = "uw_s (ut_w t)"
  have via: "us_goes bw H {} ?s (map_sum id (\<lambda>t. uw_s (ut_w t)) (and_then r (\<lambda>(go, s). Inr (ut_goto t s (f go)))))"
    if "us_goes bw H K ?s (map_sum id snd r)" for K f and r :: "failure + bool \<times> 'a udp_server"
    using us_goes_mono [OF that, of "{}"] by (cases r) (auto split: prod.splits)
  have keys: "\<forall>k \<in> set (pc_keys (ut_pc t)). smap_find (us_endpoints ?s) k \<noteq> None" using inv by (simp add: ut_inv_def)
  show ?thesis
  proof (cases "ut_pc t")
    case Sleeping
    then have "?s\<lparr>us_new := []\<rparr> = ?s" using inv by (simp add: ut_inv_def)
    then show ?thesis using us_goes_refl [OF fine] Sleeping by (simp add: ut_next_def Let_def)
  next
    case (Receiving iv tmo n ks)
    then show ?thesis
      using via [OF us_recv_enter_goes [OF fine]] us_merge_fine [OF fine] keys
      by (cases ks) (simp_all add: ut_next_def Let_def)
  next
    case (Receiving_in iv tmo n k ks)
    then show ?thesis using via [OF us_recv_one_goes [OF fine]] keys by (simp add: ut_next_def Let_def)
  next
    case (Sending ks)
    then show ?thesis using us_goes_refl [OF fine] by (cases ks) (simp_all add: ut_next_def Let_def)
  next
    case (Sending_in k ks)
    then show ?thesis using via [OF us_send_one_goes [OF fine]] keys by (simp add: ut_next_def Let_def)
  next
    case (Stopping ks)
    show ?thesis
    proof (cases ks)
      case Nil
      then show ?thesis using us_goes_refl [OF fine] Stopping by (simp add: ut_next_def Let_def)
    next
      case (Cons k ks')
      then obtain e where e: "smap_find (us_endpoints ?s) k = Some e" using keys Stopping by auto
      have "us_sound bw H ?s" using fine by (simp add: us_fine_def)
      from us_sound_find [OF this e] have "ue_good bw e" .
      then have "us_goes bw H {} ?s (Inr (us_put k (ue_stop e) ?s))"
        by (intro us_goes_put [OF fine e]) (simp_all add: ue_stop_def ue_good_def)
      then show ?thesis using e Cons Stopping by (simp add: ut_next_def us_stop_at_def Let_def)
    qed
  next
    case Finished
    then show ?thesis using us_goes_refl [OF fine] by (simp add: ut_next_def Let_def)
  qed
qed

lemma udp_own_acc:
  assumes inv: "udp_part_inv x t" and own: "ut_own (udp_at x t) v" and acc: "ip_acc x (udp_held t + H)"
    and room: "size (udp_held t + H) + udp_load t < 2147483648"
  shows "us_sound (ipx_bandwidth x) H (uw_s (ut_w v))"
proof -
  let ?t = "udp_at x t"
  note sound = udp_part_sound [OF inv acc]
  have fresh: "ue_recving_msg e = new_udp_msg_buffer" if "us_find (uw_s (ut_w ?t)) k = Some e" for k e
    using uei.all_ok_us_find [OF _ that] sound(2) by (simp add: ut_inv_def udp_inv_def ue_ok_def)
  have store: "us_sound (ipx_bandwidth x) H (us_store k (ue_handleRecv r clock roll error src data (ue_received e)) (uw_s (ut_w ?t)))"
    if e: "us_find (uw_s (ut_w ?t)) k = Some e" and "length data \<le> UDP_BUFFER_SIZE" for k e r clock roll error src data
    using us_sound_store [OF sound(1) e] ue_handleRecv_keeps(1)
      ue_handleRecv_good [OF us_sound_us_find [OF sound(1) e] fresh [OF e] that(2)] by blast
  from own show ?thesis
  proof cases
    case (recv k e data src r clock roll)
    then show ?thesis using store [OF recv(2,4), of r clock roll Success src] by simp
  next
    case (recv_error k e error r clock roll src)
    then show ?thesis using store [OF recv_error(2), of "[]" r clock roll error src] by simp
  next
    case (routine env timeout running now)
    have "us_fine (ipx_bandwidth x) H (uw_s (ut_w ?t))"
      using sound(1) room by (simp add: us_fine_def udp_held_def udp_load_def)
    from ut_next_goes [OF this sound(2), of env timeout running now] show ?thesis
      by (simp add: routine us_goes_def us_fine_def)
  qed
qed

interpretation udp_part: ip_holder udp_held udp_load udp_part_inv udp_part_step
proof
  fix x y :: "'a ip_proxies" and t v H
  assume inv: "udp_part_inv x t"
  then have r: "ut_reach (udp_at x t)" by (simp add: udp_part_inv_def)
  show "udp_part_inv y t" if "ipx_bandwidth y = ipx_bandwidth x"
    using reach_step [OF r ut_step.others [of "udp_at x t" y]] inv that
    by (simp add: udp_part_inv_def udp_goods_def udp_at_def)
  assume "udp_part_step x t y v"
  then have own: "ut_own (udp_at x t) v" and y: "y = us_x (uw_s (ut_w v))" by (simp_all add: udp_part_step_def)
  show "udp_part_inv y v \<and> ip_acc y (udp_held v + H) \<and> ipx_bandwidth y = ipx_bandwidth x"
    if "ip_acc x (udp_held t + H)" "size (udp_held t + H) + udp_load t < 2147483648"
    using udp_own_acc [OF inv own that] reach_step [OF r ut_step.own [OF own]]
    by (auto simp: y udp_part_inv_def udp_goods_def us_sound_def udp_held_def dest: us_sound_us_find [OF udp_own_acc [OF inv own that]])
qed

text \<open>
  A step of the routine thread, and a whole tick, return unless a datagram claims to come from
  its own target.
\<close>

lemma udp_part_total:
  assumes "udp_part_inv x t" and "ip_acc x (udp_held t + H)"
    and "size (udp_held t + H) + udp_load t < 2147483648" and "\<not> us_self (uw_s (ut_w t))"
  shows "\<exists>r. ut_next env timeout running now (udp_at x t) = Inr r"
    and "ut_pc t = Sleeping \<Longrightarrow> \<exists>r. us_tick env timeout now (uw_last (ut_w t)) (uw_s (ut_w (udp_at x t))) = Inr r"
proof -
  note sound = udp_part_sound [OF assms(1,2)]
  have fine: "us_fine (ipx_bandwidth x) H (uw_s (ut_w (udp_at x t)))"
    using sound(1) assms(3) by (simp add: us_fine_def udp_held_def udp_load_def)
  show "\<exists>r. ut_next env timeout running now (udp_at x t) = Inr r"
    using ut_next_goes [OF fine sound(2), of env timeout running now] assms(4)
    by (cases "ut_next env timeout running now (udp_at x t)") (simp_all add: us_goes_def us_self_x)
  assume "ut_pc t = Sleeping"
  then have "us_new (uw_s (ut_w t)) = []" using sound(2) by (simp add: ut_inv_def)
  then show "\<exists>r. us_tick env timeout now (uw_last (ut_w t)) (uw_s (ut_w (udp_at x t))) = Inr r"
    using us_tick_goes [OF fine, of env timeout now "uw_last (ut_w t)"] assms(4)
    by (cases "us_tick env timeout now (uw_last (ut_w t)) (uw_s (ut_w (udp_at x t)))") (simp_all add: us_goes_def us_self_x)
qed

end
