(* ===== verification/Istream.thy ===== *)
theory Istream
  imports Prelude
begin

text \<open>
  The part of the C++ stream library that reads the configuration: the lines of a file,
  and \<open>operator>>\<close> of an \<open>istringstream\<close> for strings and decimal integers. A stream is the
  text not yet read, or \<open>None\<close> once an extraction has failed; a failed stream stays failed
  and reads nothing more. The decimal numeral \<open>dec\<close> is the inverse of the extraction.
\<close>

section \<open>Characters\<close>

definition is_space :: "char \<Rightarrow> bool" where
  "is_space c \<longleftrightarrow> (let n = of_char c :: nat in n = 32 \<or> (9 \<le> n \<and> n \<le> 13))"

definition is_digit :: "char \<Rightarrow> bool" where
  "is_digit c \<longleftrightarrow> (let n = of_char c :: nat in 48 \<le> n \<and> n \<le> 57)"

definition digit_val :: "char \<Rightarrow> nat" where
  "digit_val c = of_char c - 48"

section \<open>Lines\<close>

text \<open>
  \<open>while (!fin.eof()) getline(fin, line)\<close>: the pieces between line feeds; a final line feed
  is followed by one more, empty, line.
\<close>

fun split_lines :: "string \<Rightarrow> string list" where
  "split_lines [] = [[]]"
| "split_lines (c # cs) =
     (if c = CHR 0x0A then [] # split_lines cs
      else case split_lines cs of [] \<Rightarrow> [[c]] | l # ls \<Rightarrow> (c # l) # ls)"

section \<open>Extraction\<close>

type_synonym istream = "string option"

definition read_string :: "istream \<Rightarrow> (string \<times> string) option" where
  "read_string st =
     (case st of
        None \<Rightarrow> None
      | Some s \<Rightarrow>
          let s = dropWhile is_space s in
          if s = [] then None
          else Some (takeWhile (\<lambda>c. \<not> is_space c) s, dropWhile (\<lambda>c. \<not> is_space c) s))"

text \<open>The value of a sequence of digits, and sign, digits and rest of a numeral.\<close>

definition digits_val :: "string \<Rightarrow> nat" where
  "digits_val ds = foldl (\<lambda>v c. 10 * v + digit_val c) 0 ds"

definition scan_numeral :: "string \<Rightarrow> bool \<times> string \<times> string" where
  "scan_numeral s =
     (let (neg, s) = (case s of
            [] \<Rightarrow> (False, [])
          | c # cs \<Rightarrow> if c = CHR ''-'' then (True, cs) else if c = CHR ''+'' then (False, cs)
                      else (False, c # cs))
      in (neg, takeWhile is_digit s, dropWhile is_digit s))"

text \<open>
  \<open>is >> i\<close> for an \<open>int\<close>: the value written, if any, and the stream. Without digits the
  value is 0, out of range it is the nearest bound, and the stream fails; a stream with
  nothing left but white space fails and leaves the variable alone.
\<close>

definition read_int :: "istream \<Rightarrow> int option \<times> istream" where
  "read_int st =
     (case st of
        None \<Rightarrow> (None, None)
      | Some s \<Rightarrow>
          let s = dropWhile is_space s in
          if s = [] then (None, None)
          else
            let (neg, ds, rest) = scan_numeral s; v = int (digits_val ds) in
            if ds = [] then (Some 0, None)
            else if neg then (if v \<le> 2147483648 then (Some (- v), Some rest) else (Some (- 2147483648), None))
            else (if v \<le> 2147483647 then (Some v, Some rest) else (Some 2147483647, None)))"

text \<open>\<open>is >> i\<close> for a \<open>uint16\<close>: a sign is accepted and negates modulo \<open>2 ^ 16\<close>.\<close>

definition read_uint16 :: "istream \<Rightarrow> 16 word option \<times> istream" where
  "read_uint16 st =
     (case st of
        None \<Rightarrow> (None, None)
      | Some s \<Rightarrow>
          let s = dropWhile is_space s in
          if s = [] then (None, None)
          else
            let (neg, ds, rest) = scan_numeral s; v = digits_val ds in
            if ds = [] then (Some 0, None)
            else if 65535 < v then (Some 65535, None)
            else (Some (if neg then - of_nat v else of_nat v), Some rest))"

text \<open>The value and the rest of the stream when the extraction succeeds.\<close>

definition extracted :: "'v option \<times> istream \<Rightarrow> ('v \<times> string) option" where
  "extracted r = (case r of (Some v, Some rest) \<Rightarrow> Some (v, rest) | _ \<Rightarrow> None)"

section \<open>Decimal numerals\<close>

fun dec :: "nat \<Rightarrow> string" where
  "dec n = (if n < 10 then [char_of (48 + n)] else dec (n div 10) @ [char_of (48 + n mod 10)])"

declare dec.simps [simp del]

text \<open>Text that starts no digit: the end or a blank.\<close>

definition at_break :: "string \<Rightarrow> bool" where
  "at_break s \<longleftrightarrow> s = [] \<or> is_space (hd s)"

lemma digit_char:
  assumes "n < 10"
  shows "is_digit (char_of (48 + n))" and "digit_val (char_of (48 + n)) = n"
  using assms by (simp_all add: is_digit_def digit_val_def Let_def)

lemma digit_not_space: "is_digit c \<Longrightarrow> \<not> is_space c"
  by (auto simp: is_digit_def is_space_def Let_def)

lemma digit_not_sign: "is_digit c \<Longrightarrow> c \<noteq> CHR ''-'' \<and> c \<noteq> CHR ''+''"
  by (auto simp: is_digit_def Let_def)

lemma space_not_digit: "is_space c \<Longrightarrow> \<not> is_digit c"
  using digit_not_space by blast

lemma dec_digits: "\<forall>c \<in> set (dec n). is_digit c"
  by (induction n rule: dec.induct) (subst dec.simps, auto simp: digit_char)

lemma dec_not_Nil [simp]: "dec n \<noteq> []"
  by (subst dec.simps) simp

lemma digits_val_snoc: "digits_val (ds @ [c]) = 10 * digits_val ds + digit_val c"
  by (simp add: digits_val_def)

lemma digits_val_dec [simp]: "digits_val (dec n) = n"
proof (induction n rule: dec.induct)
  case (1 n)
  show ?case
  proof (cases "n < 10")
    case True
    then show ?thesis by (subst dec.simps) (simp add: digits_val_def digit_char)
  next
    case False
    have "digits_val (dec n) = 10 * (n div 10) + digit_val (char_of (48 + n mod 10))"
      using False 1 by (subst dec.simps) (simp add: digits_val_snoc)
    then show ?thesis by (simp add: digit_char)
  qed
qed

lemma break_split:
  assumes "at_break s" and "\<forall>c \<in> set ds. is_digit c"
  shows "takeWhile is_digit (ds @ s) = ds" and "dropWhile is_digit (ds @ s) = s"
  using assms by (induction ds) (auto simp: at_break_def takeWhile_eq_Nil_iff space_not_digit intro: dropWhile_eq_self_iff [THEN iffD2])

lemma dec_hd: "is_digit (hd (dec n))"
  using dec_digits [of n] by (cases "dec n") auto

lemma scan_dec:
  assumes "at_break s"
  shows "scan_numeral (dec n @ s) = (False, dec n, s)"
proof -
  obtain c cs where c: "dec n = c # cs" by (cases "dec n") simp_all
  then have "c \<noteq> CHR ''-'' \<and> c \<noteq> CHR ''+''" using dec_hd [of n] digit_not_sign by simp
  then show ?thesis
    using break_split [OF assms dec_digits, of n] c by (simp add: scan_numeral_def Let_def)
qed

lemma scan_neg_dec:
  assumes "at_break s"
  shows "scan_numeral (CHR ''-'' # dec n @ s) = (True, dec n, s)"
  using break_split [OF assms dec_digits, of n] by (simp add: scan_numeral_def Let_def)

lemma space_blank [simp]: "is_space CHR '' ''" and minus_not_space [simp]: "\<not> is_space CHR ''-''"
  by (simp_all add: is_space_def)

lemma skip_dec [simp]: "dropWhile is_space (dec n @ s) = dec n @ s"
proof -
  obtain c cs where "dec n = c # cs" by (cases "dec n") simp_all
  then show ?thesis using digit_not_space [OF dec_hd, of n] by simp
qed

lemma at_break_simps [simp]: "at_break []" "at_break (CHR '' '' # s)"
  by (simp_all add: at_break_def)

text \<open>A signed numeral as it is written, and the extractions that read it back.\<close>

definition dec_int :: "int \<Rightarrow> string" where
  "dec_int i = (if i < 0 then CHR ''-'' # dec (nat (- i)) else dec (nat i))"

lemma read_uint16_dec:
  assumes "at_break s"
  shows "extracted (read_uint16 (Some (CHR '' '' # dec (unat w) @ s))) = Some (w, s)"
proof -
  have "unat w < 2 ^ LENGTH(16)" by (rule unsigned_less)
  then show ?thesis
  by (simp add: read_uint16_def scan_dec [OF assms] extracted_def Let_def)
qed

lemma read_int_dec:
  assumes "at_break s" and "in_i32 i"
  shows "extracted (read_int (Some (CHR '' '' # dec_int i @ s))) = Some (i, s)"
proof (cases "i < 0")
  case True
  then have "nat (- i) \<le> 2147483648" using assms(2) by (simp add: in_i32_def)
  then show ?thesis
    using True by (simp add: read_int_def dec_int_def scan_neg_dec [OF assms(1)] extracted_def Let_def)
next
  case False
  then have "nat i \<le> 2147483647" using assms(2) by (simp add: in_i32_def)
  then show ?thesis
    using False by (simp add: read_int_def dec_int_def scan_dec [OF assms(1)] extracted_def Let_def)
qed

text \<open>A word of text: not empty and without white space.\<close>

definition is_word :: "string \<Rightarrow> bool" where
  "is_word w \<longleftrightarrow> w \<noteq> [] \<and> (\<forall>c \<in> set w. \<not> is_space c)"

lemma read_string_word:
  assumes "is_word w" and "at_break s"
  shows "read_string (Some (w @ s)) = Some (w, s)" and "read_string (Some (CHR '' '' # w @ s)) = Some (w, s)"
proof -
  have tk: "takeWhile (\<lambda>c. \<not> is_space c) (w @ s) = w" and dr: "dropWhile (\<lambda>c. \<not> is_space c) (w @ s) = s"
    using assms by (cases s; simp add: is_word_def at_break_def)+
  have skip: "dropWhile is_space (w @ s) = w @ s"
    using assms(1) by (cases w) (simp_all add: is_word_def)
  have ne: "w @ s \<noteq> []" using assms(1) by (simp add: is_word_def)
  show "read_string (Some (w @ s)) = Some (w, s)"
    using ne tk dr by (simp only: read_string_def skip Let_def option.case if_False)
  then show "read_string (Some (CHR '' '' # w @ s)) = Some (w, s)"
    by (simp add: read_string_def)
qed

lemma read_none [simp]:
  "read_string None = None" "read_int None = (None, None)" "read_uint16 None = (None, None)"
  by (simp_all add: read_string_def read_int_def read_uint16_def)

lemma read_int_end [simp]: "read_int (Some []) = (None, None)"
  by (simp add: read_int_def)

end
