(* ===== verification/Io_Pool.thy ===== *)
theory Io_Pool
  imports Prelude
begin

text \<open>
  \<open>io_service_pool.h\<close> and \<open>io_service_pool.cpp\<close>: a fixed number of \<open>io_service\<close>
  objects, one thread for each, and a life cycle that runs once through
  \<open>BEGIN\<close>, \<open>START\<close>, \<open>STOP\<close>, \<open>FINISH\<close>. A service is its index; what the pool does to
  threads and services is a list of events. \<open>start\<close>, \<open>stop\<close> and \<open>join\<close> run under the
  mutex of the pool, so a sequence of calls describes every use of them.
\<close>

section \<open>State\<close>

datatype pool_step = BEGIN | START | STOP | FINISH

datatype pool_io =
    Thread_run nat      \<comment> \<open>a thread that calls \<open>run\<close> of the service is created\<close>
  | Service_stop nat    \<comment> \<open>\<open>io_service::stop\<close>\<close>
  | Thread_join nat     \<comment> \<open>the thread of the service is joined\<close>

record io_pool =
  pl_io_services :: "nat list"
  pl_work :: "nat list"          \<comment> \<open>the \<open>work\<close> that keeps the service from running dry\<close>
  pl_threads :: "nat list"       \<comment> \<open>the service each thread runs\<close>
  pl_step :: pool_step
  pl_next_io_service :: nat

section \<open>Operations\<close>

definition pool_new :: "nat \<Rightarrow> io_pool" where
  "pool_new pool_size =
     fold (\<lambda>i p. p\<lparr>pl_io_services := pl_io_services p @ [i], pl_work := pl_work p @ [i]\<rparr>)
       [0..<pool_size]
       \<lparr>pl_io_services = [], pl_work = [], pl_threads = [], pl_step = BEGIN, pl_next_io_service = 0\<rparr>"

definition pool_start :: "io_pool \<Rightarrow> failure + (pool_io list \<times> io_pool)" where
  "pool_start p =
     (if pl_step p \<noteq> BEGIN then Inl Assert_failed
      else
        let p = p\<lparr>pl_step := START\<rparr> in
        Inr (map Thread_run (pl_io_services p),
             p\<lparr>pl_threads := pl_threads p @ pl_io_services p\<rparr>))"

definition pool_stop :: "io_pool \<Rightarrow> pool_io list \<times> io_pool" where
  "pool_stop p =
     (if pl_step p = START
      then let p = p\<lparr>pl_step := STOP\<rparr> in (map Service_stop (pl_io_services p), p)
      else ([], p))"

definition pool_join :: "io_pool \<Rightarrow> pool_io list \<times> io_pool" where
  "pool_join p =
     (if pl_step p = STOP
      then let p = p\<lparr>pl_step := FINISH\<rparr> in (map Thread_join (pl_threads p), p)
      else ([], p))"

text \<open>The service handed out and the pool with the next index.\<close>

definition get_io_service :: "io_pool \<Rightarrow> failure + (nat \<times> io_pool)" where
  "get_io_service p =
     (if length (pl_io_services p) = 0 then Inl Runtime_error
      else if length (pl_io_services p) \<le> pl_next_io_service p then Inl Out_of_bounds
      else
        let io_service = pl_io_services p ! pl_next_io_service p;
            p = p\<lparr>pl_next_io_service := Suc (pl_next_io_service p)\<rparr>;
            p = (if pl_next_io_service p = length (pl_io_services p)
                 then p\<lparr>pl_next_io_service := 0\<rparr> else p)
        in Inr (io_service, p))"

section \<open>Any sequence of calls\<close>

datatype pool_op = Op_start | Op_stop | Op_join | Op_get

text \<open>A call that throws changes nothing: \<open>XASSERT\<close> and the size test come first.\<close>

fun pool_do :: "pool_op \<Rightarrow> io_pool \<Rightarrow> pool_io list \<times> io_pool" where
  "pool_do Op_start p = (case pool_start p of Inl _ \<Rightarrow> ([], p) | Inr r \<Rightarrow> r)"
| "pool_do Op_stop p = pool_stop p"
| "pool_do Op_join p = pool_join p"
| "pool_do Op_get p = (case get_io_service p of Inl _ \<Rightarrow> ([], p) | Inr (_, p) \<Rightarrow> ([], p))"

fun pool_run :: "pool_op list \<Rightarrow> io_pool \<Rightarrow> pool_io list \<times> io_pool" where
  "pool_run [] p = ([], p)"
| "pool_run (oper # opers) p =
     (let (io, p) = pool_do oper p; (io', p) = pool_run opers p in (io @ io', p))"

fun pool_gets :: "nat \<Rightarrow> io_pool \<Rightarrow> failure + (nat list \<times> io_pool)" where
  "pool_gets 0 p = Inr ([], p)"
| "pool_gets (Suc k) p =
     and_then (get_io_service p) (\<lambda>(s, p).
     and_then (pool_gets k p) (\<lambda>(ss, p). Inr (s # ss, p)))"

text \<open>How far the life cycle has gone, and what has happened by then in a pool of size \<open>n\<close>.\<close>

fun pool_phase :: "pool_step \<Rightarrow> nat" where
  "pool_phase BEGIN = 0"
| "pool_phase START = 1"
| "pool_phase STOP = 2"
| "pool_phase FINISH = 3"

definition pool_history :: "nat \<Rightarrow> nat \<Rightarrow> pool_io list" where
  "pool_history n k =
     concat (take k [map Thread_run [0..<n], map Service_stop [0..<n], map Thread_join [0..<n]])"

definition pool_ok :: "nat \<Rightarrow> io_pool \<Rightarrow> bool" where
  "pool_ok n p \<longleftrightarrow> pl_io_services p = [0..<n] \<and> pl_work p = [0..<n] \<and>
     pl_threads p = (if pl_step p = BEGIN then [] else [0..<n]) \<and>
     (if n = 0 then pl_next_io_service p = 0 else pl_next_io_service p < n)"

lemma pool_new_fields:
  "pool_new n = \<lparr>pl_io_services = [0..<n], pl_work = [0..<n], pl_threads = [], pl_step = BEGIN,
     pl_next_io_service = 0\<rparr>"
proof -
  have "fold (\<lambda>i p. p\<lparr>pl_io_services := pl_io_services p @ [i], pl_work := pl_work p @ [i]\<rparr>) is p =
      p\<lparr>pl_io_services := pl_io_services p @ is, pl_work := pl_work p @ is\<rparr>"
    for "is" :: "nat list" and p :: io_pool
    by (induction "is" arbitrary: p) simp_all
  then show ?thesis by (simp add: pool_new_def)
qed

lemma pool_ok_new: "pool_ok n (pool_new n)"
  by (simp add: pool_ok_def pool_new_fields)

lemma get_io_service_ok:
  assumes "pool_ok n p"
  shows "get_io_service p =
    (if n = 0 then Inl Runtime_error
     else Inr (pl_next_io_service p, p\<lparr>pl_next_io_service := Suc (pl_next_io_service p) mod n\<rparr>))"
  using assms by (cases "n = 0") (auto simp: get_io_service_def pool_ok_def Let_def mod_Suc)

lemma pool_do_ok:
  assumes "pool_ok n p"
  shows "pool_ok n (snd (pool_do oper p))"
    and "pool_history n (pool_phase (pl_step p)) @ fst (pool_do oper p) =
         pool_history n (pool_phase (pl_step (snd (pool_do oper p))))"
  using assms
  by (cases oper; cases "pl_step p";
      auto simp: get_io_service_ok pool_start_def pool_stop_def pool_join_def pool_ok_def
        pool_history_def Let_def numeral_eq_Suc split: if_splits)+

lemma pool_run_ok:
  assumes "pool_ok n p"
  shows "pool_history n (pool_phase (pl_step p)) @ fst (pool_run opers p) =
         pool_history n (pool_phase (pl_step (snd (pool_run opers p))))"
  using assms
proof (induction opers arbitrary: p)
  case (Cons oper opers)
  have "pool_ok n (snd (pool_do oper p))" using Cons.prems by (rule pool_do_ok(1))
  from Cons.IH [OF this] pool_do_ok(2) [OF Cons.prems, of oper] show ?case
    by (auto simp: case_prod_unfold Let_def) (metis append.assoc)
qed simp

text \<open>
  C36. Whatever calls are made on a pool of n services, in whatever order, the pool creates one
  thread per service, then stops each service, then joins each thread, each of them at most
  once and never out of this order: what has happened is determined by the step the pool has
  reached. Repeated or premature calls do nothing, and start throws exactly after the first.
\<close>

theorem pool_lifecycle:
  "fst (pool_run opers (pool_new n)) =
     pool_history n (pool_phase (pl_step (snd (pool_run opers (pool_new n))))) \<and>
   (pool_start (snd (pool_run opers (pool_new n))) = Inl Assert_failed \<longleftrightarrow>
     pl_step (snd (pool_run opers (pool_new n))) \<noteq> BEGIN)"
  using pool_run_ok [OF pool_ok_new, of n opers]
  by (simp add: pool_start_def Let_def)
     (simp add: pool_new_fields pool_history_def)

section \<open>Round robin\<close>

lemma pool_gets_ok:
  assumes "pool_ok n p" and "0 < n"
  shows "pool_gets k p = Inr (map (\<lambda>i. (pl_next_io_service p + i) mod n) [0..<k],
    p\<lparr>pl_next_io_service := (pl_next_io_service p + k) mod n\<rparr>)"
  using assms(1)
proof (induction k arbitrary: p)
  case 0
  then show ?case using assms(2) by (simp add: pool_ok_def)
next
  case (Suc k)
  let ?p = "p\<lparr>pl_next_io_service := Suc (pl_next_io_service p) mod n\<rparr>"
  have ok: "pool_ok n ?p" using Suc.prems assms(2) by (auto simp: pool_ok_def)
  have shift: "map (\<lambda>i. (Suc (pl_next_io_service p) mod n + i) mod n) [0..<k] =
      map (\<lambda>i. (pl_next_io_service p + i) mod n) [Suc 0..<Suc k]"
    by (simp add: map_Suc_upt [symmetric] mod_simps del: upt_Suc)
  have "(pl_next_io_service p + 0) mod n = pl_next_io_service p"
    using Suc.prems assms(2) by (simp add: pool_ok_def)
  then show ?case
    using Suc.IH [OF ok] assms(2) shift
    by (simp add: get_io_service_ok [OF Suc.prems] upt_conv_Cons mod_simps del: upt_Suc)
qed

lemma count_mod:
  assumes "j < n"
  shows "count_list (map (\<lambda>i. i mod n) [0..<k]) j = (k + (n - 1 - j)) div n"
proof (induction k)
  case 0
  then show ?case using assms by simp
next
  case (Suc k)
  have "k mod n = j \<longleftrightarrow> Suc (k + (n - 1 - j)) mod n = 0"
  proof -
    have "Suc (k + (n - 1 - j)) = k + (n - j)" using assms by simp
    also have "(k + (n - j)) mod n = 0 \<longleftrightarrow> (k mod n + (n - j)) mod n = 0" by (simp add: mod_simps)
    also have "\<dots> \<longleftrightarrow> k mod n = j"
    proof (cases "k mod n < j")
      case True
      then show ?thesis using assms by simp
    next
      case False
      have lt: "k mod n < n" using assms by simp
      have "k mod n + (n - j) = n + (k mod n - j)" using False assms by simp
      then have "(k mod n + (n - j)) mod n = (n + (k mod n - j)) mod n" by (rule arg_cong)
      then have "(k mod n + (n - j)) mod n = k mod n - j" using lt by simp
      then show ?thesis using False by auto
    qed
    finally show ?thesis by simp
  qed
  then show ?case using Suc by (simp add: div_Suc)
qed

text \<open>
  get_io_service hands the services of a non-empty pool out in turn: the i-th call gives
  service i mod n, so of k calls service j gets the (k + n - 1 - j) div n that are its share,
  and no two services differ by more than one. The index never leaves the array. A pool of
  size 0 throws on every call.
\<close>

lemma pool_round_robin:
  assumes "0 < n" and "j < n"
  shows "pool_gets k (pool_new n) =
      Inr (map (\<lambda>i. i mod n) [0..<k], (pool_new n)\<lparr>pl_next_io_service := k mod n\<rparr>) \<and>
    count_list (map (\<lambda>i. i mod n) [0..<k]) j = (k + (n - 1 - j)) div n \<and>
    get_io_service (pool_new 0) = Inl Runtime_error"
  using pool_gets_ok [OF pool_ok_new assms(1), of k] count_mod [OF assms(2), of k]
  by (simp add: pool_new_fields get_io_service_def)

lemma pool_round_robin_witness:
  "pool_gets 5 (pool_new 2) = Inr ([0, 1, 0, 1, 0], (pool_new 2)\<lparr>pl_next_io_service := 1\<rparr>) \<and>
   count_list [0, 1, 0, 1, 0 :: nat] 1 = 2"
  using pool_round_robin [of 2 1 5] by (simp add: upt_conv_Cons)

end
