(* ===== verification/Shared_Data.thy ===== *)
theory Shared_Data
  imports Istream Io_Pool Tcp_Proxy Udp_Proxy
begin

text \<open>
  \<open>shared_data.h\<close> and \<open>shared_data.cpp\<close>: what the process shares (the TCP proxies, the UDP
  server with the client address table, the pool of network threads), the reading of the
  configuration file that fills it, and its start and stop. \<open>boost::trim\<close>,
  \<open>address::from_string\<close>, the results of Boost.Asio and the clock are arguments.
\<close>

section \<open>State\<close>

record 'a shared_data =
  sd_proxies :: "(nat \<times> 'a tcp_proxy) list"   \<comment> \<open>with the service each one runs on\<close>
  sd_udp :: "'a udp_server"                  \<comment> \<open>holds the address table \<open>ip_proxies\<close> too\<close>
  sd_udp_threads :: nat
  sd_pool :: "io_pool option"                \<comment> \<open>\<open>None\<close> for \<open>NULL\<close>\<close>

definition new_udp_server :: "'a udp_server" where
  "new_udp_server =
     \<lparr>us_endpoints = [], us_new = [], us_x = new_ip_proxies, us_inits = 0, us_sends = 0, us_sent = []\<rparr>"

definition new_shared_data :: "'a shared_data" where
  "new_shared_data =
     \<lparr>sd_proxies = [], sd_udp = new_udp_server, sd_udp_threads = 0, sd_pool = None\<rparr>"

text \<open>
  What the parser calls: two Boost functions (\<open>None\<close> when the address is malformed) and,
  by line, the answers of Boost.Asio and the clock.
\<close>

record 'a conf_env =
  ce_trim :: "string \<Rightarrow> string"
  ce_from_string :: "string \<Rightarrow> 'a option"
  ce_asio :: "nat \<Rightarrow> asio_results"
  ce_udp :: "nat \<Rightarrow> udp_init"
  ce_clock :: "nat \<Rightarrow> msec"

text \<open>The local variables of \<open>init\<close> that outlive a line, the lines reported, the I/O started.\<close>

record 'a conf =
  cf_sd :: "'a shared_data"
  cf_ip_send_bandwith :: int
  cf_ip_recv_bandwidth :: int
  cf_log :: "nat list"
  cf_io :: "(nat \<times> tcp_proxy_io) list"

section \<open>SharedData::init\<close>

definition conf_report :: "nat \<Rightarrow> 'a conf \<Rightarrow> 'a conf" where
  "conf_report line_num c = c\<lparr>cf_log := cf_log c @ [line_num]\<rparr>"

definition conf_set :: "int option \<Rightarrow> int \<Rightarrow> int" where
  "conf_set written old = (case written of None \<Rightarrow> old | Some v \<Rightarrow> v)"

definition conf_ip :: "nat \<Rightarrow> istream \<Rightarrow> 'a conf \<Rightarrow> 'a conf" where
  "conf_ip line_num is c =
     (let (w, is) = read_int is;
          c = c\<lparr>cf_ip_send_bandwith := conf_set w (cf_ip_send_bandwith c)\<rparr>
      in if is = None then conf_report line_num c
      else
        let (w, is) = read_int is;
            c = c\<lparr>cf_ip_recv_bandwidth := conf_set w (cf_ip_recv_bandwidth c)\<rparr>
        in if is = None then conf_report line_num c else c)"

text \<open>The condition both kinds of rule share: source port, address, destination port.\<close>

definition conf_dest :: "'a conf_env \<Rightarrow> istream \<Rightarrow> (16 word \<times> 'a endpoint \<times> string) option" where
  "conf_dest env is =
     Option.bind (extracted (read_uint16 is)) (\<lambda>(src_port, is).
     Option.bind (read_string (Some is)) (\<lambda>(dst_ip, is).
     Option.bind (ce_from_string env dst_ip) (\<lambda>ip_addr.
     Option.bind (extracted (read_uint16 (Some is))) (\<lambda>(dst_port, is).
       Some (src_port, Endpoint ip_addr dst_port, is)))))"

text \<open>\<open>if (is >> extra_param) proxy_rule.field = extra_param;\<close>\<close>

definition conf_extra :: "(int \<Rightarrow> 'r \<Rightarrow> 'r) \<Rightarrow> istream \<times> 'r \<Rightarrow> istream \<times> 'r" where
  "conf_extra set_field r =
     (case extracted (read_int (fst r)) of
        None \<Rightarrow> (None, snd r)
      | Some (extra_param, is) \<Rightarrow> (Some is, set_field extra_param (snd r)))"

definition conf_service :: "'a shared_data \<Rightarrow> failure + (nat \<times> 'a shared_data)" where
  "conf_service sd =
     (case sd_pool sd of
        None \<Rightarrow> Inl Null_deref
      | Some p \<Rightarrow> and_then (get_io_service p) (\<lambda>(io_service, p).
          Inr (io_service, sd\<lparr>sd_pool := Some p\<rparr>)))"

definition conf_tcp :: "'a conf_env \<Rightarrow> nat \<Rightarrow> istream \<Rightarrow> 'a conf \<Rightarrow> failure + 'a conf" where
  "conf_tcp env line_num is c =
     (case conf_dest env is of
        None \<Rightarrow> Inr (conf_report line_num c)
      | Some (src_port, dst, is) \<Rightarrow>
          let (is, rule) = conf_extra (\<lambda>v r. r\<lparr>tr_max_bandwidth := v\<rparr>) (Some is, new_tcp_rule src_port dst);
              (is, rule) = conf_extra (\<lambda>v r. r\<lparr>tr_delay_ms := v\<rparr>) (is, rule)
          in and_then (conf_service (cf_sd c)) (\<lambda>(io_service, sd).
             let c = c\<lparr>cf_sd := sd\<rparr> in
             and_then (tp_start (ce_asio env line_num) (tp_new rule (ce_clock env line_num))) (\<lambda>(started, io, proxy).
               let c = c\<lparr>cf_io := cf_io c @ map (Pair line_num) io\<rparr> in
               if \<not> started then Inr (conf_report line_num c)
               else Inr (c\<lparr>cf_sd := sd\<lparr>sd_proxies := sd_proxies sd @ [(io_service, proxy)]\<rparr>\<rparr>))))"

definition conf_udp :: "'a::linorder conf_env \<Rightarrow> nat \<Rightarrow> istream \<Rightarrow> 'a conf \<Rightarrow> failure + 'a conf" where
  "conf_udp env line_num is c =
     (case conf_dest env is of
        None \<Rightarrow> Inr (conf_report line_num c)
      | Some (src_port, dst, is) \<Rightarrow>
          let (is, rule) = conf_extra (\<lambda>v r. r\<lparr>ur_max_bandwidth := v\<rparr>) (Some is, new_udp_rule src_port dst);
              (is, rule) = conf_extra (\<lambda>v r. r\<lparr>ur_delay_ms := v\<rparr>) (is, rule);
              (is, rule) = conf_extra (\<lambda>v r. r\<lparr>ur_drop_prob := v\<rparr>) (is, rule)
          in and_then (conf_service (cf_sd c)) (\<lambda>(io_service, sd).
             and_then (us_addServerProxy (ce_udp env line_num) rule (sd_udp sd)) (\<lambda>s.
               Inr (c\<lparr>cf_sd := sd\<lparr>sd_udp := s\<rparr>\<rparr>))))"

definition conf_line :: "'a::linorder conf_env \<Rightarrow> nat \<Rightarrow> string \<Rightarrow> 'a conf \<Rightarrow> failure + 'a conf" where
  "conf_line env line_num line c =
     (let line = ce_trim env line in
      if line = [] then Inr c
      else if hd line = CHR ''#'' then Inr c
      else
        case read_string (Some line) of
          None \<Rightarrow> Inr (conf_report line_num c)
        | Some (proto, is) \<Rightarrow>
            if proto = ''ip'' then Inr (conf_ip line_num (Some is) c)
            else if proto = ''tcp'' then conf_tcp env line_num (Some is) c
            else if proto = ''udp'' then conf_udp env line_num (Some is) c
            else Inr (conf_report line_num c))"

fun conf_lines :: "'a::linorder conf_env \<Rightarrow> nat \<Rightarrow> string list \<Rightarrow> 'a conf \<Rightarrow> failure + 'a conf" where
  "conf_lines env line_num [] c = Inr c"
| "conf_lines env line_num (line # lines) c =
     and_then (conf_line env (Suc line_num) line c) (conf_lines env (Suc line_num) lines)"

text \<open>\<open>content\<close> is the text of the configuration file, \<open>None\<close> when it cannot be opened.\<close>

definition sd_init :: "'a::linorder conf_env \<Rightarrow> nat \<Rightarrow> string option \<Rightarrow> 'a shared_data \<Rightarrow> failure + 'a conf" where
  "sd_init env network_thread_num content sd =
     (let c = \<lparr>cf_sd = sd\<lparr>sd_pool := Some (pool_new network_thread_num)\<rparr>, cf_ip_send_bandwith = 0,
               cf_ip_recv_bandwidth = 0, cf_log = [], cf_io = []\<rparr>
      in case content of
           None \<Rightarrow> Inr c
         | Some txt \<Rightarrow>
             and_then (conf_lines env 0 (split_lines txt) c) (\<lambda>c.
             let sd = cf_sd c; s = sd_udp sd in
             Inr (c\<lparr>cf_sd := sd\<lparr>sd_udp := s\<lparr>us_x :=
               ip_start (cf_ip_send_bandwith c) (cf_ip_recv_bandwidth c) (us_x s)\<rparr>\<rparr>\<rparr>)))"

section \<open>SharedData::start and SharedData::stop\<close>

datatype shared_io =
    Udp_thread_create
  | Udp_join nat           \<comment> \<open>\<open>grp.join_all()\<close> over so many threads\<close>
  | Ip_join nat
  | Sleep_ms nat
  | Pool_io pool_io

definition sd_start :: "'a shared_data \<Rightarrow> failure + (shared_io list \<times> 'a shared_data)" where
  "sd_start sd =
     (let sd = sd\<lparr>sd_udp_threads := Suc (sd_udp_threads sd)\<rparr> in
      case sd_pool sd of
        None \<Rightarrow> Inl Null_deref
      | Some p \<Rightarrow> and_then (pool_start p) (\<lambda>(io, p).
          Inr (Udp_thread_create # map Pool_io io, sd\<lparr>sd_pool := Some p\<rparr>)))"

definition sd_stop :: "'a shared_data \<Rightarrow> shared_io list \<times> 'a shared_data" where
  "sd_stop sd =
     (let sd = sd\<lparr>sd_proxies := map (\<lambda>(i, t). (i, tp_stop t)) (sd_proxies sd)\<rparr>;
          io = [Udp_join (sd_udp_threads sd), Ip_join (ipx_threads (us_x (sd_udp sd)))]
      in case sd_pool sd of
           None \<Rightarrow> (io, sd)
         | Some p \<Rightarrow>
             let (io1, p) = pool_stop p; (io2, p) = pool_join p
             in (io @ Sleep_ms 100 # map Pool_io (io1 @ io2), sd\<lparr>sd_pool := None\<rparr>))"

end
