(* ===== verification/Shared_Props.thy ===== *)
theory Shared_Props
  imports Shared_Data Tcp_Proxy_Props
begin

text \<open>
  What the reader of the configuration promises: rules are read back as they are written,
  a line that is reported adds nothing, every file is read to its end, and a stopped process
  has joined every thread it created, each after its service was stopped.
\<close>

section \<open>A rule line is read back\<close>

definition extras_text :: "int list \<Rightarrow> string" where
  "extras_text vs = concat (map (\<lambda>v. CHR '' '' # dec_int v) vs)"

definition rule_line :: "string \<Rightarrow> 16 word \<Rightarrow> string \<Rightarrow> 16 word \<Rightarrow> int list \<Rightarrow> string" where
  "rule_line proto src_port dst_ip dst_port extras =
     proto @ '' '' @ dec (unat src_port) @ '' '' @ dst_ip @ '' '' @ dec (unat dst_port) @ extras_text extras"

definition extra_nth :: "int list \<Rightarrow> nat \<Rightarrow> int" where
  "extra_nth vs i = (if i < length vs then vs ! i else 0)"

lemma at_break_extras [simp]: "at_break (extras_text vs)"
  by (cases vs) (simp_all add: extras_text_def)

lemma extras_text_simps: "extras_text [] = []" "extras_text (v # vs) = CHR '' '' # dec_int v @ extras_text vs"
  by (simp_all add: extras_text_def)

lemma conf_extra_dec:
  assumes "in_i32 v"
  shows "conf_extra f (Some (extras_text (v # vs)), r) = (Some (extras_text vs), f v r)"
  using read_int_dec [OF at_break_extras assms, of vs] by (simp add: conf_extra_def extras_text_simps)

lemma conf_extra_end:
  "conf_extra f (Some (extras_text []), r) = (None, r)" "conf_extra f (None, r) = (None, r)"
  by (simp_all add: conf_extra_def extras_text_def extracted_def)

lemma conf_dest_line:
  assumes "is_word dst_ip" and "ce_from_string env dst_ip = Some a" and "at_break s"
  shows "conf_dest env (Some ('' '' @ dec (unat src_port) @ '' '' @ dst_ip @ '' '' @ dec (unat dst_port) @ s)) =
    Some (src_port, Endpoint a dst_port, s)"
proof -
  have 1: "extracted (read_uint16 (Some (CHR '' '' # dec (unat src_port) @ CHR '' '' # dst_ip @ CHR '' '' # dec (unat dst_port) @ s)))
      = Some (src_port, CHR '' '' # dst_ip @ CHR '' '' # dec (unat dst_port) @ s)"
    by (rule read_uint16_dec) simp
  have 2: "read_string (Some (CHR '' '' # dst_ip @ CHR '' '' # dec (unat dst_port) @ s))
      = Some (dst_ip, CHR '' '' # dec (unat dst_port) @ s)"
    by (rule read_string_word(2) [OF assms(1)]) simp
  show ?thesis using 1 2 read_uint16_dec [OF assms(3), of dst_port] assms(2) by (simp add: conf_dest_def)
qed

lemma conf_line_rule:
  assumes "ce_trim env (rule_line proto src_port dst_ip dst_port extras) = rule_line proto src_port dst_ip dst_port extras"
    and "proto = ''tcp'' \<or> proto = ''udp''"
  shows "conf_line env k (rule_line proto src_port dst_ip dst_port extras) c =
    (if proto = ''tcp'' then conf_tcp else conf_udp) env k
      (Some ('' '' @ dec (unat src_port) @ '' '' @ dst_ip @ '' '' @ dec (unat dst_port) @ extras_text extras)) c"
proof -
  have "is_word proto" and hd: "hd proto \<noteq> CHR ''#''" "proto \<noteq> []"
    using assms(2) by (auto simp: is_word_def is_space_def)
  then have "read_string (Some (rule_line proto src_port dst_ip dst_port extras)) = Some (proto,
      '' '' @ dec (unat src_port) @ '' '' @ dst_ip @ '' '' @ dec (unat dst_port) @ extras_text extras)"
    unfolding rule_line_def by (intro read_string_word(1)) simp_all
  moreover have "rule_line proto src_port dst_ip dst_port extras \<noteq> []"
    "hd (rule_line proto src_port dst_ip dst_port extras) \<noteq> CHR ''#''"
    using hd by (simp_all add: rule_line_def)
  ultimately show ?thesis using assms by (auto simp: conf_line_def Let_def)
qed

definition tcp_rule_read :: "16 word \<Rightarrow> 'a endpoint \<Rightarrow> int list \<Rightarrow> 'a tcp_rule" where
  "tcp_rule_read src_port dst extras =
     \<lparr>tr_src_port = src_port, tr_dst_endpoint = dst, tr_max_bandwidth = extra_nth extras 0,
      tr_delay_ms = extra_nth extras 1\<rparr>"

definition udp_rule_read :: "16 word \<Rightarrow> 'a endpoint \<Rightarrow> int list \<Rightarrow> 'a udp_rule" where
  "udp_rule_read src_port dst extras =
     \<lparr>ur_src_port = src_port, ur_dst_endpoint = dst, ur_max_bandwidth = extra_nth extras 0,
      ur_delay_ms = extra_nth extras 1, ur_drop_prob = extra_nth extras 2\<rparr>"

lemma tcp_extras:
  assumes "length extras \<le> 2" and "\<forall>v \<in> set extras. in_i32 v"
  shows "snd (conf_extra (\<lambda>v r. r\<lparr>tr_delay_ms := v\<rparr>)
     (conf_extra (\<lambda>v r. r\<lparr>tr_max_bandwidth := v\<rparr>) (Some (extras_text extras), new_tcp_rule src_port dst))) =
     tcp_rule_read src_port dst extras"
proof -
  consider "extras = []" | v where "extras = [v]" | v w where "extras = [v, w]"
    using assms(1) by (cases extras; cases "tl extras"; cases "tl (tl extras)") auto
  then show ?thesis
    using assms(2)
    by cases (simp_all add: conf_extra_dec conf_extra_end new_tcp_rule_def tcp_rule_read_def extra_nth_def)
qed

lemma udp_extras:
  assumes "length extras \<le> 3" and "\<forall>v \<in> set extras. in_i32 v"
  shows "snd (conf_extra (\<lambda>v r. r\<lparr>ur_drop_prob := v\<rparr>) (conf_extra (\<lambda>v r. r\<lparr>ur_delay_ms := v\<rparr>)
     (conf_extra (\<lambda>v r. r\<lparr>ur_max_bandwidth := v\<rparr>) (Some (extras_text extras), new_udp_rule src_port dst)))) =
     udp_rule_read src_port dst extras"
proof -
  consider "extras = []" | v where "extras = [v]" | v w where "extras = [v, w]" | v w u where "extras = [v, w, u]"
    using assms(1)
    by (cases extras; cases "tl extras"; cases "tl (tl extras)"; cases "tl (tl (tl extras))") auto
  then show ?thesis
    using assms(2)
    by cases (simp_all add: conf_extra_dec conf_extra_end new_udp_rule_def udp_rule_read_def extra_nth_def
        numeral_2_eq_2)
qed

text \<open>The shared data after a service has been handed out by a pool \<open>p\<close> of size \<open>n\<close>.\<close>

definition sd_handed :: "nat \<Rightarrow> io_pool \<Rightarrow> 'a shared_data \<Rightarrow> 'a shared_data" where
  "sd_handed n p sd =
     sd\<lparr>sd_pool := Some (p\<lparr>pl_next_io_service := Suc (pl_next_io_service p) mod n\<rparr>)\<rparr>"

lemma conf_service_pool:
  assumes "sd_pool sd = Some p" and "pool_ok n p" and "0 < n"
  shows "conf_service sd = Inr (pl_next_io_service p, sd_handed n p sd)"
  using assms by (simp add: conf_service_def get_io_service_ok sd_handed_def)

lemma conf_tcp_read:
  assumes dest: "conf_dest env is = Some (src_port, dst, extras_text extras)"
    and service: "conf_service (cf_sd c) = Inr (i, sd)"
    and extras: "length extras \<le> 2" "\<forall>v \<in> set extras. in_i32 v"
  shows "conf_tcp env k is c =
    and_then (tp_start (ce_asio env k) (tp_new (tcp_rule_read src_port dst extras) (ce_clock env k)))
      (\<lambda>(started, io, proxy). Inr
        (if started then c\<lparr>cf_sd := sd\<lparr>sd_proxies := sd_proxies sd @ [(i, proxy)]\<rparr>,
                           cf_io := cf_io c @ map (Pair k) io\<rparr>
         else conf_report k (c\<lparr>cf_sd := sd, cf_io := cf_io c @ map (Pair k) io\<rparr>)))"
proof -
  have "conf_tcp env k is c =
    and_then (tp_start (ce_asio env k) (tp_new (tcp_rule_read src_port dst extras) (ce_clock env k)))
      (\<lambda>(started, io, proxy).
        if \<not> started then Inr (conf_report k (c\<lparr>cf_sd := sd, cf_io := cf_io c @ map (Pair k) io\<rparr>))
        else Inr (c\<lparr>cf_io := cf_io c @ map (Pair k) io, cf_sd := sd\<lparr>sd_proxies := sd_proxies sd @ [(i, proxy)]\<rparr>\<rparr>))"
    using tcp_extras [OF extras, of src_port dst]
    by (simp add: conf_tcp_def dest service Let_def case_prod_unfold cong: if_cong)
  then show ?thesis
    by (cases "tp_start (ce_asio env k) (tp_new (tcp_rule_read src_port dst extras) (ce_clock env k))") auto
qed

lemma conf_udp_read:
  assumes dest: "conf_dest env is = Some (src_port, dst, extras_text extras)"
    and service: "conf_service (cf_sd c) = Inr (i, sd)"
    and extras: "length extras \<le> 3" "\<forall>v \<in> set extras. in_i32 v"
  shows "conf_udp env k is c =
    and_then (us_addServerProxy (ce_udp env k) (udp_rule_read src_port dst extras) (sd_udp sd))
      (\<lambda>s. Inr (c\<lparr>cf_sd := sd\<lparr>sd_udp := s\<rparr>\<rparr>))"
  using udp_extras [OF extras, of src_port dst]
  by (simp add: conf_udp_def dest service Let_def case_prod_unfold)

text \<open>
  What the code relies on \<open>boost::trim\<close> for: text that neither starts nor ends with white
  space is left as it is.
\<close>

definition trim_law :: "(string \<Rightarrow> string) \<Rightarrow> bool" where
  "trim_law trim \<longleftrightarrow> (\<forall>s. s \<noteq> [] \<and> \<not> is_space (hd s) \<and> \<not> is_space (last s) \<longrightarrow> trim s = s)"

lemma last_dec: "\<not> is_space (last (dec n))" "\<not> is_space (last (dec_int i))"
proof -
  have *: "\<not> is_space (last (dec n))" for n
    using dec_digits [of n] last_in_set [OF dec_not_Nil [of n]] digit_not_space by blast
  show "\<not> is_space (last (dec n))" and "\<not> is_space (last (dec_int i))"
    by (simp_all add: * dec_int_def)
qed

lemma last_extras:
  assumes "s \<noteq> []" and "\<not> is_space (last s)"
  shows "\<not> is_space (last (s @ extras_text vs))"
  using assms
proof (induction vs arbitrary: s)
  case (Cons v vs)
  have "dec_int v \<noteq> []" by (simp add: dec_int_def)
  then have "\<not> is_space (last ((s @ CHR '' '' # dec_int v) @ extras_text vs))"
    using last_dec(2) [of v] by (intro Cons.IH) simp_all
  then show ?case by (simp add: extras_text_simps)
qed (simp add: extras_text_def)

lemma trim_rule_line:
  assumes "trim_law trim" and "is_word proto"
  shows "trim (rule_line proto src_port dst_ip dst_port extras) = rule_line proto src_port dst_ip dst_port extras"
proof -
  have "\<not> is_space (last ((proto @ '' '' @ dec (unat src_port) @ '' '' @ dst_ip @ '' '' @ dec (unat dst_port))
      @ extras_text extras))"
    using last_dec(1) [of "unat dst_port"] by (intro last_extras) simp_all
  moreover have "proto \<noteq> []" "\<not> is_space (hd proto)" using assms(2) by (auto simp: is_word_def)
  ultimately show ?thesis using assms(1) by (simp add: trim_law_def rule_line_def)
qed

lemma proto_words: "is_word ''tcp''" "is_word ''udp''" "is_word ''ip''"
  by (simp_all add: is_word_def is_space_def)

text \<open>
  C18. A rule line as the documentation gives it, with any ports, any word that parses as an
  address and up to two (tcp) or three (udp) optional numbers of type int, is read back
  exactly: the proxy that is started, or the socket that is added, has these ports, this
  address and these limits, zero where the line gives none, and runs on the next service of
  the pool. A TCP proxy that does not start is reported and not listed.
\<close>

theorem conf_rule_read_back:
  assumes "is_word dst_ip" and "ce_from_string env dst_ip = Some a" and "trim_law (ce_trim env)"
    and "\<forall>v \<in> set extras. in_i32 v"
    and "sd_pool (cf_sd c) = Some p" and "pool_ok n p" and "0 < n"
  shows "(length extras \<le> 2 \<longrightarrow>
      conf_line env k (rule_line ''tcp'' src_port dst_ip dst_port extras) c =
      and_then (tp_start (ce_asio env k) (tp_new (tcp_rule_read src_port (Endpoint a dst_port) extras) (ce_clock env k)))
        (\<lambda>(started, io, proxy). Inr
          (if started
           then c\<lparr>cf_sd := (sd_handed n p (cf_sd c))\<lparr>sd_proxies :=
                    sd_proxies (sd_handed n p (cf_sd c)) @ [(pl_next_io_service p, proxy)]\<rparr>,
                  cf_io := cf_io c @ map (Pair k) io\<rparr>
           else conf_report k (c\<lparr>cf_sd := sd_handed n p (cf_sd c), cf_io := cf_io c @ map (Pair k) io\<rparr>)))) \<and>
    (length extras \<le> 3 \<longrightarrow>
      conf_line env k (rule_line ''udp'' src_port dst_ip dst_port extras) c =
      and_then (us_addServerProxy (ce_udp env k) (udp_rule_read src_port (Endpoint a dst_port) extras)
          (sd_udp (sd_handed n p (cf_sd c))))
        (\<lambda>s. Inr (c\<lparr>cf_sd := (sd_handed n p (cf_sd c))\<lparr>sd_udp := s\<rparr>\<rparr>)))"
proof -
  note dest = conf_dest_line [OF assms(1,2) at_break_extras, of src_port dst_port extras]
  note service = conf_service_pool [OF assms(5,6,7)]
  show ?thesis
    using conf_tcp_read [OF dest service _ assms(4)] conf_udp_read [OF dest service _ assms(4)]
      trim_rule_line [OF assms(3) proto_words(1)] trim_rule_line [OF assms(3) proto_words(2)]
    by (simp add: conf_line_rule)
qed

text \<open>A concrete reader: the address 10.0.0.1 is number 7, every call of Boost.Asio succeeds.\<close>

definition demo_trim :: "string \<Rightarrow> string" where
  "demo_trim s = rev (dropWhile is_space (rev (dropWhile is_space s)))"

definition demo_conf_env :: "nat conf_env" where
  "demo_conf_env =
     \<lparr>ce_trim = demo_trim, ce_from_string = (\<lambda>s. if s = ''10.0.0.1'' then Some 7 else None),
      ce_asio = (\<lambda>_. \<lparr>ar_open = Success, ar_set_option = Success, ar_bind = Success, ar_listen = Success,
                      ar_expires = Success\<rparr>),
      ce_udp = (\<lambda>_. \<lparr>ui_open = Success, ui_set_option = Success, ui_bind = Success, ui_clock = 5\<rparr>),
      ce_clock = (\<lambda>_. 5)\<rparr>"

definition demo_conf :: "nat conf" where
  "demo_conf = \<lparr>cf_sd = new_shared_data\<lparr>sd_pool := Some (pool_new 2)\<rparr>, cf_ip_send_bandwith = 0,
     cf_ip_recv_bandwidth = 0, cf_log = [], cf_io = []\<rparr>"

lemma demo_trim_law: "trim_law demo_trim"
proof -
  have "dropWhile is_space s = s" if "s \<noteq> []" "\<not> is_space (hd s)" for s
    using that by (cases s) simp_all
  then show ?thesis by (simp add: trim_law_def demo_trim_def hd_rev)
qed

lemma conf_rule_read_back_witness:
  "\<exists>proxy. conf_line demo_conf_env 3 (rule_line ''tcp'' 3443 ''10.0.0.1'' 3444 [-1]) demo_conf =
     Inr (demo_conf\<lparr>cf_sd := (sd_handed 2 (pool_new 2) (cf_sd demo_conf))\<lparr>sd_proxies := [(0, proxy)]\<rparr>,
       cf_io := [(3, Tp_accept), (3, Tp_wait 10)]\<rparr>) \<and>
     tp_rule proxy = \<lparr>tr_src_port = 3443, tr_dst_endpoint = Endpoint 7 3444, tr_max_bandwidth = -1,
       tr_delay_ms = 0\<rparr>"
proof -
  have word: "is_word ''10.0.0.1''" by (simp add: is_word_def is_space_def)
  have ip: "ce_from_string demo_conf_env ''10.0.0.1'' = Some 7" by (simp add: demo_conf_env_def)
  have trim: "trim_law (ce_trim demo_conf_env)" by (simp add: demo_conf_env_def demo_trim_law)
  have pool: "sd_pool (cf_sd demo_conf) = Some (pool_new 2)" by (simp add: demo_conf_def)
  show ?thesis
    using conf_rule_read_back [OF word ip trim _ pool pool_ok_new, of "[-1]" 3 3443 3444]
    by (simp add: in_i32_def tp_start_def tp_asyncWait_def tp_startAccept_def demo_conf_env_def Let_def
        pool_new_fields demo_conf_def sd_handed_def new_shared_data_def tcp_rule_read_def extra_nth_def tp_new_def)
qed

section \<open>Every file is read to its end\<close>

text \<open>What holds between two lines of the file.\<close>

definition conf_ok :: "nat \<Rightarrow> 'a conf \<Rightarrow> bool" where
  "conf_ok n c \<longleftrightarrow>
     (\<exists>p. sd_pool (cf_sd c) = Some p \<and> pool_ok n p \<and> pl_step p = BEGIN) \<and>
     (\<forall>(k, e) \<in> set (us_endpoints (sd_udp (cf_sd c))). ue_client_ip e = None) \<and>
     ipx_bandwidth (us_x (sd_udp (cf_sd c))) = (\<lambda>_. 0) \<and> sd_udp_threads (cf_sd c) = 0 \<and>
     (\<forall>(i, t) \<in> set (sd_proxies (cf_sd c)). i < n \<and>
        (tp_close_flag t \<or> tp_acceptor t = Some (tr_src_port (tp_rule t))))"

definition conf_ignored :: "string \<Rightarrow> bool" where
  "conf_ignored line \<longleftrightarrow> line = [] \<or> hd line = CHR ''#''"

lemma tp_start_new:
  obtains started io t where "tp_start ar (tp_new rule clock) = Inr (started, io, t)"
    and "started \<Longrightarrow> tp_close_flag t \<or> tp_acceptor t = Some (tr_src_port (tp_rule t))"
proof -
  have "\<exists>started io t. tp_start ar (tp_new rule clock) = Inr (started, io, t) \<and>
      (started \<longrightarrow> tp_close_flag t \<or> tp_acceptor t = Some (tr_src_port (tp_rule t)))"
    by (auto simp: tp_start_def tp_startAccept_def tp_asyncWait_def tp_close_def tp_new_def Let_def)
  then show thesis using that by blast
qed

lemma ue_init_client_ip [simp]: "ue_client_ip (ue_init r e) = ue_client_ip e"
  by (simp add: ue_init_def ue_asyncRecv_def Let_def)

lemma set_smap_put: "set (smap_put k v m) \<subseteq> insert (k, v) (set m)"
  by (induction k v m rule: smap_put.induct) auto

lemma us_add_total:
  assumes "\<forall>(k, e) \<in> set (us_endpoints s). ue_client_ip e = None" and "ipx_bandwidth (us_x s) = (\<lambda>_. 0)"
  obtains s' where "us_addServerProxy r rule s = Inr s'"
    and "\<forall>(k, e) \<in> set (us_endpoints s'). ue_client_ip e = None" and "ipx_bandwidth (us_x s') = (\<lambda>_. 0)"
proof -
  define e where "e = fst (ue_new r rule (us_x s))"
  have e: "ue_new r rule (us_x s) = (e, us_x s)" "ue_client_ip e = None"
    using assms(2) by (auto simp: e_def ue_new_def getIPProxy_def Let_def)
  have old: "ue_delete old x = Inr x" if "smap_find (us_endpoints s) k = Some old" for k old x
    using assms(1) map_of_SomeD [OF that] by (auto simp: ue_delete_def ip_release_def)
  let ?s = "(us_put (ur_dst_endpoint rule) e s)\<lparr>us_x := us_x s\<rparr>"
  have "us_addServerProxy r rule s = Inr ?s"
    using e(1) old by (auto simp: us_addServerProxy_def split: option.splits)
  moreover have "\<forall>(k, e) \<in> set (us_endpoints ?s). ue_client_ip e = None"
    using set_smap_put [of "ur_dst_endpoint rule" e "us_endpoints s"] assms(1) e(2) by (auto simp: us_put_def)
  ultimately show thesis using that assms(2) by simp
qed

text \<open>What a line may do: nothing but its report, or what a rule adds.\<close>

definition conf_adds_nothing :: "'a conf \<Rightarrow> 'a conf \<Rightarrow> bool" where
  "conf_adds_nothing c c' \<longleftrightarrow> sd_proxies (cf_sd c') = sd_proxies (cf_sd c) \<and> sd_udp (cf_sd c') = sd_udp (cf_sd c)"

lemma conf_tcp_ok:
  assumes "conf_ok n c" and "0 < n"
  obtains c' where "conf_tcp env k is c = Inr c'" and "conf_ok n c'"
    and "cf_log c' = cf_log c \<or> (cf_log c' = cf_log c @ [k] \<and> conf_adds_nothing c c')"
proof (cases "conf_dest env is")
  case None
  then show thesis using that [of "conf_report k c"] assms(1)
    by (simp add: conf_tcp_def conf_report_def conf_ok_def conf_adds_nothing_def)
next
  case (Some d)
  obtain src_port dst s where d: "d = (src_port, dst, s)" by (cases d)
  obtain p where p: "sd_pool (cf_sd c) = Some p" "pool_ok n p" "pl_step p = BEGIN"
    using assms(1) by (auto simp: conf_ok_def)
  note service = conf_service_pool [OF p(1,2) assms(2)]
  define rule where "rule = snd (conf_extra (\<lambda>v r. r\<lparr>tr_delay_ms := v\<rparr>)
      (conf_extra (\<lambda>v r. r\<lparr>tr_max_bandwidth := v\<rparr>) (Some s, new_tcp_rule src_port dst)))"
  obtain started io t where t: "tp_start (ce_asio env k) (tp_new rule (ce_clock env k)) = Inr (started, io, t)"
    and started: "started \<Longrightarrow> tp_close_flag t \<or> tp_acceptor t = Some (tr_src_port (tp_rule t))"
    using tp_start_new [of "ce_asio env k" rule "ce_clock env k"] by blast
  have "pl_next_io_service p < n" using p(2) assms(2) by (simp add: pool_ok_def)
  then show thesis
    using that [of "if started
        then c\<lparr>cf_sd := (sd_handed n p (cf_sd c))\<lparr>sd_proxies := sd_proxies (cf_sd c) @ [(pl_next_io_service p, t)]\<rparr>,
               cf_io := cf_io c @ map (Pair k) io\<rparr>
        else conf_report k (c\<lparr>cf_sd := sd_handed n p (cf_sd c), cf_io := cf_io c @ map (Pair k) io\<rparr>)"]
      t [unfolded rule_def] assms p started
    by (auto simp: conf_tcp_def Some d service Let_def case_prod_unfold conf_report_def conf_ok_def
        conf_adds_nothing_def sd_handed_def pool_ok_def)
qed

lemma conf_udp_ok:
  assumes "conf_ok n c" and "0 < n"
  obtains c' where "conf_udp env k is c = Inr c'" and "conf_ok n c'"
    and "cf_log c' = cf_log c \<or> (cf_log c' = cf_log c @ [k] \<and> conf_adds_nothing c c')"
proof (cases "conf_dest env is")
  case None
  then show thesis using that [of "conf_report k c"] assms(1)
    by (simp add: conf_udp_def conf_report_def conf_ok_def conf_adds_nothing_def)
next
  case (Some d)
  obtain src_port dst s where d: "d = (src_port, dst, s)" by (cases d)
  obtain p where p: "sd_pool (cf_sd c) = Some p" "pool_ok n p" "pl_step p = BEGIN"
    using assms(1) by (auto simp: conf_ok_def)
  note service = conf_service_pool [OF p(1,2) assms(2)]
  define rule where "rule = snd (conf_extra (\<lambda>v r. r\<lparr>ur_drop_prob := v\<rparr>) (conf_extra (\<lambda>v r. r\<lparr>ur_delay_ms := v\<rparr>)
      (conf_extra (\<lambda>v r. r\<lparr>ur_max_bandwidth := v\<rparr>) (Some s, new_udp_rule src_port dst))))"
  obtain u where u: "us_addServerProxy (ce_udp env k) rule (sd_udp (cf_sd c)) = Inr u"
    and ok: "\<forall>(k, e) \<in> set (us_endpoints u). ue_client_ip e = None" "ipx_bandwidth (us_x u) = (\<lambda>_. 0)"
    by (rule us_add_total [of "sd_udp (cf_sd c)" "ce_udp env k" rule]) (use assms(1) in \<open>auto simp: conf_ok_def\<close>)
  then show thesis
    using that [of "c\<lparr>cf_sd := (sd_handed n p (cf_sd c))\<lparr>sd_udp := u\<rparr>\<rparr>"] u [unfolded rule_def] assms p
    by (auto simp: conf_udp_def Some d service Let_def case_prod_unfold conf_ok_def sd_handed_def pool_ok_def)
qed

lemma conf_ip_ok:
  assumes "conf_ok n c"
  shows "conf_ok n (conf_ip k is c)" and "conf_adds_nothing c (conf_ip k is c)"
    and "cf_log (conf_ip k is c) = cf_log c \<or> cf_log (conf_ip k is c) = cf_log c @ [k]"
  using assms
  by (auto simp: conf_ip_def conf_report_def conf_ok_def conf_adds_nothing_def Let_def case_prod_unfold)

text \<open>
  While the pool has services, no line of the configuration makes the reader throw: a blank
  or comment line changes nothing, and any other line is either accepted or reported once with
  its number, and a reported line adds no proxy and no socket. What holds between lines (the
  pool is not started, sockets hold no client address, every listed proxy listens on the port
  of its rule) is kept.
\<close>

lemma conf_line_outcome:
  assumes "conf_ok n c" and "0 < n"
  shows "\<exists>c'. conf_line env k line c = Inr c' \<and> conf_ok n c' \<and>
    (if conf_ignored (ce_trim env line) then c' = c
     else cf_log c' = cf_log c \<or> (cf_log c' = cf_log c @ [k] \<and> conf_adds_nothing c c'))"
proof (cases "conf_ignored (ce_trim env line)")
  case True
  then show ?thesis using assms(1) by (auto simp: conf_line_def conf_ignored_def Let_def)
next
  case False
  have report: "conf_ok n (conf_report k c)" "conf_adds_nothing c (conf_report k c)"
    using assms(1) by (simp_all add: conf_report_def conf_ok_def conf_adds_nothing_def)
  show ?thesis
  proof (cases "read_string (Some (ce_trim env line))")
    case None
    then show ?thesis using False report by (auto simp: conf_line_def conf_ignored_def conf_report_def)
  next
    case (Some ws)
    obtain proto st where ws: "ws = (proto, st)" by force
    obtain ct where ct: "conf_tcp env k (Some st) c = Inr ct" "conf_ok n ct"
      "cf_log ct = cf_log c \<or> (cf_log ct = cf_log c @ [k] \<and> conf_adds_nothing c ct)"
      by (rule conf_tcp_ok [OF assms])
    obtain cu where cu: "conf_udp env k (Some st) c = Inr cu" "conf_ok n cu"
      "cf_log cu = cf_log c \<or> (cf_log cu = cf_log c @ [k] \<and> conf_adds_nothing c cu)"
      by (rule conf_udp_ok [OF assms])
    have "conf_line env k line c =
        (if proto = ''ip'' then Inr (conf_ip k (Some st) c) else if proto = ''tcp'' then Inr ct
         else if proto = ''udp'' then Inr cu else Inr (conf_report k c))"
      using False Some ws ct(1) cu(1) by (simp add: conf_line_def conf_ignored_def)
    then show ?thesis
      using False ct cu report conf_ip_ok [OF assms(1), of k "Some st"] by (auto simp: conf_report_def)
  qed
qed

lemma conf_line_outcome_witness:
  "\<exists>c'. conf_line demo_conf_env 4 ''tcp 80 nowhere 80'' demo_conf = Inr c' \<and> conf_ok 2 c'"
  using conf_line_outcome [of 2 demo_conf demo_conf_env 4 "''tcp 80 nowhere 80''"]
  by (auto simp: conf_ok_def demo_conf_def new_shared_data_def new_udp_server_def new_ip_proxies_def
      pool_ok_new pool_new_fields pool_ok_def)

lemma conf_lines_ok:
  assumes "conf_ok n c" and "0 < n" and "sorted_wrt (<) (cf_log c)" and "\<forall>j \<in> set (cf_log c). j \<le> k"
  shows "\<exists>c'. conf_lines env k lines c = Inr c' \<and> conf_ok n c' \<and> sorted_wrt (<) (cf_log c') \<and>
    (\<forall>j \<in> set (cf_log c'). j \<in> set (cf_log c) \<or>
       (k < j \<and> j \<le> k + length lines \<and> \<not> conf_ignored (ce_trim env (lines ! (j - Suc k)))))"
  using assms
proof (induction lines arbitrary: k c)
  case (Cons line lines)
  obtain c1 where c1: "conf_line env (Suc k) line c = Inr c1" "conf_ok n c1"
    "if conf_ignored (ce_trim env line) then c1 = c
     else cf_log c1 = cf_log c \<or> (cf_log c1 = cf_log c @ [Suc k] \<and> conf_adds_nothing c c1)"
    using conf_line_outcome [OF Cons.prems(1,2), of env "Suc k" line] by blast
  have le: "\<forall>j \<in> set (cf_log c1). j \<le> Suc k" and sorted: "sorted_wrt (<) (cf_log c1)"
    using c1(3) Cons.prems(3,4)
    by (fastforce split: if_splits simp: sorted_wrt_append le_Suc_eq less_Suc_eq_le)+
  obtain c2 where c2: "conf_lines env (Suc k) lines c1 = Inr c2" "conf_ok n c2" "sorted_wrt (<) (cf_log c2)"
    "\<forall>j \<in> set (cf_log c2). j \<in> set (cf_log c1) \<or>
       (Suc k < j \<and> j \<le> Suc k + length lines \<and> \<not> conf_ignored (ce_trim env (lines ! (j - Suc (Suc k)))))"
    using Cons.IH [OF c1(2) Cons.prems(2) sorted le] by blast
  have "j \<in> set (cf_log c) \<or>
      (k < j \<and> j \<le> k + length (line # lines) \<and> \<not> conf_ignored (ce_trim env ((line # lines) ! (j - Suc k))))"
    if j: "j \<in> set (cf_log c2)" for j
  proof -
    consider "j \<in> set (cf_log c)" | "j = Suc k" "\<not> conf_ignored (ce_trim env line)"
      | "Suc k < j" "j \<le> Suc k + length lines" "\<not> conf_ignored (ce_trim env (lines ! (j - Suc (Suc k))))"
      using bspec [OF c2(4) j] c1(3) by (cases "conf_ignored (ce_trim env line)") auto
    then show ?thesis by cases (auto simp: nth_Cons' Suc_diff_Suc)
  qed
  then show ?case using c1(1) c2(1,2,3) by auto
qed simp

lemma conf_ok_start: "conf_ok n \<lparr>cf_sd = new_shared_data\<lparr>sd_pool := Some (pool_new n)\<rparr>,
    cf_ip_send_bandwith = 0, cf_ip_recv_bandwidth = 0, cf_log = [], cf_io = []\<rparr>"
  by (simp add: conf_ok_def new_shared_data_def new_udp_server_def new_ip_proxies_def pool_ok_new)
     (simp add: pool_new_fields)

lemma sd_init_ok:
  assumes "0 < n"
  shows "\<exists>c. sd_init env n content new_shared_data = Inr c \<and> sorted_wrt (<) (cf_log c) \<and>
    (\<forall>j \<in> set (cf_log c). \<exists>txt. content = Some txt \<and> 0 < j \<and> j \<le> length (split_lines txt) \<and>
       \<not> conf_ignored (ce_trim env (split_lines txt ! (j - 1)))) \<and>
    (\<forall>(i, t) \<in> set (sd_proxies (cf_sd c)). i < n \<and>
       (tp_close_flag t \<or> tp_acceptor t = Some (tr_src_port (tp_rule t)))) \<and>
    (\<exists>p. sd_pool (cf_sd c) = Some p \<and> pool_ok n p \<and> pl_step p = BEGIN) \<and> sd_udp_threads (cf_sd c) = 0"
proof (cases content)
  case None
  then show ?thesis using conf_ok_start [of n] by (auto simp: sd_init_def conf_ok_def)
next
  case (Some body)
  obtain c where c: "conf_lines env 0 (split_lines body) \<lparr>cf_sd = new_shared_data\<lparr>sd_pool := Some (pool_new n)\<rparr>,
      cf_ip_send_bandwith = 0, cf_ip_recv_bandwidth = 0, cf_log = [], cf_io = []\<rparr> = Inr c"
    "conf_ok n c" "sorted_wrt (<) (cf_log c)"
    "\<forall>j \<in> set (cf_log c). 0 < j \<and> j \<le> length (split_lines body) \<and>
       \<not> conf_ignored (ce_trim env (split_lines body ! (j - 1)))"
    using conf_lines_ok [OF conf_ok_start assms, of 0 env "split_lines body"] by auto
  then show ?thesis using Some by (auto simp: sd_init_def Let_def conf_ok_def)
qed

text \<open>
  C22. Whatever the configuration file contains, and also when it cannot be opened, a process
  with at least one network thread gets through its initialization without an exception. The
  lines it reports are named in increasing order, once each, and are lines of the file that
  are neither blank nor comments; every listed TCP proxy has been given one of the services
  and listens on the port of its rule (unless its timer failed at once); the pool is ready to
  be started.
\<close>

theorem sd_init_total:
  assumes "0 < n"
  shows "\<exists>c. sd_init env n content new_shared_data = Inr c \<and> sorted_wrt (<) (cf_log c) \<and>
    (\<forall>j \<in> set (cf_log c). \<exists>txt. content = Some txt \<and> 0 < j \<and> j \<le> length (split_lines txt) \<and>
       \<not> conf_ignored (ce_trim env (split_lines txt ! (j - 1)))) \<and>
    (\<forall>(i, t) \<in> set (sd_proxies (cf_sd c)). i < n \<and>
       (tp_close_flag t \<or> tp_acceptor t = Some (tr_src_port (tp_rule t)))) \<and>
    (\<exists>p. sd_pool (cf_sd c) = Some p \<and> pool_ok n p \<and> pl_step p = BEGIN)"
  using sd_init_ok [OF assms, of env content] by blast

lemma sd_init_total_witness:
  "\<exists>c. sd_init demo_conf_env 2 (Some ''ip 5'') new_shared_data = Inr c \<and> sorted_wrt (<) (cf_log c)"
  using sd_init_total [of 2 demo_conf_env "Some ''ip 5''"] by fastforce

section \<open>Start and stop\<close>

text \<open>
  C33. A process that is initialized, started and stopped has created the UDP thread and one
  thread per service; stopping sets the close flag of every TCP proxy, joins the UDP thread
  and the threads of the address table, waits, stops every service before it joins the first
  network thread, joins each of them once, and deletes the pool. Stopping again touches no
  network thread.
\<close>

theorem sd_lifecycle:
  assumes "0 < n" and "sd_init env n content new_shared_data = Inr c"
  shows "\<exists>io sd. sd_start (cf_sd c) = Inr (io, sd) \<and>
    io = Udp_thread_create # map (Pool_io \<circ> Thread_run) [0..<n] \<and>
    fst (sd_stop sd) = [Udp_join (sd_udp_threads sd), Ip_join (ipx_threads (us_x (sd_udp sd))), Sleep_ms 100] @
      map (Pool_io \<circ> Service_stop) [0..<n] @ map (Pool_io \<circ> Thread_join) [0..<n] \<and>
    (\<forall>(i, t) \<in> set (sd_proxies (snd (sd_stop sd))). tp_close_flag t) \<and>
    sd_pool (snd (sd_stop sd)) = None \<and>
    fst (sd_stop (snd (sd_stop sd))) = [Udp_join (sd_udp_threads sd), Ip_join (ipx_threads (us_x (sd_udp sd)))]"
proof -
  obtain p where p: "sd_pool (cf_sd c) = Some p" "pool_ok n p" "pl_step p = BEGIN"
    using sd_init_ok [OF assms(1), of env content] assms(2) by auto
  then show ?thesis
    by (auto simp: sd_start_def sd_stop_def pool_start_def pool_stop_def pool_join_def pool_ok_def Let_def
        tp_stop_def case_prod_unfold)
qed

lemma sd_lifecycle_witness:
  "\<exists>c io sd. sd_init demo_conf_env 2 None new_shared_data = Inr c \<and> sd_start (cf_sd c) = Inr (io, sd) \<and>
     io = [Udp_thread_create, Pool_io (Thread_run 0), Pool_io (Thread_run 1)]"
proof -
  obtain c where c: "sd_init demo_conf_env 2 None new_shared_data = Inr c" by (simp add: sd_init_def)
  show ?thesis using c sd_lifecycle [OF _ c] by (auto simp: upt_conv_Cons)
qed

section \<open>A malformed limit is not ignored\<close>

text \<open>
  A line that sets the limits of client addresses and is reported as malformed because the
  second number is missing or not a number has already replaced the first limit, and, in the
  second case, cleared the other one: the report does not mean that the line was skipped.
\<close>

lemma conf_ip_partial:
  assumes "trim_law (ce_trim env)" and "in_i32 v"
  shows "conf_line env k (''ip '' @ dec_int v) c =
      Inr (conf_report k (c\<lparr>cf_ip_send_bandwith := v\<rparr>)) \<and>
    conf_line env k (''ip '' @ dec_int v @ '' x'') c =
      Inr (conf_report k (c\<lparr>cf_ip_send_bandwith := v, cf_ip_recv_bandwidth := 0\<rparr>))"
proof -
  have trim: "ce_trim env (''ip '' @ dec_int v) = ''ip '' @ dec_int v"
      "ce_trim env (''ip '' @ dec_int v @ '' x'') = ''ip '' @ dec_int v @ '' x''"
    using assms(1) last_dec(2) [of v] by (auto simp: trim_law_def is_space_def dec_int_def)
  have proto: "read_string (Some (''ip'' @ CHR '' '' # s)) = Some (''ip'', CHR '' '' # s)" for s
    by (rule read_string_word(1) [OF proto_words(3)]) simp
  have 1: "extracted (read_int (Some (CHR '' '' # dec_int v @ []))) = Some (v, [])"
    by (rule read_int_dec) (simp_all add: assms(2))
  have 2: "extracted (read_int (Some (CHR '' '' # dec_int v @ '' x''))) = Some (v, '' x'')"
    by (rule read_int_dec) (simp_all add: assms(2))
  have ex: "r = (Some w, Some s)" if "extracted r = Some (w, s)" for r :: "int option \<times> istream" and w s
    using that by (cases r) (auto simp: extracted_def split: option.splits)
  have x: "read_int (Some '' x'') = (Some 0, None)"
    by (simp add: read_int_def is_space_def scan_numeral_def is_digit_def)
  have line: "conf_line env k (''ip'' @ CHR '' '' # s) c = Inr (conf_ip k (Some (CHR '' '' # s)) c)"
    if "ce_trim env (''ip'' @ CHR '' '' # s) = ''ip'' @ CHR '' '' # s" for s
    using that proto [of s] by (simp add: conf_line_def)
  show ?thesis
    using line [of "dec_int v"] line [of "dec_int v @ '' x''"] trim ex [OF 1] ex [OF 2] x
    by (simp add: conf_ip_def conf_set_def)
qed

lemma conf_ip_partial_witness:
  "conf_line demo_conf_env 1 ''ip 70 x'' demo_conf =
     Inr (conf_report 1 (demo_conf\<lparr>cf_ip_send_bandwith := 70, cf_ip_recv_bandwidth := 0\<rparr>))"
proof -
  have "dec_int 70 = ''70''" by code_simp
  then show ?thesis
    using conf_ip_partial [of demo_conf_env 70 1 demo_conf]
    by (simp add: demo_trim_law demo_conf_env_def in_i32_def)
qed

end
