(* ===== verification/Conf_Traffic.thy ===== *)
theory Conf_Traffic
  imports Shared_Props Tcp_System_Props
begin

text \<open>
  From a line of the configuration file to the traffic: the proxies that \<open>SharedData::init\<close>
  lists are the initial states of \<open>Tcp_System\<close>, so what a rule says is what its connections
  keep to.
\<close>

section \<open>What reading the file leaves behind\<close>

text \<open>
  The proxies are only added to, and every one is added started; the address table keeps its
  form.
\<close>

definition conf_grows :: "'a::linorder conf \<Rightarrow> 'a conf \<Rightarrow> bool" where
  "conf_grows c c' \<longleftrightarrow> prefix (sd_proxies (cf_sd c)) (sd_proxies (cf_sd c')) \<and>
     ((\<forall>(i, t) \<in> set (sd_proxies (cf_sd c)). tp_listed t) \<longrightarrow> (\<forall>(i, t) \<in> set (sd_proxies (cf_sd c')). tp_listed t)) \<and>
     (ipx_ok (us_x (sd_udp (cf_sd c))) \<longrightarrow> ipx_ok (us_x (sd_udp (cf_sd c'))))"

lemma conf_grows_trans: "conf_grows c d \<Longrightarrow> conf_grows d e \<Longrightarrow> conf_grows c e"
  by (auto simp: conf_grows_def)

lemma conf_grows_same: "cf_sd c' = cf_sd c \<Longrightarrow> conf_grows c c'"
  by (simp add: conf_grows_def)

lemma conf_report_grows: "conf_grows c (conf_report k c)"
  by (rule conf_grows_same) (simp add: conf_report_def)

lemma conf_ip_grows: "conf_grows c (conf_ip k is c)"
  by (rule conf_grows_same) (simp add: conf_ip_def conf_report_def Let_def case_prod_unfold)

lemma conf_service_same:
  "conf_service sd = Inr (i, sd') \<Longrightarrow> sd_proxies sd' = sd_proxies sd \<and> sd_udp sd' = sd_udp sd"
  by (auto simp: conf_service_def result_simps split: option.splits)

lemma us_add_ipx_ok:
  assumes "us_addServerProxy r rule s = Inr s'" and "ipx_ok (us_x s)"
  shows "ipx_ok (us_x s')"
proof -
  obtain e x where n: "ue_new r rule (us_x s) = (e, x)" by force
  then have "ipx_ok x" using assms(2) getIPProxy_ok [of "us_x s" "ep_address (ur_dst_endpoint rule)"]
    by (auto simp: ue_new_def Let_def split: prod.splits if_splits)
  then show ?thesis
    using assms(1) n by (auto simp: us_addServerProxy_def ue_delete_def result_simps intro: ip_release_ok split: option.splits)
qed

lemma conf_tcp_grows:
  assumes "conf_tcp env k is c = Inr c'"
  shows "conf_grows c c'"
proof (cases "conf_dest env is")
  case None
  then have "c' = conf_report k c" using assms by (simp add: conf_tcp_def)
  then show ?thesis by (simp add: conf_report_grows)
next
  case (Some d)
  obtain src_port dst s where d: "d = (src_port, dst, s)" by (cases d)
  define rule where "rule = snd (conf_extra (\<lambda>v r. r\<lparr>tr_delay_ms := v\<rparr>)
      (conf_extra (\<lambda>v r. r\<lparr>tr_max_bandwidth := v\<rparr>) (Some s, new_tcp_rule src_port dst)))"
  obtain i sd started io t where sd: "conf_service (cf_sd c) = Inr (i, sd)"
    and t: "tp_start (ce_asio env k) (tp_new rule (ce_clock env k)) = Inr (started, io, t)"
    using assms by (auto simp: conf_tcp_def Some d Let_def case_prod_unfold rule_def result_simps)
  have c': "cf_sd c' = (if started then sd\<lparr>sd_proxies := sd_proxies sd @ [(i, t)]\<rparr> else sd)"
    using assms t [unfolded rule_def] sd
    by (cases started) (auto simp: conf_tcp_def Some d Let_def case_prod_unfold conf_report_def)
  have "started \<Longrightarrow> tp_listed t" using t unfolding tp_listed_def by fastforce
  then show ?thesis using conf_service_same [OF sd] by (auto simp: conf_grows_def c')
qed

lemma conf_udp_grows:
  assumes "conf_udp env k is c = Inr c'"
  shows "conf_grows c c'"
proof (cases "conf_dest env is")
  case None
  then have "c' = conf_report k c" using assms by (simp add: conf_udp_def)
  then show ?thesis by (simp add: conf_report_grows)
next
  case (Some d)
  obtain src_port dst s where d: "d = (src_port, dst, s)" by (cases d)
  obtain rule i sd u where sd: "conf_service (cf_sd c) = Inr (i, sd)"
    and u: "us_addServerProxy (ce_udp env k) rule (sd_udp sd) = Inr u" and c': "cf_sd c' = sd\<lparr>sd_udp := u\<rparr>"
    using assms by (auto simp: conf_udp_def Some d Let_def case_prod_unfold result_simps)
  show ?thesis using conf_service_same [OF sd] us_add_ipx_ok [OF u] by (simp add: conf_grows_def c')
qed

lemma conf_line_grows: "conf_line env k line c = Inr c' \<Longrightarrow> conf_grows c c'"
  by (auto simp: conf_line_def Let_def conf_report_grows conf_ip_grows
      intro: conf_grows_same conf_tcp_grows conf_udp_grows split: if_splits option.splits)

lemma conf_lines_grows: "conf_lines env k lines c = Inr c' \<Longrightarrow> conf_grows c c'"
proof (induction lines arbitrary: k c)
  case (Cons line lines)
  then show ?case using conf_line_grows conf_grows_trans by (fastforce simp: result_simps)
qed (simp add: conf_grows_same)

text \<open>Every line is read in a state that has what holds between lines.\<close>

lemma conf_lines_nth:
  assumes "conf_lines env k lines c = Inr c'" and "conf_ok n c" and "0 < n" and "j < length lines"
  obtains d d' where "conf_ok n d" and "conf_line env (Suc (k + j)) (lines ! j) d = Inr d'" and "conf_grows d' c'"
  using assms
proof (induction lines arbitrary: k c j thesis)
  case (Cons line lines)
  obtain d where d: "conf_line env (Suc k) line c = Inr d" "conf_lines env (Suc k) lines d = Inr c'"
    using Cons.prems(2) by (auto simp: result_simps)
  have ok: "conf_ok n d" using conf_line_outcome [OF Cons.prems(3,4), of env "Suc k" line] d(1) by auto
  show ?case
  proof (cases j)
    case 0
    then show ?thesis using Cons.prems(1) [OF Cons.prems(3)] d(1) conf_lines_grows [OF d(2)] by simp
  next
    case (Suc i)
    show ?thesis
      by (rule Cons.IH [OF _ d(2) ok Cons.prems(4), of i]) (use Cons.prems(1,5) Suc in simp_all)
  qed
qed simp

section \<open>A running proxy keeps its rule\<close>

lemma tp_asyncWait_rule: "tp_asyncWait ec t = Inr (io, t') \<Longrightarrow> tp_rule t' = tp_rule t"
  by (auto simp: tp_asyncWait_def tp_close_def result_simps split: if_splits)

lemma tp_start_rule: "tp_start ar t = Inr (started, io, t') \<Longrightarrow> tp_rule t' = tp_rule t"
  by (auto simp: tp_start_def tp_startAccept_def result_simps dest!: tp_asyncWait_rule split: if_splits)

lemma tp_handleWait_rule:
  "tp_handleWait tcp_timeout error ec clock x t = Inr (io, y, t') \<Longrightarrow> tp_rule t' = tp_rule t"
  by (auto simp: tp_handleWait_def tp_close_def result_simps Let_def dest!: tp_asyncWait_rule split: if_splits)

lemma tp_handleAccept_rule:
  "tp_handleAccept ar error remote x t = Inr (io, y, t') \<Longrightarrow> tp_rule t' = tp_rule t"
  by (auto simp: tp_handleAccept_def tp_startAccept_def tp_stop_def tc_start_def result_simps Let_def
      dest!: tp_start_rule split: if_splits)

lemma ts_own_rule: "ts_own gap s s' \<Longrightarrow> tp_rule (ts_proxy s') = tp_rule (ts_proxy s)"
  by (erule ts_own.cases) (auto simp: ts_put_def tp_stop_def dest: tp_handleAccept_rule tp_handleWait_rule)

lemma ts_step_rule: "ts_step gap s s' \<Longrightarrow> tp_rule (ts_proxy s') = tp_rule (ts_proxy s)"
  by (erule ts_step.cases) (auto dest: ts_own_rule)

lemma ts_steps_rule: "(ts_step gap)\<^sup>*\<^sup>* s s' \<Longrightarrow> tp_rule (ts_proxy s') = tp_rule (ts_proxy s)"
  by (induction rule: rtranclp_induct) (auto dest: ts_step_rule)

section \<open>Lines and traffic\<close>

text \<open>The listener and the timer of a rule can be set up.\<close>

definition asio_ready :: "asio_results \<Rightarrow> bool" where
  "asio_ready ar \<longleftrightarrow> ar_open ar = Success \<and> ar_set_option ar = Success \<and> ar_bind ar = Success \<and>
     ar_listen ar = Success \<and> ar_expires ar = Success"

lemma tp_start_ready:
  assumes "asio_ready ar"
  shows "tp_start ar (tp_new rule clock) = Inr (True, [Tp_accept, Tp_wait 10],
    (tp_new rule clock)\<lparr>tp_acceptor := Some (tr_src_port rule), tp_accept_socket := Some Sock_open\<rparr>)"
  using assms by (simp add: asio_ready_def tp_start_def tp_startAccept_def tp_asyncWait_def tp_new_def)

lemma conf_line_lists:
  assumes "conf_ok n d" and "0 < n" and "conf_line env k (rule_line ''tcp'' src_port dst_ip dst_port extras) d = Inr d'"
    and "is_word dst_ip" and "ce_from_string env dst_ip = Some a" and "trim_law (ce_trim env)"
    and "\<forall>v \<in> set extras. in_i32 v" and "length extras \<le> 2" and "asio_ready (ce_asio env k)"
  obtains i t where "(i, t) \<in> set (sd_proxies (cf_sd d'))" and "i < n"
    and "tp_rule t = tcp_rule_read src_port (Endpoint a dst_port) extras"
    and "tp_acceptor t = Some src_port" and "\<not> tp_close_flag t"
proof -
  let ?rule = "tcp_rule_read src_port (Endpoint a dst_port) extras"
  let ?t = "(tp_new ?rule (ce_clock env k))\<lparr>tp_acceptor := Some (tr_src_port ?rule), tp_accept_socket := Some Sock_open\<rparr>"
  obtain p where p: "sd_pool (cf_sd d) = Some p" "pool_ok n p" using assms(1) by (auto simp: conf_ok_def)
  note service = conf_service_pool [OF p assms(2)]
  have "conf_tcp env k (Some ('' '' @ dec (unat src_port) @ '' '' @ dst_ip @ '' '' @ dec (unat dst_port) @ extras_text extras)) d = Inr d'"
    using assms(3) conf_line_rule [of env "''tcp''"] trim_rule_line [OF assms(6) proto_words(1)] by simp
  then have "(pl_next_io_service p, ?t) \<in> set (sd_proxies (cf_sd d'))"
    using conf_tcp_read [OF conf_dest_line [OF assms(4,5) at_break_extras] service assms(8,7)]
    by (auto simp: tp_start_ready [OF assms(9)])
  moreover have "pl_next_io_service p < n" using p(2) assms(2) by (simp add: pool_ok_def)
  ultimately show thesis by (rule that) (simp_all add: tp_new_def tcp_rule_read_def)
qed

text \<open>What the listed proxies are when the configuration has been read.\<close>

lemma sd_init_listed:
  assumes "sd_init env n (Some txt) new_shared_data = Inr c" and "(i, t) \<in> set (sd_proxies (cf_sd c))"
  shows "ts_init (ts_fresh t (us_x (sd_udp (cf_sd c))))"
proof -
  define c0 :: "'a conf" where "c0 = \<lparr>cf_sd = new_shared_data\<lparr>sd_pool := Some (pool_new n)\<rparr>, cf_ip_send_bandwith = 0,
      cf_ip_recv_bandwidth = 0, cf_log = [], cf_io = []\<rparr>"
  obtain d where d: "conf_lines env 0 (split_lines txt) c0 = Inr d"
    and c: "sd_proxies (cf_sd c) = sd_proxies (cf_sd d)"
      "ipx_addrs (us_x (sd_udp (cf_sd c))) = ipx_addrs (us_x (sd_udp (cf_sd d)))"
    using assms(1) by (auto simp: sd_init_def c0_def ip_start_def Let_def result_simps)
  have "conf_grows c0 d" using d by (rule conf_lines_grows)
  moreover have "sd_proxies (cf_sd c0) = []" "ipx_ok (us_x (sd_udp (cf_sd c0)))"
    using new_ip_proxies_ok by (simp_all add: c0_def new_shared_data_def new_udp_server_def)
  ultimately have "\<forall>(i, t) \<in> set (sd_proxies (cf_sd d)). tp_listed t" "ipx_ok (us_x (sd_udp (cf_sd d)))"
    by (simp_all add: conf_grows_def)
  then have "tp_listed t" "ipx_ok (us_x (sd_udp (cf_sd c)))"
    using assms(2) c by (auto simp: ipx_ok_def)
  then show ?thesis unfolding ts_init_def by blast
qed

text \<open>
  C5. From a line of the configuration to the traffic (\<open>SharedData::init\<close> with \<open>TcpProxy\<close> and
  \<open>TcpConnection\<close>): when a line of the file is a tcp rule as the documentation gives it and
  its listener and timer can be set up, then, whatever the other lines are, initialization
  ends with a proxy that listens on the port of the rule, has its destination and limits and
  runs on one of the services; and from then on, whatever clients, servers, the timer and
  the other threads do, each of its connections relays its bytes in order and complete until
  it is closed, queues at most 8192 of them, and keeps to the bandwidth in the line.
\<close>

theorem conf_rule_traffic:
  assumes "0 < n" and "j < length (split_lines txt)"
    and "split_lines txt ! j = rule_line ''tcp'' src_port dst_ip dst_port extras"
    and "is_word dst_ip" and "ce_from_string env dst_ip = Some a" and "trim_law (ce_trim env)"
    and "\<forall>v \<in> set extras. in_i32 v" and "length extras \<le> 2" and "asio_ready (ce_asio env (Suc j))"
  shows "\<exists>c i t. sd_init env n (Some txt) new_shared_data = Inr c \<and> (i, t) \<in> set (sd_proxies (cf_sd c)) \<and> i < n \<and>
    tp_acceptor t = Some src_port \<and> tp_rule t = tcp_rule_read src_port (Endpoint a dst_port) extras \<and>
    (\<forall>gap s. (ts_step gap)\<^sup>*\<^sup>* (ts_fresh t (us_x (sd_udp (cf_sd c)))) s \<longrightarrow>
       tp_rule (ts_proxy s) = tcp_rule_read src_port (Endpoint a dst_port) extras \<and>
       (\<forall>(k, conn) \<in> set (tp_connections (ts_proxy s)). conn_serves gap s k conn))"
proof -
  obtain c where c: "sd_init env n (Some txt) new_shared_data = Inr c" using sd_init_ok [OF assms(1)] by blast
  obtain c1 where c1: "conf_lines env 0 (split_lines txt) \<lparr>cf_sd = new_shared_data\<lparr>sd_pool := Some (pool_new n)\<rparr>,
      cf_ip_send_bandwith = 0, cf_ip_recv_bandwidth = 0, cf_log = [], cf_io = []\<rparr> = Inr c1"
    and same: "sd_proxies (cf_sd c) = sd_proxies (cf_sd c1)"
    using c by (auto simp: sd_init_def Let_def result_simps)
  obtain d d' where d: "conf_ok n d" "conf_line env (Suc j) (split_lines txt ! j) d = Inr d'" "conf_grows d' c1"
    using conf_lines_nth [OF c1 conf_ok_start assms(1,2)] by auto
  obtain i t where t: "(i, t) \<in> set (sd_proxies (cf_sd d'))" "i < n" "tp_acceptor t = Some src_port"
    "tp_rule t = tcp_rule_read src_port (Endpoint a dst_port) extras"
    using conf_line_lists [OF d(1) assms(1) d(2) [unfolded assms(3)] assms(4-9)] by blast
  have it: "(i, t) \<in> set (sd_proxies (cf_sd c))"
    using t(1) d(3) set_mono_prefix unfolding conf_grows_def same by blast
  let ?s = "ts_fresh t (us_x (sd_udp (cf_sd c)))"
  have "ts_reach gap ?s" for gap using sd_init_listed [OF c it] by (rule reach_init)
  then have reach: "ts_reach gap s" if "(ts_step gap)\<^sup>*\<^sup>* ?s s" for gap s
    using that by (rule reachable_steps)
  have "conn_serves gap s k conn" if "(ts_step gap)\<^sup>*\<^sup>* ?s s" "(k, conn) \<in> set (tp_connections (ts_proxy s))"
    for gap s k conn using reach [OF that(1)] that(2) by (rule ts_reach_serves)
  moreover have "tp_rule (ts_proxy s) = tp_rule t" if "(ts_step gap)\<^sup>*\<^sup>* ?s s" for gap s
    using ts_steps_rule [OF that] by (simp add: ts_fresh_def)
  ultimately have "\<forall>gap s. (ts_step gap)\<^sup>*\<^sup>* ?s s \<longrightarrow>
       tp_rule (ts_proxy s) = tcp_rule_read src_port (Endpoint a dst_port) extras \<and>
       (\<forall>(k, conn) \<in> set (tp_connections (ts_proxy s)). conn_serves gap s k conn)"
    using t(4) by fastforce
  then show ?thesis using c it t(2-4) by (intro exI conjI)
qed

theorem conf_rule_traffic_witness:
  "\<exists>c i t. sd_init demo_conf_env 2 (Some ''tcp 80 10.0.0.1 90 5'') new_shared_data = Inr c \<and>
     (i, t) \<in> set (sd_proxies (cf_sd c)) \<and> tp_acceptor t = Some 80 \<and> tr_max_bandwidth (tp_rule t) = 5"
proof -
  let ?line = "rule_line ''tcp'' 80 ''10.0.0.1'' 90 [5]"
  have d: "dec 80 = ''80''" "dec 90 = ''90''" "dec_int 5 = ''5''" by code_simp+
  have line: "?line = ''tcp 80 10.0.0.1 90 5''" by (simp add: rule_line_def extras_text_def d)
  have split: "split_lines ?line = [?line]" unfolding line by simp
  have h: "is_word ''10.0.0.1''" "ce_from_string demo_conf_env ''10.0.0.1'' = Some 7" "trim_law (ce_trim demo_conf_env)"
    "\<forall>v \<in> set [5]. in_i32 v" "length [5 :: int] \<le> 2" "asio_ready (ce_asio demo_conf_env (Suc 0))"
    using demo_trim_law by (simp_all add: is_word_def is_space_def demo_conf_env_def in_i32_def asio_ready_def)
  have "0 < length (split_lines ?line)" "split_lines ?line ! 0 = ?line" by (simp_all add: split)
  from conf_rule_traffic [OF _ this h, of 2] obtain c i t
    where "sd_init demo_conf_env 2 (Some ?line) new_shared_data = Inr c" "(i, t) \<in> set (sd_proxies (cf_sd c))"
      "tp_acceptor t = Some 80" "tp_rule t = tcp_rule_read 80 (Endpoint 7 90) [5]" by auto
  moreover from this(4) have "tr_max_bandwidth (tp_rule t) = 5" by (simp add: tcp_rule_read_def extra_nth_def)
  ultimately show ?thesis unfolding line by blast
qed

text \<open>What one file leaves behind.\<close>

definition demo_listed :: "nat tcp_proxy" where
  "demo_listed = (tp_new (new_tcp_rule 80 (Endpoint 7 90)) 5)\<lparr>tp_acceptor := Some 80, tp_accept_socket := Some Sock_open\<rparr>"

definition demo_file_conf :: "nat conf" where
  "demo_file_conf = demo_conf\<lparr>cf_sd := (sd_handed 2 (pool_new 2) (cf_sd demo_conf))\<lparr>sd_proxies := [(0, demo_listed)],
     sd_udp := new_udp_server\<lparr>us_x := ip_start 0 0 new_ip_proxies\<rparr>\<rparr>, cf_io := [(1, Tp_accept), (1, Tp_wait 10)]\<rparr>"

lemma demo_file_init: "sd_init demo_conf_env 2 (Some ''tcp 80 10.0.0.1 90'') new_shared_data = Inr demo_file_conf"
proof -
  let ?line = "rule_line ''tcp'' 80 ''10.0.0.1'' 90 []"
  have d: "dec 80 = ''80''" "dec 90 = ''90''" by code_simp+
  have line: "?line = ''tcp 80 10.0.0.1 90''" by (simp add: rule_line_def extras_text_def d)
  have split: "split_lines ?line = [?line]" unfolding line by simp
  have trim: "trim_law (ce_trim demo_conf_env)" by (simp add: demo_conf_env_def demo_trim_law)
  have ip: "is_word ''10.0.0.1''" "ce_from_string demo_conf_env ''10.0.0.1'' = Some 7"
    by (simp_all add: is_word_def is_space_def demo_conf_env_def)
  have ready: "asio_ready (ce_asio demo_conf_env (Suc 0))" by (simp add: asio_ready_def demo_conf_env_def)
  have rule: "tcp_rule_read 80 (Endpoint 7 90) [] = new_tcp_rule 80 (Endpoint (7 :: nat) 90)"
    by (simp add: tcp_rule_read_def new_tcp_rule_def extra_nth_def)
  have pool: "sd_pool (cf_sd demo_conf) = Some (pool_new 2)" by (simp add: demo_conf_def)
  have service: "conf_service (cf_sd demo_conf) = Inr (0, sd_handed 2 (pool_new 2) (cf_sd demo_conf))"
    using conf_service_pool [OF pool pool_ok_new] by (simp add: pool_new_fields)
  have start: "tp_start (ce_asio demo_conf_env (Suc 0)) (tp_new (new_tcp_rule 80 (Endpoint 7 90)) (ce_clock demo_conf_env (Suc 0))) =
      Inr (True, [Tp_accept, Tp_wait 10], demo_listed)"
    using tp_start_ready [OF ready, of "new_tcp_rule 80 (Endpoint 7 90)" 5]
    by (simp add: demo_listed_def) (simp add: demo_conf_env_def new_tcp_rule_def)
  have none: "sd_proxies (sd_handed 2 (pool_new 2) (cf_sd demo_conf)) = []" "cf_io demo_conf = []"
    by (simp_all add: sd_handed_def demo_conf_def new_shared_data_def)
  have "conf_line demo_conf_env (Suc 0) ?line demo_conf = Inr (demo_conf\<lparr>cf_sd :=
      (sd_handed 2 (pool_new 2) (cf_sd demo_conf))\<lparr>sd_proxies := [(0, demo_listed)]\<rparr>,
      cf_io := [(Suc 0, Tp_accept), (Suc 0, Tp_wait 10)]\<rparr>)"
    using conf_line_rule [of demo_conf_env "''tcp''"] trim_rule_line [OF trim proto_words(1), of 80 "''10.0.0.1''" 90 "[]"]
      conf_tcp_read [OF conf_dest_line [OF ip at_break_extras] service, of "[]" "Suc 0" 80 90]
    by (simp add: start rule none)
  then show ?thesis
    unfolding line [symmetric] sd_init_def
    by (simp add: split demo_conf_def [symmetric] Let_def) (simp add: demo_file_conf_def demo_conf_def sd_handed_def new_shared_data_def new_udp_server_def)
qed

end
