(* ===== verification/Conf_Spec.thy ===== *)
theory Conf_Spec
  imports Conf_Traffic
begin

text \<open>
  The configuration file as a whole. \<open>SharedData::init\<close> reads it line by line and changes its
  state as it goes. The same result comes from a reader that first takes every line apart on
  its own and then says for the whole list of lines what the proxies, the sockets, the
  limits and the reported lines are.
\<close>

section \<open>A line on its own\<close>

datatype 'a conf_cmd =
    Conf_skip
  | Conf_bad
  | Conf_limits "int option" "int option" bool  \<comment> \<open>the values written and whether both were read\<close>
  | Conf_tcp "'a tcp_rule"
  | Conf_udp "'a udp_rule"

definition conf_parse_ip :: "istream \<Rightarrow> 'a conf_cmd" where
  "conf_parse_ip is =
     (let (v, is) = read_int is in
      if is = None then Conf_limits v None False
      else let (w, is) = read_int is in Conf_limits v w (is \<noteq> None))"

definition conf_parse_tcp :: "'a conf_env \<Rightarrow> istream \<Rightarrow> 'a conf_cmd" where
  "conf_parse_tcp env is =
     (case conf_dest env is of
        None \<Rightarrow> Conf_bad
      | Some (src_port, dst, is) \<Rightarrow>
          Conf_tcp (snd (conf_extra (\<lambda>v r. r\<lparr>tr_delay_ms := v\<rparr>)
            (conf_extra (\<lambda>v r. r\<lparr>tr_max_bandwidth := v\<rparr>) (Some is, new_tcp_rule src_port dst)))))"

definition conf_parse_udp :: "'a conf_env \<Rightarrow> istream \<Rightarrow> 'a conf_cmd" where
  "conf_parse_udp env is =
     (case conf_dest env is of
        None \<Rightarrow> Conf_bad
      | Some (src_port, dst, is) \<Rightarrow>
          Conf_udp (snd (conf_extra (\<lambda>v r. r\<lparr>ur_drop_prob := v\<rparr>) (conf_extra (\<lambda>v r. r\<lparr>ur_delay_ms := v\<rparr>)
            (conf_extra (\<lambda>v r. r\<lparr>ur_max_bandwidth := v\<rparr>) (Some is, new_udp_rule src_port dst))))))"

definition conf_parse :: "'a conf_env \<Rightarrow> string \<Rightarrow> 'a conf_cmd" where
  "conf_parse env line =
     (let line = ce_trim env line in
      if conf_ignored line then Conf_skip
      else
        case read_string (Some line) of
          None \<Rightarrow> Conf_bad
        | Some (proto, is) \<Rightarrow>
            if proto = ''ip'' then conf_parse_ip (Some is)
            else if proto = ''tcp'' then conf_parse_tcp env (Some is)
            else if proto = ''udp'' then conf_parse_udp env (Some is)
            else Conf_bad)"

text \<open>What a line does once it has been taken apart.\<close>

fun conf_exec :: "'a::linorder conf_env \<Rightarrow> nat \<Rightarrow> 'a conf_cmd \<Rightarrow> 'a conf \<Rightarrow> failure + 'a conf" where
  "conf_exec env k Conf_skip c = Inr c"
| "conf_exec env k Conf_bad c = Inr (conf_report k c)"
| "conf_exec env k (Conf_limits v w ok) c =
     (let c = c\<lparr>cf_ip_send_bandwith := conf_set v (cf_ip_send_bandwith c),
                cf_ip_recv_bandwidth := conf_set w (cf_ip_recv_bandwidth c)\<rparr>
      in Inr (if ok then c else conf_report k c))"
| "conf_exec env k (Conf_tcp rule) c =
     and_then (conf_service (cf_sd c)) (\<lambda>(i, sd).
     and_then (tp_start (ce_asio env k) (tp_new rule (ce_clock env k))) (\<lambda>(started, io, proxy).
       Inr (if started
            then c\<lparr>cf_sd := sd\<lparr>sd_proxies := sd_proxies sd @ [(i, proxy)]\<rparr>, cf_io := cf_io c @ map (Pair k) io\<rparr>
            else conf_report k (c\<lparr>cf_sd := sd, cf_io := cf_io c @ map (Pair k) io\<rparr>))))"
| "conf_exec env k (Conf_udp rule) c =
     and_then (conf_service (cf_sd c)) (\<lambda>(i, sd).
     and_then (us_addServerProxy (ce_udp env k) rule (sd_udp sd)) (\<lambda>s.
       Inr (c\<lparr>cf_sd := sd\<lparr>sd_udp := s\<rparr>\<rparr>)))"

lemma conf_ip_exec: "conf_exec env k (conf_parse_ip is) c = Inr (conf_ip k is c)"
  by (auto simp: conf_parse_ip_def conf_ip_def conf_report_def conf_set_def Let_def split: prod.splits)

lemma and_then_cong: "(\<And>x. f x = g x) \<Longrightarrow> and_then r f = and_then r g"
  by (cases r) simp_all

lemma conf_tcp_exec: "conf_exec env k (conf_parse_tcp env is) c = conf_tcp env k is c"
  by (auto simp: conf_parse_tcp_def conf_tcp_def Let_def case_prod_unfold conf_report_def intro!: and_then_cong split: option.splits)

lemma conf_udp_exec: "conf_exec env k (conf_parse_udp env is) c = conf_udp env k is c"
  by (auto simp: conf_parse_udp_def conf_udp_def Let_def case_prod_unfold intro!: and_then_cong split: option.splits)

lemma conf_line_exec: "conf_line env k line c = conf_exec env k (conf_parse env line) c"
  by (auto simp: conf_line_def conf_parse_def conf_ignored_def conf_ip_exec conf_tcp_exec conf_udp_exec Let_def
      split: option.splits)

section \<open>All lines at once\<close>

text \<open>A reported line: not understood, half a pair of limits, or a proxy that does not start.\<close>

definition tcp_started :: "'a conf_env \<Rightarrow> nat \<Rightarrow> 'a tcp_rule \<Rightarrow> 'a tcp_proxy option" where
  "tcp_started env k rule =
     (case tp_start (ce_asio env k) (tp_new rule (ce_clock env k)) of
        Inr (started, io, t) \<Rightarrow> if started then Some t else None
      | Inl _ \<Rightarrow> None)"

fun conf_reported :: "'a conf_env \<Rightarrow> nat \<times> 'a conf_cmd \<Rightarrow> bool" where
  "conf_reported env (k, Conf_skip) = False"
| "conf_reported env (k, Conf_bad) = True"
| "conf_reported env (k, Conf_limits v w ok) = (\<not> ok)"
| "conf_reported env (k, Conf_tcp rule) = (tcp_started env k rule = None)"
| "conf_reported env (k, Conf_udp rule) = False"

fun is_rule :: "nat \<times> 'a conf_cmd \<Rightarrow> bool" where
  "is_rule (k, Conf_tcp rule) = True"
| "is_rule (k, Conf_udp rule) = True"
| "is_rule (k, _) = False"

fun rule_proxies :: "'a conf_env \<Rightarrow> nat \<Rightarrow> nat \<times> nat \<times> 'a conf_cmd \<Rightarrow> (nat \<times> 'a tcp_proxy) list" where
  "rule_proxies env n (j, k, Conf_tcp rule) = (case tcp_started env k rule of None \<Rightarrow> [] | Some t \<Rightarrow> [(j mod n, t)])"
| "rule_proxies env n (j, k, _) = []"

fun rule_sockets :: "'a::linorder conf_env \<Rightarrow> nat \<times> 'a conf_cmd \<Rightarrow> ('a endpoint \<times> 'a udp_ept) list" where
  "rule_sockets env (k, Conf_udp rule) = [(ur_dst_endpoint rule, fst (ue_new (ce_udp env k) rule new_ip_proxies))]"
| "rule_sockets env (k, _) = []"

fun line_limits :: "'a conf_cmd \<Rightarrow> int \<times> int \<Rightarrow> int \<times> int" where
  "line_limits (Conf_limits v w ok) (s, r) = (conf_set v s, conf_set w r)"
| "line_limits _ l = l"

text \<open>
  The lines are numbered from 1, the rules among them from 0. A TCP rule that starts gives a
  proxy on the service that its number among the rules selects; the last UDP rule for a
  destination gives the socket; the last limits count.
\<close>

definition file_cmds :: "'a conf_env \<Rightarrow> string \<Rightarrow> (nat \<times> 'a conf_cmd) list" where
  "file_cmds env body = enumerate 1 (map (conf_parse env) (split_lines body))"

definition file_proxies :: "'a conf_env \<Rightarrow> nat \<Rightarrow> string \<Rightarrow> (nat \<times> 'a tcp_proxy) list" where
  "file_proxies env n body = concat (map (rule_proxies env n) (enumerate 0 (filter is_rule (file_cmds env body))))"

definition file_sockets :: "'a::linorder conf_env \<Rightarrow> string \<Rightarrow> ('a endpoint \<times> 'a udp_ept) list" where
  "file_sockets env body = concat (map (rule_sockets env) (file_cmds env body))"

definition file_limits :: "'a conf_env \<Rightarrow> string \<Rightarrow> int \<times> int" where
  "file_limits env body = fold (line_limits \<circ> snd) (file_cmds env body) (0, 0)"

section \<open>The reader against the whole file\<close>

definition conf_limits :: "'a conf \<Rightarrow> int \<times> int" where
  "conf_limits c = (cf_ip_send_bandwith c, cf_ip_recv_bandwidth c)"

abbreviation conf_sockets :: "'a conf \<Rightarrow> 'a endpoint \<Rightarrow> 'a udp_ept option" where
  "conf_sockets c \<equiv> smap_find (us_endpoints (sd_udp (cf_sd c)))"

definition conf_next :: "nat \<Rightarrow> nat \<Rightarrow> 'a conf \<Rightarrow> bool" where
  "conf_next n j c \<longleftrightarrow> conf_ok n c \<and> (\<forall>p. sd_pool (cf_sd c) = Some p \<longrightarrow> pl_next_io_service p = j mod n)"

text \<open>What one line adds.\<close>

definition line_adds :: "'a::linorder conf_env \<Rightarrow> nat \<Rightarrow> nat \<Rightarrow> nat \<times> 'a conf_cmd \<Rightarrow> 'a conf \<Rightarrow> 'a conf \<Rightarrow> bool" where
  "line_adds env n j kc c c' \<longleftrightarrow>
     sd_proxies (cf_sd c') = sd_proxies (cf_sd c) @ (if is_rule kc then rule_proxies env n (j, kc) else []) \<and>
     conf_sockets c' = conf_sockets c ++ map_of (rev (rule_sockets env kc)) \<and>
     cf_log c' = cf_log c @ (if conf_reported env kc then [fst kc] else []) \<and>
     conf_limits c' = line_limits (snd kc) (conf_limits c)"

lemma us_add_socket:
  assumes "us_addServerProxy r rule s = Inr s'" and bw: "ipx_bandwidth (us_x s) = (\<lambda>_. 0)"
  shows "smap_find (us_endpoints s') = (smap_find (us_endpoints s))(ur_dst_endpoint rule \<mapsto> fst (ue_new r rule new_ip_proxies))"
proof -
  have "fst (ue_new r rule (us_x s)) = fst (ue_new r rule new_ip_proxies)"
    using bw by (simp add: ue_new_def getIPProxy_def new_ip_proxies_def Let_def)
  then show ?thesis
    using assms(1)
    by (cases "ue_new r rule (us_x s)") (auto simp: us_addServerProxy_def result_simps smap_find_put us_put_def)
qed

lemma conf_exec_adds:
  assumes nxt: "conf_next n j c" and "0 < n" and ex: "conf_exec env k cmd c = Inr c'" and ok': "conf_ok n c'"
  shows "line_adds env n j (k, cmd) c c' \<and> conf_next n (if is_rule (k, cmd) then Suc j else j) c'"
proof -
  obtain p where p: "sd_pool (cf_sd c) = Some p" "pool_ok n p" and nx: "pl_next_io_service p = j mod n"
    using nxt by (auto simp: conf_next_def conf_ok_def)
  note service = conf_service_pool [OF p assms(2)]
  have bw: "ipx_bandwidth (us_x (sd_udp (cf_sd c))) = (\<lambda>_. 0)" using nxt by (simp add: conf_next_def conf_ok_def)
  show ?thesis
  proof (cases cmd)
    case (Conf_tcp rule)
    obtain started io t where t: "tp_start (ce_asio env k) (tp_new rule (ce_clock env k)) = Inr (started, io, t)"
      using tp_start_new by metis
    then have "tcp_started env k rule = (if started then Some t else None)" by (simp add: tcp_started_def)
    then show ?thesis
      using ex ok' t p(1) nx
      by (auto simp: Conf_tcp service line_adds_def conf_next_def conf_report_def sd_handed_def conf_limits_def mod_Suc_eq)
  next
    case (Conf_udp rule)
    obtain s where s: "us_addServerProxy (ce_udp env k) rule (sd_udp (cf_sd c)) = Inr s"
      "cf_sd c' = (sd_handed n p (cf_sd c))\<lparr>sd_udp := s\<rparr>" "cf_log c' = cf_log c" "conf_limits c' = conf_limits c"
      using ex by (auto simp: Conf_udp service result_simps sd_handed_def conf_limits_def)
    show ?thesis
      using us_add_socket [OF s(1) bw] ok' p(1) nx s(2-4)
      by (auto simp: Conf_udp line_adds_def conf_next_def sd_handed_def mod_Suc_eq)
  qed (use ex ok' nxt in \<open>auto simp: line_adds_def conf_next_def conf_report_def conf_limits_def Let_def\<close>)
qed

text \<open>What the lines add, from the number \<open>Suc k\<close> on, when \<open>j\<close> rules have come before.\<close>

lemma conf_lines_adds:
  assumes "conf_next n j c" and "0 < n" and "conf_lines env k lines c = Inr c'"
  shows "let cmds = enumerate (Suc k) (map (conf_parse env) lines) in
    sd_proxies (cf_sd c') = sd_proxies (cf_sd c) @ concat (map (rule_proxies env n) (enumerate j (filter is_rule cmds))) \<and>
    conf_sockets c' = conf_sockets c ++ map_of (rev (concat (map (rule_sockets env) cmds))) \<and>
    cf_log c' = cf_log c @ map fst (filter (conf_reported env) cmds) \<and>
    conf_limits c' = fold (line_limits \<circ> snd) cmds (conf_limits c)"
  using assms(1,3)
proof (induction lines arbitrary: k j c)
  case (Cons line lines)
  let ?cmd = "conf_parse env line"
  obtain d where d: "conf_line env (Suc k) line c = Inr d" "conf_lines env (Suc k) lines d = Inr c'"
    using Cons.prems(2) by (auto simp: result_simps)
  have ok: "conf_ok n c" using Cons.prems(1) by (simp add: conf_next_def)
  have "conf_ok n d" using conf_line_outcome [OF ok assms(2), of env "Suc k" line] d(1) by auto
  with conf_exec_adds [OF Cons.prems(1) assms(2)] d(1)
  have one: "line_adds env n j (Suc k, ?cmd) c d" "conf_next n (if is_rule (Suc k, ?cmd) then Suc j else j) d"
    by (auto simp: conf_line_exec)
  from Cons.IH [OF one(2) d(2)] one(1) show ?case
    by (cases "is_rule (Suc k, ?cmd)") (auto simp: line_adds_def Let_def)
qed simp

text \<open>
  C19. Reading the configuration line by line is taking it as a whole (\<open>SharedData::init\<close>): for
  every file, the result of the loop over its lines, which keeps the stream, the service
  counter, the limits and the shared data in variables that live across lines, is what the
  list of lines, each taken apart on its own, says: the proxies are those of the TCP rules
  whose listener starts, in order, each on the service that its number among the rules
  selects; the sockets are those of the last UDP rule for each destination; the limits are
  the last ones written; and the lines reported are those that are not understood, have
  half a pair of limits or do not start.
\<close>

theorem conf_file_equiv:
  assumes "sd_init env n (Some body) new_shared_data = Inr c" and "0 < n"
  shows "sd_proxies (cf_sd c) = file_proxies env n body \<and>
    smap_find (us_endpoints (sd_udp (cf_sd c))) = map_of (rev (file_sockets env body)) \<and>
    cf_log c = map fst (filter (conf_reported env) (file_cmds env body)) \<and>
    (ipx_bandwidth (us_x (sd_udp (cf_sd c))) I0, ipx_bandwidth (us_x (sd_udp (cf_sd c))) I1) = file_limits env body"
proof -
  define c0 :: "'a conf" where "c0 = \<lparr>cf_sd = new_shared_data\<lparr>sd_pool := Some (pool_new n)\<rparr>, cf_ip_send_bandwith = 0,
      cf_ip_recv_bandwidth = 0, cf_log = [], cf_io = []\<rparr>"
  obtain d where d: "conf_lines env 0 (split_lines body) c0 = Inr d"
    and c: "c = d\<lparr>cf_sd := (cf_sd d)\<lparr>sd_udp := (sd_udp (cf_sd d))\<lparr>us_x :=
      ip_start (cf_ip_send_bandwith d) (cf_ip_recv_bandwidth d) (us_x (sd_udp (cf_sd d)))\<rparr>\<rparr>\<rparr>"
    using assms(1) by (auto simp: sd_init_def c0_def Let_def result_simps)
  have "conf_ok n c0" using conf_ok_start by (simp add: c0_def)
  moreover have "pl_next_io_service (pool_new n) = 0" by (simp add: pool_new_fields)
  ultimately have "conf_next n 0 c0" by (simp add: conf_next_def) (simp add: c0_def new_shared_data_def)
  from conf_lines_adds [OF this assms(2) d] show ?thesis
    by (simp add: c Let_def file_proxies_def file_sockets_def file_limits_def file_cmds_def conf_limits_def ip_start_def)
       (simp add: c0_def new_shared_data_def new_udp_server_def)
qed

theorem conf_file_equiv_witness:
  "file_proxies demo_conf_env 2 ''tcp 80 10.0.0.1 90'' = [(0, demo_listed)] \<and>
   file_limits demo_conf_env ''tcp 80 10.0.0.1 90'' = (0, 0) \<and>
   filter (conf_reported demo_conf_env) (file_cmds demo_conf_env ''tcp 80 10.0.0.1 90'') = []"
proof -
  have "sd_proxies (cf_sd demo_file_conf) = [(0, demo_listed)]" "cf_log demo_file_conf = []"
    "ipx_bandwidth (us_x (sd_udp (cf_sd demo_file_conf))) I0 = 0" "ipx_bandwidth (us_x (sd_udp (cf_sd demo_file_conf))) I1 = 0"
    by (simp_all add: demo_file_conf_def demo_conf_def ip_start_def new_ip_proxies_def)
  then show ?thesis using conf_file_equiv [OF demo_file_init] by simp
qed

end
