(* ===== verification/Process_System.thy ===== *)
theory Process_System
  imports Tcp_Account Udp_Account Conf_Spec
begin

text \<open>
  The running process: all TCP proxies, the UDP server and the thread of \<open>IPProxies\<close> over one
  table of client addresses, started from a configuration file. A step is a handler of a
  proxy, a receive of the UDP server, one turn of an inner loop of its routine thread, or a
  tick of the table. Each part obeys the law of \<open>ip_holder\<close>, so what \<open>Tcp_System\<close> and
  \<open>Udp_Threads\<close> take for granted of the others holds.
\<close>

section \<open>State and steps\<close>

record 'a process =
  pr_tcp :: "'a tcp_sys list"
  pr_udp :: "'a udp_thread"
  pr_x :: "'a ip_proxies"
  pr_ip_last :: msec

definition pr_view :: "'a process \<Rightarrow> nat \<Rightarrow> 'a tcp_sys" where
  "pr_view p i = tcp_at (pr_x p) (pr_tcp p ! i)"

definition pr_udp_view :: "'a process \<Rightarrow> 'a udp_thread" where
  "pr_udp_view p = udp_at (pr_x p) (pr_udp p)"

definition pr_held :: "'a process \<Rightarrow> 'a multiset" where
  "pr_held p = sum_list (map tcp_held (pr_tcp p)) + udp_held (pr_udp p)"

text \<open>
  The count of an entry is an \<open>int\<close>. There is room as long as the holders, one more for each
  proxy and one for each datagram that waits, are fewer than \<open>2 ^ 31\<close>; a process has 1024
  descriptors, and each holder is a socket.
\<close>

definition pr_room :: "'a process \<Rightarrow> bool" where
  "pr_room p \<longleftrightarrow> size (pr_held p) + (length (pr_tcp p) + udp_load (pr_udp p)) < 2147483648"

inductive pr_step :: "int \<Rightarrow> 'a::linorder process \<Rightarrow> 'a process \<Rightarrow> bool" for gap :: int where
  tcp: "pr_room p \<Longrightarrow> i < length (pr_tcp p) \<Longrightarrow> ts_own gap (pr_view p i) s \<Longrightarrow>
     pr_step gap p (p\<lparr>pr_tcp := (pr_tcp p)[i := s], pr_x := ts_x s\<rparr>)"
| udp: "pr_room p \<Longrightarrow> ut_own (pr_udp_view p) t \<Longrightarrow>
     pr_step gap p (p\<lparr>pr_udp := t, pr_x := us_x (uw_s (ut_w t))\<rparr>)"
| ip: "0 < ipx_threads (pr_x p) \<Longrightarrow> ip_tick now (pr_ip_last p) (pr_x p) = (t, x) \<Longrightarrow>
     pr_step gap p (p\<lparr>pr_x := x, pr_ip_last := t\<rparr>)"

section \<open>The UDP server after the configuration\<close>

text \<open>What holds of the sockets of the rules before the server starts.\<close>

definition us_unused :: "'a::linorder udp_server \<Rightarrow> bool" where
  "us_unused s \<longleftrightarrow> (\<forall>now. udp_reach \<lparr>uw_s = s, uw_last = now, uw_log = []\<rparr>) \<and> us_new s = [] \<and>
     ipx_addrs (us_x s) = [] \<and> ipx_bandwidth (us_x s) = (\<lambda>_. 0) \<and>
     (\<forall>k e. smap_find (us_endpoints s) k = Some e \<longrightarrow> ue_client_ip e = None \<and> ue_recv_queue e = [] \<and>
        ue_send_queue e = [] \<and> (ue_server_flag e \<longleftrightarrow> ur_src_port (ue_rule e) \<noteq> 0))"

text \<open>
  The process before anything has happened: the listed proxies, the sockets of the rules,
  each with a port, and no entry in the table. \<open>proc_of_conf\<close> is the process that
  \<open>SharedData::init\<close> leaves behind.
\<close>

definition proc_of :: "'a tcp_proxy list \<Rightarrow> 'a udp_server \<Rightarrow> 'a ip_proxies \<Rightarrow> msec \<Rightarrow> 'a process" where
  "proc_of ts s x now =
     \<lparr>pr_tcp = map (\<lambda>t. ts_fresh t x) ts, 
      pr_udp = \<lparr>ut_w = \<lparr>uw_s = s\<lparr>us_x := x\<rparr>, uw_last = now, uw_log = []\<rparr>, ut_pc = Sleeping\<rparr>,
      pr_x = x, pr_ip_last = now\<rparr>"

definition us_ports_ok :: "'a udp_server \<Rightarrow> bool" where
  "us_ports_ok s \<longleftrightarrow> (\<forall>(k, e) \<in> set (us_endpoints s). ur_src_port (ue_rule e) \<noteq> 0)"

definition pr_init :: "'a::linorder process \<Rightarrow> bool" where
  "pr_init p \<longleftrightarrow> (\<exists>ts s x now. (\<forall>t \<in> set ts. tp_listed t) \<and> us_unused s \<and> us_ports_ok s \<and> ipx_addrs x = [] \<and>
     p = proc_of ts s x now)"

abbreviation pr_reach :: "int \<Rightarrow> 'a::linorder process \<Rightarrow> bool" where
  "pr_reach gap \<equiv> reachable pr_init (pr_step gap)"

definition proc_of_conf :: "msec \<Rightarrow> 'a conf \<Rightarrow> 'a process" where
  "proc_of_conf now c =
     proc_of (map snd (sd_proxies (cf_sd c))) (sd_udp (cf_sd c)) (us_x (sd_udp (cf_sd c))) now"

lemma us_unused_new: "us_unused new_udp_server"
  by (auto simp: us_unused_def new_udp_server_def udp_init_world_def new_ip_proxies_def intro: reach_init)

lemma us_unused_add:
  assumes "us_unused s" and h: "us_addServerProxy r rule s = Inr s'"
  shows "us_unused s'"
proof -
  obtain e x where n: "ue_new r rule (us_x s) = (e, x)" by force
  have "ipx_bandwidth (us_x s) = (\<lambda>_. 0)" using assms(1) by (simp add: us_unused_def)
  then have x: "x = us_x s" "ue_client_ip e = None"
    using n by (auto simp: ue_new_def getIPProxy_def Let_def split: if_splits)
  have "ue_delete old y = Inr y" if "smap_find (us_endpoints s) k = Some old" for old k y
    using assms(1) that by (simp add: us_unused_def ue_delete_def ip_release_def)
  then have s': "s' = (us_put (ur_dst_endpoint rule) e s)\<lparr>us_x := us_x s\<rparr>"
    using h n x(1) by (auto simp: us_addServerProxy_def split: option.splits)
  have "udp_reach \<lparr>uw_s = s', uw_last = now, uw_log = []\<rparr>" for now
  proof -
    have "udp_reach \<lparr>uw_s = s, uw_last = now, uw_log = []\<rparr>" using assms(1) by (simp add: us_unused_def)
    moreover have "udp_step \<lparr>uw_s = s, uw_last = now, uw_log = []\<rparr> \<lparr>uw_s = s', uw_last = now, uw_log = []\<rparr>"
      using udp_step.add [of r rule "\<lparr>uw_s = s, uw_last = now, uw_log = []\<rparr>" s'] h by simp
    ultimately show ?thesis by (rule reach_step)
  qed
  then show ?thesis
    using assms(1) ue_new_queues [OF n] x(2) by (auto simp: us_unused_def s' smap_find_put split: if_splits)
qed

lemma conf_line_udp:
  assumes "\<And>r rule s s'. P s \<Longrightarrow> us_addServerProxy r rule s = Inr s' \<Longrightarrow> P s'"
    and "conf_line env k line c = Inr c'" and "P (sd_udp (cf_sd c))"
  shows "P (sd_udp (cf_sd c'))"
proof -
  have tcp: "P (sd_udp (cf_sd c'))" if "conf_tcp env k is c = Inr c'" for "is"
    using that assms(3)
    by (auto simp: conf_tcp_def conf_report_def Let_def case_prod_unfold result_simps
        dest!: conf_service_same split: option.splits if_splits)
  have udp: "P (sd_udp (cf_sd c'))" if "conf_udp env k is c = Inr c'" for "is"
    using that assms(1) assms(3)
    by (fastforce simp: conf_udp_def conf_report_def Let_def case_prod_unfold result_simps
        dest!: conf_service_same split: option.splits)
  have "sd_udp (cf_sd (conf_ip k is c)) = sd_udp (cf_sd c)" "sd_udp (cf_sd (conf_report k c)) = sd_udp (cf_sd c)" for "is"
    by (simp_all add: conf_ip_def conf_report_def Let_def case_prod_unfold)
  then show ?thesis
    using assms(2,3) by (auto simp: conf_line_def Let_def intro: tcp udp split: if_splits option.splits)
qed

lemma conf_lines_udp:
  assumes "\<And>r rule s s'. P s \<Longrightarrow> us_addServerProxy r rule s = Inr s' \<Longrightarrow> P s'"
  shows "conf_lines env k lines c = Inr c' \<Longrightarrow> P (sd_udp (cf_sd c)) \<Longrightarrow> P (sd_udp (cf_sd c'))"
proof (induction lines arbitrary: k c)
  case (Cons line lines)
  then obtain d where d: "conf_line env (Suc k) line c = Inr d" "conf_lines env (Suc k) lines d = Inr c'"
    by (auto simp: result_simps)
  have "P (sd_udp (cf_sd d))"
    by (rule conf_line_udp [where P = P, OF _ d(1) Cons.prems(2)]) (rule assms)
  with Cons.IH d(2) show ?case by blast
qed simp

lemma sd_init_pr_init:
  assumes "sd_init env n (Some body) new_shared_data = Inr c" and "us_ports_ok (sd_udp (cf_sd c))"
  shows "pr_init (proc_of_conf now c)"
proof -
  let ?x = "us_x (sd_udp (cf_sd c))"
  obtain d where d: "conf_lines env 0 (split_lines body) \<lparr>cf_sd = new_shared_data\<lparr>sd_pool := Some (pool_new n)\<rparr>,
      cf_ip_send_bandwith = 0, cf_ip_recv_bandwidth = 0, cf_log = [], cf_io = []\<rparr> = Inr d"
    and c: "sd_udp (cf_sd c) = (sd_udp (cf_sd d))\<lparr>us_x :=
      ip_start (cf_ip_send_bandwith d) (cf_ip_recv_bandwidth d) (us_x (sd_udp (cf_sd d)))\<rparr>"
    using assms(1) by (auto simp: sd_init_def Let_def result_simps)
  have s: "us_unused (sd_udp (cf_sd d))"
    by (rule conf_lines_udp [where P = us_unused, OF _ d])
      (use us_unused_add us_unused_new in \<open>auto simp: new_shared_data_def\<close>)
  have "ts_init (ts_fresh t ?x)" if "(i, t) \<in> set (sd_proxies (cf_sd c))" for i t
    by (rule sd_init_listed [OF assms(1) that])
  then have "\<forall>t \<in> set (map snd (sd_proxies (cf_sd c))). tp_listed t" by (fastforce simp: ts_init_def ts_fresh_def)
  moreover have "us_ports_ok (sd_udp (cf_sd d))" using assms(2) by (simp add: c us_ports_ok_def)
  moreover have "ipx_addrs ?x = []" using s by (simp add: c us_unused_def)
  moreover have "proc_of_conf now c = proc_of (map snd (sd_proxies (cf_sd c))) (sd_udp (cf_sd d)) ?x now"
    by (simp add: proc_of_conf_def proc_of_def c)
  ultimately show ?thesis unfolding pr_init_def using s by blast
qed

section \<open>All parts together\<close>

interpretation proc: ip_holder_pair
  "\<lambda>ss. sum_list (map tcp_held ss)" "\<lambda>ss. sum_list (map (\<lambda>_. 1) ss)"
  "\<lambda>x ss. \<forall>s \<in> set ss. ts_reach gap (tcp_at x s)" "list_step (tcp_part_step gap)"
  udp_held udp_load udp_part_inv udp_part_step for gap :: int
  by unfold_locales

definition pr_inv :: "int \<Rightarrow> 'a::linorder process \<Rightarrow> bool" where
  "pr_inv gap p \<longleftrightarrow> (\<forall>s \<in> set (pr_tcp p). ts_reach gap (tcp_at (pr_x p) s)) \<and>
     udp_part_inv (pr_x p) (pr_udp p) \<and> ip_acc (pr_x p) (pr_held p)"

lemma pr_inv_settled: "pr_inv gap p = proc.both.settled gap (pr_x p) (pr_tcp p, pr_udp p)"
  by (simp add: pr_inv_def proc.both.settled_def pr_held_def)

lemma ts_init_conns: "ts_init s \<Longrightarrow> ts_conns s = []"
proof -
  assume "ts_init s"
  then obtain ar rule clock io t where t: "tp_start ar (tp_new rule clock) = Inr (True, io, t)" "ts_proxy s = t"
    by (auto simp: ts_init_def tp_listed_def ts_fresh_def)
  have "map fst (tp_connections t) = map fst (tp_connections (tp_new rule clock))"
    using tp_start_sim [OF t(1), of "\<lambda>_. pend0"] by (simp add: conns_stop_def tp_new_def)
  then show ?thesis by (simp add: t(2) tp_new_def)
qed

lemma sum_list_0: "\<forall>x \<in> set xs. f x = 0 \<Longrightarrow> sum_list (map f xs) = (0 :: 'b::comm_monoid_add)"
  by (induction xs) simp_all

lemma us_unused_held:
  assumes "us_unused s"
  shows "us_held s = {#}"
proof -
  have "udp_reach \<lparr>uw_s = s, uw_last = 0, uw_log = []\<rparr>" using assms by (simp add: us_unused_def)
  from udw.reachable_inv [OF this] have "smap_ok (us_endpoints s)"
    by (simp add: udp_inv_def uei.all_ok_def us_maps_ok_def)
  then have "smap_find (us_endpoints s) k = Some e" if "(k, e) \<in> set (us_endpoints s)" for k e
    using that sm.distinct_keys by (fastforce simp: smap_keys_def)
  then have "\<forall>(k, e) \<in> set (us_endpoints s). ue_client_ip e = None"
    using assms unfolding us_unused_def by blast
  moreover have "msum ue_held m = {#}" if "\<forall>(k, e) \<in> set m. ue_client_ip e = None" for m :: "('a endpoint, 'a udp_ept) smap"
    using that by (induction m) (auto simp: ue_held_def)
  ultimately show ?thesis using assms by (simp add: us_held_def us_unused_def)
qed

lemma pr_inv_init:
  assumes "pr_init p"
  shows "pr_inv gap p"
proof -
  obtain ts s x now where ts: "\<forall>t \<in> set ts. tp_listed t" and s: "us_unused s" "us_ports_ok s"
    and x: "ipx_addrs x = []" and p: "p = proc_of ts s x now" using assms by (auto simp: pr_init_def)
  have "ipx_ok x" using ip_acc_ok [OF ip_acc_start [OF x]] .
  then have init: "ts_init (ts_fresh t x)" if "t \<in> set ts" for t using ts that unfolding ts_init_def by blast
  then have tcp: "\<forall>s \<in> set (pr_tcp p). ts_reach gap (tcp_at (pr_x p) s)"
    by (auto simp: p proc_of_def tcp_at_def ts_fresh_def intro!: reach_init)
  let ?w = "\<lparr>uw_s = s, uw_last = now, uw_log = []\<rparr>"
  have "udp_reach ?w" using s(1) by (simp add: us_unused_def)
  then have "udp_reach (?w\<lparr>uw_s := (uw_s ?w)\<lparr>us_x := x\<rparr>\<rparr>)" using udp_step.others by (rule reach_step)
  then have "ut_init (udp_at (pr_x p) (pr_udp p))" by (simp add: ut_init_def p proc_of_def udp_at_def)
  then have "ut_reach (udp_at (pr_x p) (pr_udp p))" by (rule reach_init)
  moreover have "ue_good bw e" if "smap_find (us_endpoints s) k = Some e" for k e bw
    using s that map_of_SomeD [OF that] by (fastforce simp: us_unused_def us_ports_ok_def ue_good_def)
  then have "udp_goods (pr_x p) (pr_udp p)"
    using s(1) by (simp add: udp_goods_def p proc_of_def us_find_def us_unused_def split: option.splits)
  ultimately have udp: "udp_part_inv (pr_x p) (pr_udp p)" by (simp add: udp_part_inv_def)
  have "tcp_held s = {#}" if "s \<in> set (pr_tcp p)" for s
    using that init ts_init_conns by (fastforce simp: p proc_of_def tcp_held_def)
  then have "sum_list (map tcp_held (pr_tcp p)) = {#}" by (intro sum_list_0) auto
  moreover have "udp_held (pr_udp p) = {#}" using us_unused_held [OF s(1)] by (simp add: p proc_of_def udp_held_def)
  ultimately have "pr_held p = {#}" by (simp add: pr_held_def)
  then have "ip_acc (pr_x p) (pr_held p)" using ip_acc_start [OF x] by (simp add: p proc_of_def)
  then show ?thesis using tcp udp by (simp add: pr_inv_def)
qed

lemma pr_inv_tcp:
  assumes inv: "pr_inv gap p" and room: "pr_room p" and i: "i < length (pr_tcp p)" and own: "ts_own gap (pr_view p i) s"
  shows "pr_inv gap (p\<lparr>pr_tcp := (pr_tcp p)[i := s], pr_x := ts_x s\<rparr>)"
proof -
  have "list_step (tcp_part_step gap) (pr_x p) (pr_tcp p) (ts_x s) ((pr_tcp p)[i := s])"
    using i own by (auto simp: list_step_def tcp_part_step_def pr_view_def)
  then have st: "pair_step (list_step (tcp_part_step gap)) udp_part_step (pr_x p) (pr_tcp p, pr_udp p)
      (ts_x s) ((pr_tcp p)[i := s], pr_udp p)" by (simp add: pair_step_def)
  show ?thesis
    using proc.both.settled_step [OF _ st] inv room
    by (simp add: pr_inv_settled pr_room_def pr_held_def sum_list_triv)
qed

lemma pr_inv_udp:
  assumes inv: "pr_inv gap p" and room: "pr_room p" and own: "ut_own (pr_udp_view p) t"
  shows "pr_inv gap (p\<lparr>pr_udp := t, pr_x := us_x (uw_s (ut_w t))\<rparr>)"
proof -
  have "udp_part_step (pr_x p) (pr_udp p) (us_x (uw_s (ut_w t))) t" using own by (simp add: udp_part_step_def pr_udp_view_def)
  then have st: "pair_step (list_step (tcp_part_step gap)) udp_part_step (pr_x p) (pr_tcp p, pr_udp p)
      (us_x (uw_s (ut_w t))) (pr_tcp p, t)" by (simp add: pair_step_def)
  show ?thesis
    using proc.both.settled_step [OF _ st] inv room
    by (simp add: pr_inv_settled pr_room_def pr_held_def sum_list_triv)
qed

lemma pr_inv_ip:
  assumes "pr_inv gap p"
  shows "pr_inv gap (p\<lparr>pr_x := snd (ip_tick now t0 (pr_x p)), pr_ip_last := t\<rparr>)"
  using proc.both.settled_tick [of gap "pr_x p" "(pr_tcp p, pr_udp p)" now t0] assms by (simp add: pr_inv_settled)

lemma pr_inv_step:
  assumes "pr_inv gap p" and "pr_step gap p q"
  shows "pr_inv gap q"
  using assms(2)
proof cases
  case tcp then show ?thesis using pr_inv_tcp [OF assms(1)] by simp
next
  case udp then show ?thesis using pr_inv_udp [OF assms(1)] by simp
next
  case (ip now t x) then show ?thesis using pr_inv_ip [OF assms(1), of t now "pr_ip_last p"] by simp
qed

interpretation prs: step_invariant pr_init "pr_step gap" "pr_inv gap" for gap :: int
  by unfold_locales (rule pr_inv_init, simp, rule pr_inv_step)

section \<open>The properties of the process\<close>


lemma pr_reach_tcp: "pr_reach gap p \<Longrightarrow> i < length (pr_tcp p) \<Longrightarrow> ts_reach gap (pr_view p i)"
  using prs.reachable_inv [of gap p] by (simp add: pr_inv_def pr_view_def)

lemma pr_reach_udp: "pr_reach gap p \<Longrightarrow> ut_reach (pr_udp_view p)"
  using prs.reachable_inv [of gap p] by (simp add: pr_inv_def udp_part_inv_def pr_udp_view_def)


section \<open>A process to evaluate on\<close>

text \<open>
  One proxy, one rule for UDP and limits for client addresses. A client at address 7 connects
  to the proxy and sends a datagram; in the middle of the tick at 20 the routine thread has just
  made a socket for it: both hold its entry.
\<close>

definition demo_us :: "nat udp_server" where
  "demo_us = (case us_addServerProxy demo_ui demo_udp_rule new_udp_server of Inl _ \<Rightarrow> new_udp_server | Inr s \<Rightarrow> s)"

definition demo_p0 :: "nat process" where
  "demo_p0 = proc_of [demo_listening] demo_us (ip_start 100000 100000 new_ip_proxies) 10"

definition pr_do_accept :: "'a::linorder \<Rightarrow> nat \<Rightarrow> 'a process \<Rightarrow> 'a process" where
  "pr_do_accept a i p =
     (case tp_handleAccept demo_ar Success (Some a) (pr_x p) (ts_proxy (pr_view p i)) of
        Inl _ \<Rightarrow> p
      | Inr (io, x, t) \<Rightarrow>
          let s = pr_view p i; n = tp_next (ts_proxy s);
              s' = ts_put io x t (s\<lparr>ts_accepted := (ts_accepted s)(n := tp_last_flush_tm (ts_proxy s))\<rparr>)
          in p\<lparr>pr_tcp := (pr_tcp p)[i := s'], pr_x := ts_x s'\<rparr>)"

definition pr_do_udp :: "('a udp_thread \<Rightarrow> 'a udp_thread) \<Rightarrow> 'a process \<Rightarrow> 'a process" where
  "pr_do_udp f p = (let t = f (pr_udp_view p) in p\<lparr>pr_udp := t, pr_x := us_x (uw_s (ut_w t))\<rparr>)"

text \<open>A turn of the routine thread, and a bound that leaves room.\<close>

definition pr_do_turn :: "msec \<Rightarrow> 'a::linorder process \<Rightarrow> 'a process" where
  "pr_do_turn now p =
     (case ut_next demo_env 60000 True now (pr_udp_view p) of Inl _ \<Rightarrow> p | Inr t \<Rightarrow> pr_do_udp (\<lambda>_. t) p)"

definition pr_few :: "'a process \<Rightarrow> bool" where
  "pr_few p \<longleftrightarrow> size (pr_held p) + (length (pr_tcp p) + udp_load (pr_udp p)) \<le> 100"

lemma pr_do_accept_steps:
  assumes "pr_room p" and "i < length (pr_tcp p)"
  shows "(pr_step gap)\<^sup>*\<^sup>* p (pr_do_accept a i p)"
proof (cases "tp_handleAccept demo_ar Success (Some a) (pr_x p) (ts_proxy (pr_view p i))")
  case (Inr r)
  obtain io x t where "r = (io, x, t)" by (cases r)
  then have "tp_handleAccept demo_ar Success (Some a) (ts_x (pr_view p i)) (ts_proxy (pr_view p i)) = Inr (io, x, t)"
    using Inr by (simp add: pr_view_def)
  from pr_step.tcp [OF assms ts_own.accept [OF this, of gap]] show ?thesis
    using Inr \<open>r = (io, x, t)\<close> by (auto simp: pr_do_accept_def Let_def)
qed (simp add: pr_do_accept_def)

lemma pr_do_udp_reach:
  "pr_reach gap p \<Longrightarrow> pr_room p \<Longrightarrow> ut_own (pr_udp_view p) (f (pr_udp_view p)) \<Longrightarrow> pr_reach gap (pr_do_udp f p)"
  using pr_step.udp [of p "f (pr_udp_view p)" gap] reach_step by (fastforce simp: pr_do_udp_def Let_def)

lemma pr_few_room: "pr_few p \<Longrightarrow> pr_room p"
  by (simp add: pr_few_def pr_room_def)

lemma ut_do_recv_own:
  "map_option (\<lambda>e. 0 < ue_receives e) (us_find (uw_s (ut_w t)) k) = Some True \<Longrightarrow> length data \<le> UDP_BUFFER_SIZE \<Longrightarrow>
     pc_locked (ut_pc t) \<noteq> Some k \<Longrightarrow> ut_own t (ut_do_recv k src data t)"
  using ut_own.recv [where t = t and k = k and data = data and r = demo_ui and clock = 10 and roll = 1 and src = src]
  by (auto simp: ut_do_recv_def)

lemma pr_do_turn_reach:
  assumes "pr_reach gap p" and "pr_few p"
  shows "pr_reach gap (pr_do_turn now p)"
proof (cases "ut_next demo_env 60000 True now (pr_udp_view p)")
  case Inl
  then show ?thesis using assms(1) by (simp add: pr_do_turn_def)
next
  case (Inr t)
  from assms(1) pr_few_room [OF assms(2)] have "pr_reach gap (pr_do_udp (\<lambda>_. t) p)"
    by (rule pr_do_udp_reach) (rule ut_own.routine [OF Inr])
  then show ?thesis by (simp add: pr_do_turn_def Inr)
qed

definition demo_p1 :: "nat process" where
  "demo_p1 = pr_do_udp (ut_do_recv demo_dst demo_client [1, 2]) (pr_do_accept 7 0 demo_p0)"

definition demo_p2 :: "nat process" where
  "demo_p2 = pr_do_turn 20 (pr_do_turn 20 (pr_do_turn 20 demo_p1))"

lemma demo_p0_init: "pr_init demo_p0"
proof -
  have "tp_start demo_ar (tp_new demo_rule 0) = Inr (True, [Tp_accept, Tp_wait 10], demo_listening)"
    by (simp add: tp_start_def tp_startAccept_def tp_asyncWait_def demo_ar_def demo_listening_def tp_new_def demo_rule_def)
  then have "tp_listed demo_listening" unfolding tp_listed_def by blast
  moreover have "us_unused demo_us"
    using us_unused_add [OF us_unused_new] us_unused_new by (auto simp: demo_us_def split: sum.split)
  moreover have "us_ports_ok demo_us" by code_simp
  moreover have "ipx_addrs (ip_start 100000 100000 (new_ip_proxies :: nat ip_proxies)) = []"
    by (simp add: new_ip_proxies_def)
  ultimately show ?thesis unfolding pr_init_def demo_p0_def by (metis (no_types, lifting) empty_iff empty_set set_ConsD)
qed

lemma demo_p1_reach: "pr_reach 10 demo_p1"
  unfolding demo_p1_def
proof (rule pr_do_udp_reach)
  have "pr_few demo_p0" by code_simp
  then have "(pr_step 10)\<^sup>*\<^sup>* demo_p0 (pr_do_accept 7 0 demo_p0)"
    by (intro pr_do_accept_steps pr_few_room) (simp_all add: demo_p0_def proc_of_def)
  moreover have "pr_reach 10 demo_p0" using demo_p0_init by (rule reach_init)
  ultimately show "pr_reach 10 (pr_do_accept 7 0 demo_p0)" by (rule reachable_steps [rotated])
  show "pr_room (pr_do_accept 7 0 demo_p0)" by (rule pr_few_room) code_simp
  show "ut_own (pr_udp_view (pr_do_accept 7 0 demo_p0)) (ut_do_recv demo_dst demo_client [1, 2] (pr_udp_view (pr_do_accept 7 0 demo_p0)))"
    by (rule ut_do_recv_own) (code_simp, simp add: UDP_BUFFER_SIZE_def, code_simp)
qed

lemma demo_p1_room: "pr_room demo_p1"
  by (rule pr_few_room) code_simp

lemma demo_p2_reach: "pr_reach 10 demo_p2"
  unfolding demo_p2_def by (intro pr_do_turn_reach demo_p1_reach) (code_simp, code_simp, code_simp)



lemma us_self_listed:
  assumes "us_self s"
  shows "list_ex (\<lambda>(k, e). k \<in> um_src ` set (ue_recv_queue e)) (us_endpoints s @ us_new s)"
proof -
  obtain k e where "smap_find (us_endpoints s) k = Some e \<or> smap_find (us_new s) k = Some e"
    and "k \<in> um_src ` set (ue_recv_queue e)" using assms unfolding us_self_def by blast
  then show ?thesis unfolding list_ex_iff by (auto dest: map_of_SomeD)
qed


text \<open>
  A UDP rule with source port 0 makes the process fail: its socket counts as that of a client
  but holds no address, since addresses are not limited yet while the file is read. The first
  datagram that arrives there is charged to a null pointer once they are.
\<close>

lemma udp_port_zero_fails:
  "\<exists>w :: nat udp_world. udp_reach w \<and> uw_log w = [(demo_dst, demo_client, [1])] \<and>
     us_tick demo_env 60000 20 (uw_last w) (uw_s w) = Inl Null_deref"
proof (intro exI conjI)
  let ?add = "udp_do_add (demo_udp_rule\<lparr>ur_src_port := 0\<rparr>) demo_u0"
  let ?lim = "?add\<lparr>uw_s := (uw_s ?add)\<lparr>us_x := ip_start 1000 1000 (us_x (uw_s ?add))\<rparr>\<rparr>"
  let ?w = "udp_do_recv demo_dst demo_client [1] ?lim"
  have "udp_reach ?add" by (intro udp_do_add_reach reach_init) (simp add: udp_init_world_def demo_u0_def)
  then have "udp_reach ?lim" using udp_step.others by (rule reach_step)
  then show "udp_reach ?w" by (rule udp_do_recv_reach)
  show "uw_log ?w = [(demo_dst, demo_client, [1])]" by code_simp
  show "us_tick demo_env 60000 20 (uw_last ?w) (uw_s ?w) = Inl Null_deref" by code_simp
qed

section \<open>A process from its file\<close>


end
