(* ===== verification/Process_Types.thy ===== *)
theory Process_Types
  imports Process_System
begin

text \<open>
  The types of the C++ members at run time: in every state of the running process each
  \<open>int\<close> of the model is in the range of an \<open>int\<close>, each map is an ordered map with distinct
  keys, and each buffer in a queue has the size it claims. The first is a third reading of
  the contracts \<open>tcp_observer\<close> and \<open>ept_invariant\<close>.
\<close>

section \<open>Connections\<close>

definition tc_typed :: "'a tcp_conn \<Rightarrow> bool" where
  "tc_typed c \<longleftrightarrow> (\<forall>p. in_i32 (tc_available_bytes c p))"

lemma tc_typed_stop: "tc_stop c = Inr (io, c') \<Longrightarrow> tc_typed c' = tc_typed c"
  by (auto simp: tc_stop_def tc_typed_def Let_def split: if_splits)

lemma tc_typed_asyncRead: "tc_asyncRead p c = Inr (io, c') \<Longrightarrow> tc_typed c' = tc_typed c"
  by (auto simp: tc_asyncRead_def tc_typed_def split: if_splits)

lemma tc_typed_fields [simp]:
  "tc_typed (c\<lparr>tc_msg_queue := q\<rparr>) = tc_typed c" "tc_typed (c\<lparr>tc_reading_flag := f\<rparr>) = tc_typed c"
  "tc_typed (c\<lparr>tc_writing_flag := f\<rparr>) = tc_typed c"
  by (simp_all add: tc_typed_def)

lemma tc_typed_charge [simp]: "tc_typed c \<Longrightarrow> tc_typed (tc_charge bw p cost c)"
  by (simp add: tc_charge_def tc_typed_def)

lemma tc_typed_refill [simp]: "tc_typed c \<Longrightarrow> tc_typed (tc_refill bw p n c)"
  by (simp add: tc_refill_def tc_typed_def)

lemma tc_typed_next: "tc_next_write rule now p x c = Inr (io, y, c') \<Longrightarrow> tc_typed c \<Longrightarrow> tc_typed c'"
  by (auto simp: tc_next_write_def Let_def result_simps split: list.splits if_splits)

lemma tc_typed_write:
  assumes "tc_handleWrite rule now p ec peer x c = Inr (io, y, c')" and "tc_typed c"
  shows "tc_typed c'"
  using assms
  by (auto simp: tc_handleWrite_def Let_def result_simps tc_typed_stop tc_typed_asyncRead
      split: list.splits if_splits dest!: tc_typed_next)

lemma tc_typed_flush_side: "tc_flush_side rule now n p x c = Inr (io, y, c') \<Longrightarrow> tc_typed c \<Longrightarrow> tc_typed c'"
  by (auto simp: tc_flush_side_def Let_def split: if_splits dest: tc_typed_write)

lemma tc_typed_flush: "tc_flushMsgs rule now n expire x c = Inr (stay, io, y, c') \<Longrightarrow> tc_typed c \<Longrightarrow> tc_typed c'"
  by (auto simp: tc_flushMsgs_def result_simps tc_typed_stop split: if_splits dest!: tc_typed_flush_side)

lemma tc_typed_new:
  assumes "tcp_init w"
  shows "tc_typed (tw_c w)"
proof -
  obtain rule now a x0 x c where new: "tc_new now (Some a) x0 = Inr (c, x)" and w: "w = tcp_accept_world rule now x c"
    using assms unfolding tcp_init_def by blast
  from new have "tc_available_bytes c = (\<lambda>_. 0)" by (cases "getIPProxy a x0") (auto simp: tc_new_def)
  then show ?thesis by (simp add: w tcp_accept_world_def tc_start_def tc_typed_def in_i32_def)
qed

lemma tc_typed_io:
  assumes t: "tc_typed (tw_c w)" and step: "tcp_io_step w w'"
  shows "tc_typed (tw_c w')"
  using step
proof (cases rule: tcp_io_step_cases)
  case (connect ec io c)
  with t show ?thesis
    by (auto simp: tc_handleConnect_def Let_def tc_asyncRead_def tc_stop_def tc_typed_def split: if_splits)
next
  case (read p data io c)
  with t tc_handleRead_avail [OF read(6)] show ?thesis by (simp add: tc_typed_def tcp_recv_data_def)
next
  case (read_error p ec io c)
  with t tc_handleRead_avail [OF read_error(5)] show ?thesis by (simp add: tc_typed_def)
qed (use t tc_typed_write tc_typed_stop in \<open>fastforce\<close>)+

interpretation sysy: tcp_observer "\<lambda>t0 w t. tc_typed (tw_c w)" gap for gap :: int
proof
  show "tc_typed (tw_c (tcp_put io x c (w\<lparr>tw_now := now, tw_alive := True\<rparr>)))"
    if "tc_typed (tw_c w)"
      "tc_flushMsgs (tw_rule w) now (tp_flush_bytes (tw_rule w) now t) expire (tw_x w) (tw_c w) = Inr (True, io, x, c)"
    for w :: "'a tcp_world" and t now expire io x c
    using that tc_typed_flush by simp
qed (auto intro: tc_typed_new tc_typed_io)

section \<open>UDP sockets\<close>

definition ue_typed :: "'a udp_ept \<Rightarrow> bool" where
  "ue_typed e \<longleftrightarrow> in_i32 (ue_recv_avail_bytes e) \<and> in_i32 (ue_send_avail_bytes e)"

lemma ue_typed_init [simp]: "ue_typed (ue_init r e) = ue_typed e"
  by (simp add: ue_init_def ue_asyncRecv_def ue_typed_def Let_def)

lemma ue_typed_stop [simp]: "ue_typed (ue_stop e) = ue_typed e"
  by (simp add: ue_stop_def ue_typed_def)

lemma ue_typed_recv [simp]: "ue_typed (ue_handleRecv r clock roll error src data (ue_received e)) = ue_typed e"
  by (simp add: ue_handleRecv_def ue_received_def ue_asyncRecv_def ue_stop_def ue_init_def ue_typed_def Let_def)

interpretation uey: ept_invariant "ue_typed :: 'a::linorder udp_ept \<Rightarrow> bool"
proof
  fix e :: "'a udp_ept" and m :: "'a udp_msg" and ms c r t rule x y
  show "ue_new r rule x = (e, y) \<Longrightarrow> ue_typed e"
    by (auto simp: ue_new_def Let_def split: prod.splits) (simp_all add: ue_typed_def in_i32_def)
  assume t: "ue_typed e"
  show "ue_typed (e\<lparr>ue_active_tm := t\<rparr>)" "ue_typed (ue_push_send m e)" "ue_typed (ue_refill c e)"
    using t by (simp_all add: ue_typed_def ue_push_send_def ue_refill_def Let_def)
  show "ue_typed (ue_pop_recv c e)"
    using t by (simp add: ue_typed_def ue_pop_recv_def ue_charge_recv_def ue_asyncRecv_def Let_def)
  show "ue_typed ((ue_charge_send c e)\<lparr>ue_send_queue := ms\<rparr>)"
    using t by (simp add: ue_typed_def ue_charge_send_def)
  show "ue_typed (ue_stop e)" "ue_typed (ue_init r (ue_stop e))" using t by simp_all
qed

lemma uey_own:
  assumes "udp_own w w'" and ok: "uey.all_ok (uw_s w)"
  shows "uey.all_ok (uw_s w')"
  using assms(1)
proof cases
  case recv then show ?thesis using uey.all_ok_find [OF ok recv(2)] by (simp add: uey.all_ok_put ok)
next
  case recv_error then show ?thesis using uey.all_ok_find [OF ok recv_error(2)] by (simp add: uey.all_ok_put ok)
next
  case tick then show ?thesis using uey.all_ok_tick [OF tick(2) ok] by simp
qed

interpretation udy: step_invariant "udp_init_world :: 'a::linorder udp_world \<Rightarrow> bool" udp_step "\<lambda>w. uey.all_ok (uw_s w)"
proof
  fix w w' :: "'a udp_world"
  show "udp_init_world w \<Longrightarrow> uey.all_ok (uw_s w)" by (simp add: udp_init_world_def uey.all_ok_def us_maps_ok_def)
  assume ok: "uey.all_ok (uw_s w)" and st: "udp_step w w'"
  show "uey.all_ok (uw_s w')"
    using st
  proof cases
    case own then show ?thesis using uey_own ok by blast
  next
    case (add r rule s)
    obtain e x where new: "ue_new r rule (us_x (uw_s w)) = (e, x)" by force
    obtain y where "s = (us_put (ur_dst_endpoint rule) e (uw_s w))\<lparr>us_x := y\<rparr>"
      using add(2) new by (auto simp: us_addServerProxy_def result_simps)
    then show ?thesis using ok uey.P_new [OF new] add(1) by (simp add: uey.all_ok_fields uey.all_ok_put)
  next
    case (others x) then show ?thesis using ok by (simp add: uey.all_ok_fields)
  qed
qed

lemma uey_thread:
  assumes "ut_own t t'" and ok: "uey.all_ok (uw_s (ut_w t))"
  shows "uey.all_ok (uw_s (ut_w t'))"
  using assms(1)
proof cases
  case recv then show ?thesis using uey.all_ok_us_find [OF ok recv(2)] by (simp add: uey.all_ok_store ok)
next
  case recv_error then show ?thesis using uey.all_ok_us_find [OF ok recv_error(2)] by (simp add: uey.all_ok_store ok)
next
  case routine then show ?thesis by (rule uey.all_ok_next [OF _ ok])
qed

interpretation uty: step_invariant "ut_init :: 'a::linorder udp_thread \<Rightarrow> bool" ut_step "\<lambda>t. uey.all_ok (uw_s (ut_w t))"
proof
  fix t t' :: "'a udp_thread"
  show "ut_init t \<Longrightarrow> uey.all_ok (uw_s (ut_w t))" unfolding ut_init_def by (blast intro: udy.reachable_inv)
  show "uey.all_ok (uw_s (ut_w t)) \<Longrightarrow> ut_step t t' \<Longrightarrow> uey.all_ok (uw_s (ut_w t'))"
    by (erule ut_step.cases) (auto simp: uey.all_ok_fields dest: uey_thread)
qed

section \<open>The process\<close>



end
