(* ===== verification/Udp_Flow.thy ===== *)
theory Udp_Flow
  imports Udp_Props
begin

text \<open>
  What one datagram goes through in the UDP proxy: it is dropped or queued when it is
  received, moved to the socket of the other party by the receive pass and sent by the
  send pass; which sockets stay; the byte allowances of a client socket; and the inputs on
  which the code fails or loses datagrams.
\<close>

section \<open>Receiving\<close>

text \<open>
  Receiving a datagram (\<open>UdpEndpointProxy::handleRecv\<close>): with a fresh buffer and data
  that fit it, the datagram is dropped exactly when the random number is at most a positive
  drop probability; otherwise it joins the receive queue unaltered, with its source and due
  after the delay of the rule, and the next one is received into a fresh buffer; receiving
  goes on unless the queue now holds more than 50.
\<close>

lemma udp_receive:
  assumes "ue_recving_msg e = new_udp_msg_buffer" and "length data \<le> UDP_BUFFER_SIZE"
    and "e' = ue_handleRecv r clock roll Success src data e"
    and "dropped \<longleftrightarrow> 0 < ur_drop_prob (ue_rule e) \<and> roll \<le> ur_drop_prob (ue_rule e)"
  shows "ue_active_tm e' = clock \<and> ue_send_queue e' = ue_send_queue e \<and> ue_recving_msg e' = new_udp_msg_buffer \<and>
    map (\<lambda>m. (um_src m, um_time m, buffer_view (um_msg m))) (ue_recv_queue e') =
      map (\<lambda>m. (um_src m, um_time m, buffer_view (um_msg m))) (ue_recv_queue e) @
      (if dropped then [] else [(src, clock + ur_delay_ms (ue_rule e), data)]) \<and>
    ue_receives e' = ue_receives e + (if dropped \<or> length (ue_recv_queue e) < 50 then 1 else 0)"
  using assms(1,3,4) new_buffer_read [OF assms(2)]
  by (auto simp: ue_handleRecv_def ue_asyncRecv_def Let_def MAX_UDP_MSG_QUEUE_SIZE_def)

definition demo_ept :: "nat udp_ept" where
  "demo_ept = fst (ue_new demo_ui (demo_udp_rule\<lparr>ur_drop_prob := 100\<rparr>) new_ip_proxies)"

theorem udp_receive_witness:
  "ue_recv_queue (ue_handleRecv demo_ui 10 100 Success demo_client [1, 2] demo_ept) = [] \<and>
   map um_time (ue_recv_queue (ue_handleRecv demo_ui 10 101 Success demo_client [1, 2] demo_ept)) = [15]"
proof -
  have e: "ue_recving_msg demo_ept = new_udp_msg_buffer" "ue_recv_queue demo_ept = []"
    "ue_rule demo_ept = demo_udp_rule\<lparr>ur_drop_prob := 100\<rparr>"
    by (simp_all add: demo_ept_def ue_new_def demo_udp_rule_def)
  have l: "length [1, 2 :: byte] \<le> UDP_BUFFER_SIZE" by (simp add: UDP_BUFFER_SIZE_def)
  have m: "map um_time ms = map (fst \<circ> snd) (map (\<lambda>m. (um_src m, um_time m, buffer_view (um_msg m))) ms)"
    for ms :: "nat udp_msg list" by simp
  from udp_receive [OF e(1) l refl refl, of demo_ui 10 100 demo_client]
    udp_receive [OF e(1) l refl refl, of demo_ui 10 101 demo_client]
  show ?thesis unfolding m by (simp add: e) (simp add: demo_udp_rule_def)
qed

section \<open>Forwarding\<close>


definition demo_msg_in :: "nat udp_msg" where
  "demo_msg_in = \<lparr>um_msg = buffer_share [1, 2] 2, um_time = 15, um_src = demo_client\<rparr>"

definition demo_other :: "nat udp_ept" where
  "demo_other = fst (ue_new demo_ui (demo_udp_rule\<lparr>ur_src_port := 0, ur_dst_endpoint := demo_client\<rparr>) new_ip_proxies)"

definition demo_fwd :: "nat udp_server" where
  "demo_fwd = \<lparr>us_endpoints = [(demo_client, demo_other),
      (demo_dst, demo_ept\<lparr>ue_recv_queue := [demo_msg_in]\<rparr>)],
     us_new = [], us_x = new_ip_proxies, us_inits = 0, us_sends = 0, us_sent = []\<rparr>"


text \<open>
  C26. A new client (\<open>routineThreadHandler\<close>, first pass): a due, admitted datagram from a source
  without a socket creates one when it can be opened and bound: it is keyed by that
  source, has the rule of the receiving socket with that source as destination and an
  ephemeral port, and holds exactly this datagram to send; any socket that the same pass had
  made for the source is replaced.
\<close>

theorem udp_new_client:
  assumes "smap_find (us_endpoints s) key = Some ept" and "ue_recv_queue ept = msg # ms"
    and "0 \<le> ue_recv_avail_bytes ept" and "um_src msg \<noteq> key" and "um_time msg \<le> now"
    and "ue_pay I1 ept msg (us_x s) = Inr (True, x)" and "smap_find (us_endpoints s) (um_src msg) = None"
    and "ue_new (uv_init env (us_inits s)) ((ue_rule ept)\<lparr>ur_dst_endpoint := um_src msg, ur_src_port := 0\<rparr>) x = (sender, y)"
    and "ue_active_tm sender \<noteq> 0"
    and "us_recv_one env now key s = Inr (go, s')"
  shows "go \<and> smap_find (us_new s') = (smap_find (us_new s))(um_src msg \<mapsto> sender\<lparr>ue_send_queue := [msg\<lparr>um_src := key\<rparr>]\<rparr>) \<and>
    \<not> ue_server_flag sender \<and> ue_rule sender = (ue_rule ept)\<lparr>ur_dst_endpoint := um_src msg, ur_src_port := 0\<rparr> \<and>
    (\<forall>k. k \<noteq> key \<longrightarrow> smap_find (us_endpoints s') k = smap_find (us_endpoints s) k)"
  using assms ue_new_queues [OF assms(8)]
  by (auto simp: us_recv_one_def us_route_def Let_def smap_find_put ue_push_send_def MAX_UDP_MSG_QUEUE_SIZE_def result_simps)

definition demo_first :: "nat udp_server" where
  "demo_first = demo_fwd\<lparr>us_endpoints := [(demo_dst, demo_ept\<lparr>ue_recv_queue := [demo_msg_in]\<rparr>)]\<rparr>"

theorem udp_new_client_witness:
  "\<exists>s' e. us_recv_one demo_env 20 demo_dst demo_first = Inr (True, s') \<and>
     smap_find (us_new s') demo_client = Some e \<and> ue_send_queue e = [demo_msg_in\<lparr>um_src := demo_dst\<rparr>]"
proof -
  let ?ept = "demo_ept\<lparr>ue_recv_queue := [demo_msg_in]\<rparr>"
  obtain sender y where new: "ue_new (uv_init demo_env (us_inits demo_first))
      ((ue_rule ?ept)\<lparr>ur_dst_endpoint := um_src demo_msg_in, ur_src_port := 0\<rparr>) new_ip_proxies = (sender, y)" by force
  then have a: "ue_active_tm sender \<noteq> 0"
    by (auto simp: ue_new_def ue_init_def demo_env_def demo_ui_def getIPProxy_def new_ip_proxies_def ue_asyncRecv_def)
  have ne: "demo_client \<noteq> demo_dst" by (simp add: demo_client_def demo_dst_def)
  have h: "smap_find (us_endpoints demo_first) demo_dst = Some ?ept" "ue_recv_queue ?ept = demo_msg_in # []"
    "0 \<le> ue_recv_avail_bytes ?ept" "um_src demo_msg_in \<noteq> demo_dst" "um_time demo_msg_in \<le> 20"
    "ue_pay I1 ?ept demo_msg_in (us_x demo_first) = Inr (True, new_ip_proxies)"
    "smap_find (us_endpoints demo_first) (um_src demo_msg_in) = None"
    using ne
    by (simp_all add: demo_first_def demo_fwd_def demo_msg_in_def demo_ept_def ue_new_def ue_init_def demo_ui_def
        demo_udp_rule_def ue_pay_def ue_asyncRecv_def)
  have new_none: "smap_find (us_new demo_first) k = None" for k by (simp add: demo_first_def demo_fwd_def)
  obtain go s' where r: "us_recv_one demo_env 20 demo_dst demo_first = Inr (go, s')"
    using h new a
    by (auto simp: us_recv_one_def us_route_def Let_def demo_first_def demo_fwd_def)
  from udp_new_client [OF h new a r] r show ?thesis by (auto simp: demo_msg_in_def)
qed

section \<open>Sending\<close>

definition us_sent_of :: "'a endpoint \<Rightarrow> 'a udp_msg list \<Rightarrow> ('a endpoint \<times> 'a endpoint \<times> byte list) list" where
  "us_sent_of key ms = map (\<lambda>m. (key, um_src m, buffer_view (um_msg m))) ms"

lemma us_send_loop_all:
  assumes "smap_find (us_endpoints s) key = Some e" and "\<not> ue_limited e"
    and "ue_server_flag e \<or> ipx_bandwidth (us_x s) I0 \<le> 0" and "0 \<le> ue_send_avail_bytes e"
    and "\<forall>m \<in> set (ue_send_queue e). buffer_ok (um_msg m)" and "\<forall>n. uv_send env n = Success"
    and "length (ue_send_queue e) < n"
  shows "\<exists>s'. us_send_loop n env key s = Inr s' \<and> us_sent s' = us_sent s @ us_sent_of key (ue_send_queue e) \<and>
    smap_find (us_endpoints s') = (smap_find (us_endpoints s))(key \<mapsto> e\<lparr>ue_send_queue := []\<rparr>) \<and>
    us_x s' = us_x s"
  using assms
proof (induction n arbitrary: s e)
  case (Suc n)
  show ?case
  proof (cases "ue_send_queue e")
    case Nil
    then have "e = e\<lparr>ue_send_queue := []\<rparr>" by simp
    with Suc.prems(1) Nil show ?thesis by (auto simp: us_send_one_def us_sent_of_def)
  next
    case (Cons m ms)
    define e1 where "e1 = e\<lparr>ue_send_queue := ms\<rparr>"
    define s1 where "s1 = us_put key e1 (s\<lparr>us_sends := Suc (us_sends s), us_sent := us_sent s @ [(key, um_src m, buffer_view (um_msg m))]\<rparr>)"
    have "us_send_one env key s = Inr (True, s1)"
      using Suc.prems(1-6) Cons
      by (auto simp: us_send_one_def ue_pay_def ip_pay_def Let_def buffer_read_ok ue_charge_send_def e1_def s1_def us_put_def)
    moreover have pre: "smap_find (us_endpoints s1) key = Some e1" "\<not> ue_limited e1"
      "ue_server_flag e1 \<or> ipx_bandwidth (us_x s1) I0 \<le> 0" "0 \<le> ue_send_avail_bytes e1"
      "\<forall>m \<in> set (ue_send_queue e1). buffer_ok (um_msg m)" "length (ue_send_queue e1) < n"
      using Suc.prems Cons by (simp_all add: s1_def e1_def smap_find_put ue_limited_def)
    from Suc.IH [OF pre(1-5) Suc.prems(6) pre(6)]
    obtain s' where "us_send_loop n env key s1 = Inr s'"
      "us_sent s' = us_sent s1 @ us_sent_of key (ue_send_queue e1)"
      "smap_find (us_endpoints s') = (smap_find (us_endpoints s1))(key \<mapsto> e1\<lparr>ue_send_queue := []\<rparr>)" "us_x s' = us_x s1"
      by (elim exE conjE) (rule that)
    ultimately show ?thesis
      using Cons by (auto simp: s1_def e1_def smap_find_put us_sent_of_def fun_eq_iff)
  qed
qed simp

text \<open>
  Sending (\<open>routineThreadHandler\<close>, second pass): at a socket without a bandwidth limit,
  while every \<open>send_to\<close> succeeds, the pass sends the whole send queue in order, each datagram
  unaltered to its target, leaves the queue empty and touches no other socket.
\<close>

lemma udp_send_all:
  assumes "smap_find (us_endpoints s) key = Some e" and "\<not> ue_limited e"
    and "ue_server_flag e \<or> ipx_bandwidth (us_x s) I0 \<le> 0" and "0 \<le> ue_send_avail_bytes e"
    and "\<forall>m \<in> set (ue_send_queue e). buffer_ok (um_msg m)" and "\<forall>n. uv_send env n = Success"
  shows "\<exists>s'. us_send_at env key s = Inr s' \<and> us_sent s' = us_sent s @ us_sent_of key (ue_send_queue e) \<and>
    smap_find (us_endpoints s') = (smap_find (us_endpoints s))(key \<mapsto> e\<lparr>ue_send_queue := []\<rparr>)"
proof -
  have "length (ue_send_queue e) < Suc (length (ue_send_queue e))" by simp
  from us_send_loop_all [OF assms this] assms(1) show ?thesis
    by (auto simp: us_send_at_def simp del: us_send_loop.simps)
qed

definition demo_out :: "nat udp_server" where
  "demo_out = demo_fwd\<lparr>us_endpoints := [(demo_dst, demo_ept\<lparr>ue_send_queue := [demo_msg_in, demo_msg_in]\<rparr>)]\<rparr>"

lemma udp_send_all_witness:
  "\<exists>s'. us_send_at demo_env demo_dst demo_out = Inr s' \<and>
     us_sent s' = [(demo_dst, demo_client, [1, 2]), (demo_dst, demo_client, [1, 2])]"
proof -
  let ?e = "demo_ept\<lparr>ue_send_queue := [demo_msg_in, demo_msg_in]\<rparr>"
  have b: "buffer_ok (um_msg demo_msg_in)" "buffer_view (um_msg demo_msg_in) = [1, 2]" "um_src demo_msg_in = demo_client"
    by (simp_all add: demo_msg_in_def buffer_share_def buffer_ok_def buffer_view_def buffer_read_def eval_nat_numeral)
  have e: "ue_server_flag ?e" "0 \<le> ue_send_avail_bytes ?e" "\<not> ue_limited ?e"
    by (simp_all add: demo_ept_def ue_new_def ue_init_def demo_ui_def demo_udp_rule_def ue_limited_def ue_asyncRecv_def)
  have h: "smap_find (us_endpoints demo_out) demo_dst = Some ?e" "ue_server_flag ?e \<or> ipx_bandwidth (us_x demo_out) I0 \<le> 0"
    "\<forall>m \<in> set (ue_send_queue ?e). buffer_ok (um_msg m)" "\<forall>n. uv_send demo_env n = Success" "us_sent demo_out = []"
    using b e by (simp_all add: demo_out_def demo_fwd_def demo_env_def)
  from udp_send_all [OF h(1) e(3) h(2) e(2) h(3,4)] show ?thesis by (auto simp: h(5) us_sent_of_def b)
qed

section \<open>Which sockets stay\<close>

definition us_serves :: "'a::linorder endpoint \<Rightarrow> 'a udp_server \<Rightarrow> bool" where
  "us_serves k s \<longleftrightarrow> us_maps_ok s \<and> (\<exists>e. smap_find (us_endpoints s) k = Some e \<and> ue_server_flag e \<and> ue_active_tm e \<noteq> 0)"

lemma us_serves_fields [simp]:
  "us_serves k (s\<lparr>us_x := x\<rparr>) = us_serves k s" "us_serves k (s\<lparr>us_inits := n\<rparr>) = us_serves k s"
  by (simp_all add: us_serves_def)

lemma us_serves_put:
  "us_serves k s \<Longrightarrow> (k = k' \<Longrightarrow> ue_server_flag e \<and> ue_active_tm e \<noteq> 0) \<Longrightarrow> us_serves k (us_put k' e s)"
  by (auto simp: us_serves_def smap_find_put)

lemma us_serves_route:
  assumes "us_route env now key ept msg s = Inr s'" and "us_serves k s" and "now \<noteq> 0"
  shows "us_serves k s'"
proof (cases "smap_find (us_endpoints s) (um_src msg)")
  case (Some other)
  define e where "e = (if ue_active_tm other \<noteq> 0 then other\<lparr>ue_active_tm := now\<rparr> else other)"
  have s': "s' = us_put (um_src msg) (ue_push_send (msg\<lparr>um_src := key\<rparr>) e) s"
    using assms(1) Some by (simp add: us_route_def Let_def e_def split: if_splits)
  show ?thesis unfolding s'
    by (rule us_serves_put [OF assms(2)])
       (use assms(2,3) Some in \<open>auto simp: ue_push_send_def e_def us_serves_def\<close>)
next
  case None
  have "smap_find (us_endpoints s') k = smap_find (us_endpoints s) k"
    using assms(1) None by (auto simp: us_route_def Let_def result_simps split: prod.splits if_splits)
  moreover have "us_maps_ok s'" using us_route_traffic [OF assms(1)] assms(2) by (simp add: us_serves_def)
  ultimately show ?thesis using assms(2) by (simp add: us_serves_def)
qed

lemma us_serves_recv_loop:
  "us_recv_loop n env now key s = Inr s' \<Longrightarrow> us_serves k s \<Longrightarrow> now \<noteq> 0 \<Longrightarrow> us_serves k s'"
proof (induction n arbitrary: s)
  case (Suc n)
  then obtain go s1 where one: "us_recv_one env now key s = Inr (go, s1)"
    and rest: "(if go then us_recv_loop n env now key s1 else Inr s1) = Inr s'"
    by (auto simp: result_simps)
  from one have "us_serves k s1"
  proof (cases rule: us_recv_one_cases)
    case (ended x)
    with Suc.prems(2) show ?thesis by simp
  next
    case (moved ept msg ms x s2)
    have "us_serves k s2" using us_serves_route [OF moved(8)] Suc.prems by simp
    then show ?thesis unfolding moved(9)
      using Suc.prems(2) moved(2)
      by (rule_tac us_serves_put) (auto simp: us_serves_def ue_pop_recv_def ue_charge_recv_def ue_asyncRecv_def Let_def)
  qed
  with rest Suc.IH [of s1] Suc.prems(3) show ?case by (cases go) auto
qed simp

lemma us_serves_recv_at:
  assumes "us_recv_at env now iv tmo key s = Inr s'" and "us_serves k s" and "now \<noteq> 0"
  shows "us_serves k s'"
proof -
  obtain e where e: "smap_find (us_endpoints s) key = Some e"
    using assms(1) by (auto simp: us_recv_at_def split: option.splits)
  show ?thesis
  proof (cases "ue_active_tm e = 0 \<or> (ue_active_tm e < tmo \<and> \<not> ue_server_flag e)")
    case True
    then obtain x where s': "s' = s\<lparr>us_endpoints := smap_erase key (us_endpoints s), us_x := x\<rparr>"
      using assms(1) e by (auto simp: us_recv_at_def result_simps split: if_splits)
    have "k \<noteq> key" using assms(2) True e by (auto simp: us_serves_def)
    with assms(2) show ?thesis by (simp add: s' us_serves_def us_maps_ok_def sm.ok_erase sm.find_erase)
  next
    case False
    have "us_recv_loop (Suc (length (ue_recv_queue e))) env now key
        (us_put key (ue_refill (i32 (iv * ur_max_bandwidth (ue_rule e) sdiv 1000)) e) s) = Inr s'"
      using assms(1) e False by (simp add: us_recv_at_def Let_def del: us_recv_loop.simps)
    then show ?thesis
      by (rule us_serves_recv_loop [OF _ us_serves_put [OF assms(2)] assms(3)])
         (use assms(2) e in \<open>auto simp: us_serves_def ue_refill_def Let_def\<close>)
  qed
qed

lemma us_present_send_loop:
  "us_send_loop n env key s = Inr s' \<Longrightarrow> smap_find (us_endpoints s) k \<noteq> None \<Longrightarrow> smap_find (us_endpoints s') k \<noteq> None"
proof (induction n arbitrary: s)
  case (Suc n)
  then obtain go s1 where one: "us_send_one env key s = Inr (go, s1)"
    and rest: "(if go then us_send_loop n env key s1 else Inr s1) = Inr s'"
    by (auto simp: result_simps)
  from one have "smap_find (us_endpoints s1) k \<noteq> None"
    by (cases rule: us_send_one_cases) (use Suc.prems(2) in \<open>auto simp: smap_find_put\<close>)
  with rest Suc.IH [of s1] show ?case by (cases go) auto
qed simp



section \<open>What goes wrong\<close>


text \<open>
  A burst of a new client loses datagrams (\<open>new_epts[msg.src] = sender\<close>): in a reachable
  state with two datagrams of a new client received before the tick, the tick forwards the
  second; the first is neither sent nor queued any more, although nothing failed.
\<close>

lemma udp_burst_loses:
  "\<exists>(w :: nat udp_world) t s. reachable udp_init_world udp_step w \<and>
     uw_log w = [(demo_dst, demo_client, [1]), (demo_dst, demo_client, [2])] \<and>
     us_tick demo_env 60000 20 (uw_last w) (uw_s w) = Inr (t, s) \<and> us_traffic s = {#(demo_dst, demo_client, [2])#}"
proof -
  let ?w = "udp_do_recv demo_dst demo_client [2] (udp_do_recv demo_dst demo_client [1] (udp_do_add demo_udp_rule demo_u0))"
  have "map_sum id (\<lambda>(t, s). us_traffic s) (us_tick demo_env 60000 20 (uw_last ?w) (uw_s ?w)) = Inr {#(demo_dst, demo_client, [2])#}"
    by code_simp
  then obtain t s where "us_tick demo_env 60000 20 (uw_last ?w) (uw_s ?w) = Inr (t, s)" "us_traffic s = {#(demo_dst, demo_client, [2])#}"
    by (cases "us_tick demo_env 60000 20 (uw_last ?w) (uw_s ?w)") auto
  moreover have "reachable udp_init_world udp_step ?w"
    by (intro udp_do_recv_reach udp_do_add_reach reach_init) (simp add: udp_init_world_def demo_u0_def)
  moreover have "uw_log ?w = [(demo_dst, demo_client, [1]), (demo_dst, demo_client, [2])]" by code_simp
  ultimately show ?thesis by blast
qed

text \<open>
  A rule's socket that has stopped receiving because its queue is full and is opened again
  after a failed \<open>send_to\<close> has two receives outstanding after the next datagram leaves the queue.
\<close>

lemma udp_double_receive:
  assumes "ue_server_flag e" and "\<not> ue_recving_flag e" and "ui_open r = Success"
    and "ui_set_option r = Success" and "ui_bind r = Success"
  shows "ue_receives (ue_pop_recv c (ue_init r (ue_stop e))) = 2"
  using assms by (simp add: ue_pop_recv_def ue_charge_recv_def ue_init_def ue_stop_def ue_asyncRecv_def Let_def)

section \<open>The allowances of a client socket\<close>

interpretation ucr: token_bucket "\<lambda>e :: 'a udp_ept. ue_recv_avail_bytes e" ue_refill
    "\<lambda>c e. if 0 \<le> ue_recv_avail_bytes e then Some (ue_charge_recv c e) else None"
    "\<lambda>e. ue_limited e \<and> in_i32 (ue_recv_avail_bytes e)" 2147483647 2147483647
  by unfold_locales
     (auto simp: ue_refill_def ue_charge_recv_def ue_limited_def bucket_refill_def bucket_pay_def in_i32_def i32_id Let_def
       split: if_splits)

interpretation ucs: token_bucket "\<lambda>e :: 'a udp_ept. ue_send_avail_bytes e" ue_refill
    "\<lambda>c e. if 0 \<le> ue_send_avail_bytes e then Some (ue_charge_send c e) else None"
    "\<lambda>e. ue_limited e \<and> in_i32 (ue_send_avail_bytes e)" 2147483647 2147483647
  by unfold_locales
     (auto simp: ue_refill_def ue_charge_send_def ue_limited_def bucket_refill_def bucket_pay_def in_i32_def i32_id Let_def
       split: if_splits)

text \<open>
  The ticks and datagrams of a client socket as its allowances see them: a tick adds, a
  datagram sent to the client and one received from it pay.
\<close>

datatype ue_event = Ue_tick int | Ue_send int | Ue_recv int

fun ue_run :: "ue_event list \<Rightarrow> 'a udp_ept \<Rightarrow> int \<times> int \<times> 'a udp_ept" where
  "ue_run [] e = (0, 0, e)"
| "ue_run (Ue_tick n # es) e = ue_run es (ue_refill n e)"
| "ue_run (Ue_send c # es) e =
     (if 0 \<le> ue_send_avail_bytes e
      then let (s, r, e') = ue_run es (ue_charge_send c e) in (c + s, r, e') else ue_run es e)"
| "ue_run (Ue_recv c # es) e =
     (if 0 \<le> ue_recv_avail_bytes e
      then let (s, r, e') = ue_run es (ue_charge_recv c e) in (s, c + r, e') else ue_run es e)"

fun ue_refills :: "ue_event list \<Rightarrow> int" where
  "ue_refills [] = 0"
| "ue_refills (Ue_tick n # es) = n + ue_refills es"
| "ue_refills (_ # es) = ue_refills es"

definition ue_event_ok :: "int \<Rightarrow> ue_event \<Rightarrow> bool" where
  "ue_event_ok M ev = (case ev of Ue_tick n \<Rightarrow> 0 \<le> n \<and> n \<le> 2147483647 | Ue_send c \<Rightarrow> 0 \<le> c \<and> c \<le> M | Ue_recv c \<Rightarrow> 0 \<le> c \<and> c \<le> M)"

definition ue_avail_ok :: "int \<Rightarrow> 'a udp_ept \<Rightarrow> bool" where
  "ue_avail_ok M e \<longleftrightarrow> ue_limited e \<and> - M \<le> ue_send_avail_bytes e \<and> - M \<le> ue_recv_avail_bytes e \<and>
     ue_send_avail_bytes e < 2147483648 \<and> ue_recv_avail_bytes e < 2147483648"

lemma ue_limited_charge [simp]:
  "ue_limited (ue_charge_send c e) = ue_limited e" "ue_limited (ue_charge_recv c e) = ue_limited e"
  "ue_limited (ue_refill c e) = ue_limited e"
  "ue_recv_avail_bytes (ue_charge_send c e) = ue_recv_avail_bytes e"
  "ue_send_avail_bytes (ue_charge_recv c e) = ue_send_avail_bytes e"
  by (simp_all add: ue_limited_def ue_charge_send_def ue_charge_recv_def ue_refill_def Let_def)

lemma ue_run_balance:
  assumes "ue_avail_ok M e" and "\<forall>ev \<in> set es. ue_event_ok M ev" and "0 \<le> M" and "M \<le> 2147483647"
  shows "(case ue_run es e of (s, r, e') \<Rightarrow> ue_avail_ok M e' \<and> s + ue_send_avail_bytes e' \<le> ue_send_avail_bytes e + ue_refills es \<and>
    r + ue_recv_avail_bytes e' \<le> ue_recv_avail_bytes e + ue_refills es)"
  using assms(1,2)
proof (induction es e rule: ue_run.induct)
  case (1 e)
  then show ?case by simp
next
  case (2 n es e)
  have n: "0 \<le> n" "n \<le> 2147483647" using 2(3) by (simp_all add: ue_event_ok_def)
  have ok: "ue_limited e" "in_i32 (ue_send_avail_bytes e)" "in_i32 (ue_recv_avail_bytes e)"
    using 2(2) assms(4) by (simp_all add: ue_avail_ok_def in_i32_def)
  have a: "ue_send_avail_bytes (ue_refill n e) = bucket_refill n (ue_send_avail_bytes e)"
    "ue_recv_avail_bytes (ue_refill n e) = bucket_refill n (ue_recv_avail_bytes e)"
    using ucs.refill_avail [of e n] ucr.refill_avail [of e n] ok n by simp_all
  have "ue_avail_ok M (ue_refill n e)"
    using 2(2) n by (auto simp: ue_avail_ok_def a bucket_refill_def)
  from 2(1) [OF this] 2(3) n show ?case
    by (auto simp: a bucket_refill_def split: prod.splits if_splits)
next
  case (3 c es e)
  show ?case
  proof (cases "0 \<le> ue_send_avail_bytes e")
    case True
    have c: "0 \<le> c" "c \<le> M" using 3(4) by (simp_all add: ue_event_ok_def)
    have "ue_limited e \<and> in_i32 (ue_send_avail_bytes e)" using 3(3) assms(4) by (simp add: ue_avail_ok_def in_i32_def)
    then have a: "ue_send_avail_bytes (ue_charge_send c e) = ue_send_avail_bytes e - c"
      using ucs.pay_avail [of e c] c True assms(4) by (simp add: bucket_pay_def)
    have "ue_avail_ok M (ue_charge_send c e)" using 3(3) c True by (simp add: ue_avail_ok_def a)
    from 3(1) [OF True this] 3(4) show ?thesis by (simp add: True a split: prod.splits)
  qed (use 3 in simp)
next
  case (4 c es e)
  show ?case
  proof (cases "0 \<le> ue_recv_avail_bytes e")
    case True
    have c: "0 \<le> c" "c \<le> M" using 4(4) by (simp_all add: ue_event_ok_def)
    have "ue_limited e \<and> in_i32 (ue_recv_avail_bytes e)" using 4(3) assms(4) by (simp add: ue_avail_ok_def in_i32_def)
    then have a: "ue_recv_avail_bytes (ue_charge_recv c e) = ue_recv_avail_bytes e - c"
      using ucr.pay_avail [of e c] c True assms(4) by (simp add: bucket_pay_def)
    have "ue_avail_ok M (ue_charge_recv c e)" using 4(3) c True by (simp add: ue_avail_ok_def a)
    from 4(1) [OF True this] 4(4) show ?thesis by (simp add: True a split: prod.splits)
  qed (use 4 in simp)
qed



end
