(* ===== verification/Lock_Order.thy ===== *)
theory Lock_Order
  imports Prelude
begin

text \<open>
  Threads that take mutexes in nested scopes. What a thread does is its list of takes and
  gives; a mutex is free, or held by one thread, which may take it again only when it is
  recursive. The locale \<open>lock_order\<close> is the discipline that rules deadlock out: levels
  go up along the mutexes a thread holds, and only a worker there is one of may hold
  several of one level.
\<close>

section \<open>Scopes\<close>

datatype 'm lock_act = Take 'm | Give 'm

text \<open>A \<open>scoped_lock\<close> around \<open>body\<close>.\<close>

definition scoped :: "'m \<Rightarrow> 'm lock_act list \<Rightarrow> 'm lock_act list" where
  "scoped m body = Take m # body @ [Give m]"

text \<open>The takes and gives of a thread that holds \<open>hs\<close> nest, and each take is one \<open>ok\<close> allows.\<close>

fun nested :: "('m list \<Rightarrow> 'm \<Rightarrow> bool) \<Rightarrow> 'm list \<Rightarrow> 'm lock_act list \<Rightarrow> bool" where
  "nested ok hs [] \<longleftrightarrow> hs = []"
| "nested ok hs (Take m # as) \<longleftrightarrow> ok hs m \<and> nested ok (m # hs) as"
| "nested ok [] (Give m # as) \<longleftrightarrow> False"
| "nested ok (h # hs) (Give m # as) \<longleftrightarrow> h = m \<and> nested ok hs as"

text \<open>A block that can stand wherever a thread holds \<open>hs\<close>.\<close>

definition block :: "('m list \<Rightarrow> 'm \<Rightarrow> bool) \<Rightarrow> 'm list \<Rightarrow> 'm lock_act list \<Rightarrow> bool" where
  "block ok hs p \<longleftrightarrow> (\<forall>rest. nested ok hs rest \<longrightarrow> nested ok hs (p @ rest))"

named_theorems block_intros \<open>how blocks of takes and gives are built\<close>

lemma block_Nil [simp, block_intros]: "block ok hs []"
  by (simp add: block_def)

lemma block_append [block_intros]: "block ok hs p \<Longrightarrow> block ok hs q \<Longrightarrow> block ok hs (p @ q)"
  by (simp add: block_def)

lemma block_concat [block_intros]: "(\<And>p. p \<in> set ps \<Longrightarrow> block ok hs p) \<Longrightarrow> block ok hs (concat ps)"
  by (induction ps) (simp_all add: block_append)

lemma block_scoped [block_intros]: "ok hs m \<Longrightarrow> block ok (m # hs) body \<Longrightarrow> block ok hs (scoped m body)"
  by (simp add: block_def scoped_def)

lemma block_nested: "block ok [] p \<Longrightarrow> nested ok [] p"
  unfolding block_def by (metis append_Nil2 nested.simps(1))

section \<open>Threads\<close>

record ('w, 'm) lock_thread =
  lt_worker :: 'w
  lt_held :: "'m list"
  lt_acts :: "'m lock_act list"

text \<open>
  A step of a thread that is at work: it takes a mutex that no other holds, itself included
  unless the mutex is recursive, or gives one back.
\<close>

inductive lock_work :: "('m \<Rightarrow> bool) \<Rightarrow> ('w, 'm) lock_thread list \<Rightarrow> ('w, 'm) lock_thread list \<Rightarrow> bool"
  for recursive :: "'m \<Rightarrow> bool" where
  take: "i < length T \<Longrightarrow> lt_acts (T ! i) = Take m # as \<Longrightarrow>
     (\<And>j. j < length T \<Longrightarrow> m \<in> set (lt_held (T ! j)) \<Longrightarrow> j = i \<and> recursive m) \<Longrightarrow>
     lock_work recursive T (T[i := (T ! i)\<lparr>lt_held := m # lt_held (T ! i), lt_acts := as\<rparr>])"
| give: "i < length T \<Longrightarrow> lt_acts (T ! i) = Give m # as \<Longrightarrow>
     lock_work recursive T (T[i := (T ! i)\<lparr>lt_held := remove1 m (lt_held (T ! i)), lt_acts := as\<rparr>])"

text \<open>Any step: also a thread with nothing to do that begins on something its worker \<open>runs\<close>.\<close>

inductive lock_step :: "('m \<Rightarrow> bool) \<Rightarrow> ('w \<Rightarrow> 'm lock_act list \<Rightarrow> bool) \<Rightarrow>
    ('w, 'm) lock_thread list \<Rightarrow> ('w, 'm) lock_thread list \<Rightarrow> bool"
  for recursive :: "'m \<Rightarrow> bool" and runs :: "'w \<Rightarrow> 'm lock_act list \<Rightarrow> bool" where
  work: "lock_work recursive T T' \<Longrightarrow> lock_step recursive runs T T'"
| begins: "i < length T \<Longrightarrow> lt_acts (T ! i) = [] \<Longrightarrow> runs (lt_worker (T ! i)) p \<Longrightarrow>
     lock_step recursive runs T (T[i := (T ! i)\<lparr>lt_acts := p\<rparr>])"

definition lock_idle :: "('w, 'm) lock_thread list \<Rightarrow> bool" where
  "lock_idle T \<longleftrightarrow> (\<forall>t \<in> set T. lt_acts t = [] \<and> lt_held t = [])"

definition lock_single :: "('w \<Rightarrow> bool) \<Rightarrow> ('w, 'm) lock_thread list \<Rightarrow> bool" where
  "lock_single master T \<longleftrightarrow> (\<forall>i < length T. \<forall>j < length T.
     master (lt_worker (T ! i)) \<longrightarrow> master (lt_worker (T ! j)) \<longrightarrow> i = j)"

definition lock_init :: "('w \<Rightarrow> bool) \<Rightarrow> ('w, 'm) lock_thread list \<Rightarrow> bool" where
  "lock_init master T \<longleftrightarrow> lock_idle T \<and> lock_single master T"

definition lock_todo :: "('w, 'm) lock_thread list \<Rightarrow> nat" where
  "lock_todo T = sum_list (map (\<lambda>t. length (lt_acts t)) T)"

lemma lock_todo_update:
  assumes "i < length T" and "Suc (length (lt_acts t)) = length (lt_acts (T ! i))"
  shows "lock_todo T = Suc (lock_todo (T[i := t]))"
  using assms
proof (induction T arbitrary: i)
  case (Cons u T)
  then show ?case by (cases i) (auto simp: lock_todo_def)
qed simp

lemma lock_work_todo: "lock_work recursive T T' \<Longrightarrow> lock_todo T = Suc (lock_todo T')"
  by (induction rule: lock_work.induct) (simp_all add: lock_todo_update)

lemma lock_works_todo: "(lock_work recursive ^^ n) T T' \<Longrightarrow> lock_todo T = n + lock_todo T'"
  by (induction n arbitrary: T') (auto dest!: lock_work_todo)

section \<open>The discipline\<close>

locale lock_order =
  fixes recursive :: "'m \<Rightarrow> bool"
    and level :: "'m \<Rightarrow> nat"
    and ok :: "'w \<Rightarrow> 'm list \<Rightarrow> 'm \<Rightarrow> bool"
    and master :: "'w \<Rightarrow> bool"
    and runs :: "'w \<Rightarrow> 'm lock_act list \<Rightarrow> bool"
  assumes ok_level: "ok w hs m \<Longrightarrow> h \<in> set hs \<Longrightarrow>
      level h < level m \<or> h = m \<and> recursive m \<or> master w \<and> level h = level m \<and> h \<noteq> m"
    and runs_nested: "runs w p \<Longrightarrow> nested (ok w) [] p"
begin

definition inv :: "('w, 'm) lock_thread list \<Rightarrow> bool" where
  "inv T \<longleftrightarrow> (\<forall>i < length T. nested (ok (lt_worker (T ! i))) (lt_held (T ! i)) (lt_acts (T ! i))) \<and>
     (\<forall>i < length T. \<forall>j < length T. set (lt_held (T ! i)) \<inter> set (lt_held (T ! j)) \<noteq> {} \<longrightarrow> i = j) \<and>
     lock_single master T"

lemma inv_nested: "inv T \<Longrightarrow> i < length T \<Longrightarrow> nested (ok (lt_worker (T ! i))) (lt_held (T ! i)) (lt_acts (T ! i))"
  and inv_owner: "inv T \<Longrightarrow> i < length T \<Longrightarrow> j < length T \<Longrightarrow>
     m \<in> set (lt_held (T ! i)) \<Longrightarrow> m \<in> set (lt_held (T ! j)) \<Longrightarrow> i = j"
  and inv_single: "inv T \<Longrightarrow> i < length T \<Longrightarrow> j < length T \<Longrightarrow>
     master (lt_worker (T ! i)) \<Longrightarrow> master (lt_worker (T ! j)) \<Longrightarrow> i = j"
  by (auto simp: inv_def lock_single_def)

text \<open>What a change to one thread must keep.\<close>

lemma inv_update:
  assumes "inv T" and "i < length T" and "lt_worker t = lt_worker (T ! i)"
    and "nested (ok (lt_worker t)) (lt_held t) (lt_acts t)"
    and "\<And>j m. j < length T \<Longrightarrow> j \<noteq> i \<Longrightarrow> m \<in> set (lt_held t) \<Longrightarrow> m \<notin> set (lt_held (T ! j))"
  shows "inv (T[i := t])"
  using assms unfolding inv_def lock_single_def by (auto simp: nth_list_update)

lemma inv_work:
  assumes "lock_work recursive T T'" and inv: "inv T"
  shows "inv T'"
  using assms(1)
proof cases
  case (take i m as)
  have "nested (ok (lt_worker (T ! i))) (lt_held (T ! i)) (lt_acts (T ! i))" using inv take(2) by (rule inv_nested)
  then show ?thesis
    unfolding take(1) using inv take(2)
    by (rule_tac inv_update) (auto simp: take(3) dest: take(4) inv_owner [OF inv _ take(2)])
next
  case (give i m as)
  have n: "nested (ok (lt_worker (T ! i))) (lt_held (T ! i)) (lt_acts (T ! i))" using inv give(2) by (rule inv_nested)
  then obtain hs where hs: "lt_held (T ! i) = m # hs" by (cases "lt_held (T ! i)") (auto simp: give(3))
  with n show ?thesis
    unfolding give(1) using inv give(2)
    by (rule_tac inv_update) (auto simp: give(3) dest: inv_owner [OF inv _ give(2)])
qed

sublocale step_invariant "lock_init master" "lock_step recursive runs" inv
proof
  show "lock_init master T \<Longrightarrow> inv T" for T :: "('w, 'm) lock_thread list"
    by (simp add: lock_init_def lock_idle_def inv_def)
  show "inv T \<Longrightarrow> lock_step recursive runs T T' \<Longrightarrow> inv T'" for T T' :: "('w, 'm) lock_thread list"
  proof (erule lock_step.cases)
    fix i U p assume "inv T" "T = U" "T' = U[i := (U ! i)\<lparr>lt_acts := p\<rparr>]" "i < length U" "lt_acts (U ! i) = []"
      and "runs (lt_worker (U ! i)) p"
    moreover from this have "lt_held (U ! i) = []" using inv_nested [of U i] by simp
    ultimately show "inv T'" by (auto intro!: inv_update runs_nested)
  qed (auto dest: inv_work)
qed

text \<open>
  A thread at work with a mutex of the highest level anyone holds goes on, or waits for the
  single worker that may take another of that level, which goes on.
\<close>

lemma top_goes:
  assumes inv: "inv T" and i: "i < length T" and h: "h \<in> set (lt_held (T ! i))"
    and top: "\<And>j m. j < length T \<Longrightarrow> m \<in> set (lt_held (T ! j)) \<Longrightarrow> level m \<le> level h"
    and alone: "\<And>j m. j < length T \<Longrightarrow> master (lt_worker (T ! i)) \<Longrightarrow> j \<noteq> i \<Longrightarrow>
      m \<in> set (lt_held (T ! j)) \<Longrightarrow> level m < level h"
  shows "\<exists>T'. lock_work recursive T T'"
proof -
  note n = inv_nested [OF inv i]
  from h n obtain a as where as: "lt_acts (T ! i) = a # as" by (cases "lt_acts (T ! i)") auto
  show ?thesis
  proof (cases a)
    case (Give m)
    then show ?thesis using lock_work.give [OF i] as by blast
  next
    case (Take m)
    then have ok: "ok (lt_worker (T ! i)) (lt_held (T ! i)) m" using n as by simp
    have "j = i \<and> recursive m" if j: "j < length T" and m: "m \<in> set (lt_held (T ! j))" for j
    proof -
      have "j = i" using ok_level [OF ok h] top [OF j m] alone [OF j _ _ m] inv_owner [OF inv i j _ m] h by force
      moreover have "recursive m" using ok_level [OF ok] m calculation by blast
      ultimately show ?thesis by blast
    qed
    then show ?thesis using lock_work.take [OF i] as Take by blast
  qed
qed

theorem progress:
  assumes inv: "inv T" and busy: "\<not> lock_idle T"
  shows "\<exists>T'. lock_work recursive T T'"
proof -
  let ?held = "\<Union>t \<in> set T. set (lt_held t)"
  show ?thesis
  proof (cases "?held = {}")
    case True
    then have free: "lt_held (T ! j) = []" if "j < length T" for j using that nth_mem by fastforce
    obtain i where i: "i < length T" "lt_acts (T ! i) \<noteq> []"
      using busy free by (auto simp: lock_idle_def in_set_conv_nth)
    obtain a as where as: "lt_acts (T ! i) = a # as" using i(2) by (cases "lt_acts (T ! i)") auto
    have "nested (ok (lt_worker (T ! i))) [] (a # as)" using inv_nested [OF inv i(1)] free [OF i(1)] as by simp
    then obtain m where "a = Take m" by (cases a) auto
    then show ?thesis using lock_work.take [OF i(1), of m as recursive] as free by fastforce
  next
    case False
    let ?L = "Max (level ` ?held)"
    have fin: "finite (level ` ?held)" by simp
    have top: "level m \<le> ?L" if "j < length T" "m \<in> set (lt_held (T ! j))" for j m
    proof -
      have "m \<in> ?held" using that nth_mem by blast
      then show ?thesis by (intro Max_ge [OF fin] imageI)
    qed
    have "?L \<in> level ` ?held" using False by (intro Max_in [OF fin]) blast
    then obtain t h where "t \<in> set T" "h \<in> set (lt_held t)" "level h = ?L" by force
    then obtain i where i: "i < length T" "h \<in> set (lt_held (T ! i))" "level h = ?L"
      by (metis in_set_conv_nth)
    show ?thesis
    proof (cases "master (lt_worker (T ! i)) \<and> (\<exists>j < length T. j \<noteq> i \<and> (\<exists>m \<in> set (lt_held (T ! j)). level m = ?L))")
      case True
      then obtain j m where j: "j < length T" "j \<noteq> i" "m \<in> set (lt_held (T ! j))" "level m = ?L"
        and "master (lt_worker (T ! i))" by blast
      then have "\<not> master (lt_worker (T ! j))" using inv_single [OF inv i(1) j(1)] by blast
      then show ?thesis using top_goes [OF inv j(1,3)] top j(4) by simp
    next
      case False
      then show ?thesis using top_goes [OF inv i(1,2)] top i(3) by (metis le_neq_implies_less)
    qed
  qed
qed

text \<open>However the scheduler picks, the work ends, and it is not stuck before.\<close>

theorem finish:
  assumes "reachable (lock_init master) (lock_step recursive runs) T" and "(lock_work recursive ^^ n) T T'"
  shows "n \<le> lock_todo T \<and> (lock_idle T' \<or> (\<exists>T''. lock_work recursive T' T''))"
proof
  show "n \<le> lock_todo T" using lock_works_todo [OF assms(2)] by simp
  have "(lock_step recursive runs)\<^sup>*\<^sup>* T T'"
    using relpowp_imp_rtranclp [OF assms(2)] by (rule mono_rtranclp [rule_format, rotated]) (rule lock_step.work)
  then have "inv T'" using reachable_inv [OF assms(1)] by (rule steps_inv)
  then show "lock_idle T' \<or> (\<exists>T''. lock_work recursive T' T'')" using progress by blast
qed

end

section \<open>Runs to evaluate\<close>

text \<open>Whether thread \<open>i\<close> can go on, and its next step.\<close>

definition lock_can :: "('m \<Rightarrow> bool) \<Rightarrow> nat \<Rightarrow> ('w, 'm) lock_thread list \<Rightarrow> bool" where
  "lock_can recursive i T \<longleftrightarrow> i < length T \<and>
     (case lt_acts (T ! i) of
        [] \<Rightarrow> False
      | Give m # as \<Rightarrow> True
      | Take m # as \<Rightarrow> list_all (\<lambda>j. m \<in> set (lt_held (T ! j)) \<longrightarrow> j = i \<and> recursive m) [0..<length T])"

definition lock_do :: "nat \<Rightarrow> ('w, 'm) lock_thread list \<Rightarrow> ('w, 'm) lock_thread list" where
  "lock_do i T =
     (case lt_acts (T ! i) of
        [] \<Rightarrow> T
      | Give m # as \<Rightarrow> T[i := (T ! i)\<lparr>lt_held := remove1 m (lt_held (T ! i)), lt_acts := as\<rparr>]
      | Take m # as \<Rightarrow> T[i := (T ! i)\<lparr>lt_held := m # lt_held (T ! i), lt_acts := as\<rparr>])"

lemma lock_do_work: "lock_can recursive i T \<Longrightarrow> lock_work recursive T (lock_do i T)"
proof -
  assume can: "lock_can recursive i T"
  then have i: "i < length T" by (simp add: lock_can_def)
  obtain a as where as: "lt_acts (T ! i) = a # as" using can by (cases "lt_acts (T ! i)") (auto simp: lock_can_def)
  show "lock_work recursive T (lock_do i T)"
  proof (cases a)
    case (Take m)
    then have "lock_work recursive T (T[i := (T ! i)\<lparr>lt_held := m # lt_held (T ! i), lt_acts := as\<rparr>])"
      using i as can by (intro lock_work.take) (auto simp: lock_can_def list_all_iff)
    then show ?thesis using as Take by (simp add: lock_do_def)
  next
    case (Give m)
    with lock_work.give [OF i] as show ?thesis by (simp add: lock_do_def)
  qed
qed

lemma lock_work_can: "lock_work recursive T T' \<Longrightarrow> \<exists>i < length T. lock_can recursive i T"
proof (erule lock_work.cases)
  fix i U m as assume "T = U" "i < length U" "lt_acts (U ! i) = Take m # as"
    and "\<And>j. j < length U \<Longrightarrow> m \<in> set (lt_held (U ! j)) \<Longrightarrow> j = i \<and> recursive m"
  then show ?thesis by (intro exI [of _ i]) (simp add: lock_can_def list_all_iff)
next
  fix i U m as assume "T = U" "i < length U" "lt_acts (U ! i) = Give m # as"
  then show ?thesis by (intro exI [of _ i]) (simp add: lock_can_def)
qed

end
