(* ===== verification/Watch.thy ===== *)
theory Watch
  imports Istream
begin

text \<open>
  \<open>watch.h\<close>, \<open>watch.cpp\<close>, \<open>trackerr.h\<close> and the POSIX part of \<open>trackerr.cpp\<close>: the log with
  its level filter, and the exception that carries where it was thrown and the call stack.
  The time, the file system, the path functions of Boost and what \<open>backtrace\<close>, \<open>dladdr\<close>
  and the demangler return are arguments.
\<close>

section \<open>Levels\<close>

definition LOG_EMERG :: int where "LOG_EMERG = 0"
definition LOG_ALERT :: int where "LOG_ALERT = 1"
definition LOG_CRIT :: int where "LOG_CRIT = 2"
definition LOG_ERR :: int where "LOG_ERR = 3"
definition LOG_WARNING :: int where "LOG_WARNING = 4"
definition LOG_NOTICE :: int where "LOG_NOTICE = 5"
definition LOG_INFO :: int where "LOG_INFO = 6"
definition LOG_DEBUG :: int where "LOG_DEBUG = 7"
definition LOG_BADVALUE :: int where "LOG_BADVALUE = - 1"

lemmas log_levels = LOG_EMERG_def LOG_ALERT_def LOG_CRIT_def LOG_ERR_def LOG_WARNING_def LOG_NOTICE_def
  LOG_INFO_def LOG_DEBUG_def LOG_BADVALUE_def

definition mapLogLevel :: "(string \<times> int) list" where
  "mapLogLevel =
     [(''EMG'', LOG_EMERG), (''ALT'', LOG_ALERT), (''CRT'', LOG_CRIT), (''ERR'', LOG_ERR), (''WRN'', LOG_WARNING),
      (''NTC'', LOG_NOTICE), (''INF'', LOG_INFO), (''DBG'', LOG_DEBUG)]"

definition LOGLEVEL_NAME :: "string list" where
  "LOGLEVEL_NAME = [''EMG'', ''ALT'', ''CRT'', ''ERR'', ''WRN'', ''NTC'', ''INF'', ''DBG'', ''BADVALUE'']"

definition dict_loglevelname :: "int \<Rightarrow> string" where
  "dict_loglevelname l = (if 0 \<le> l \<and> l \<le> 7 then LOGLEVEL_NAME ! nat l else LOGLEVEL_NAME ! 8)"

definition dict_loglevel :: "string \<Rightarrow> int" where
  "dict_loglevel name = (case map_of mapLogLevel name of Some l \<Rightarrow> l | None \<Rightarrow> LOG_BADVALUE)"

section \<open>The log\<close>

text \<open>\<open>wt_files\<close> lists the lines appended, with their file; \<open>wt_cerr\<close> those that went to \<open>cerr\<close>.\<close>

record watch =
  wt_logpath :: string
  wt_maxloglevel :: int
  wt_loglocation :: bool
  wt_files :: "(string \<times> string) list"
  wt_cerr :: "string list"

record watch_env =
  we_replace_all :: "string \<Rightarrow> string \<Rightarrow> string \<Rightarrow> string"   \<comment> \<open>text, from, to\<close>
  we_system_complete :: "string \<Rightarrow> string"
  we_writable :: "string \<Rightarrow> bool"
  we_time :: string

definition watch_start :: watch where
  "watch_start = \<lparr>wt_logpath = [], wt_maxloglevel = LOG_WARNING, wt_loglocation = False, wt_files = [], wt_cerr = []\<rparr>"

definition watch_reset :: "watch_env \<Rightarrow> string \<Rightarrow> int \<Rightarrow> bool \<Rightarrow> watch \<Rightarrow> watch" where
  "watch_reset env logpath maxloglevel loglocation w =
     w\<lparr>wt_logpath := we_system_complete env (we_replace_all env logpath [CHR 0x5C] ''/''),
       wt_maxloglevel := maxloglevel, wt_loglocation := loglocation\<rparr>"

definition reset_logpath :: "string \<Rightarrow> watch \<Rightarrow> watch" where
  "reset_logpath logpath w = w\<lparr>wt_logpath := logpath\<rparr>"

definition reset_maxloglevel :: "int \<Rightarrow> watch \<Rightarrow> watch" where
  "reset_maxloglevel maxloglevel w = w\<lparr>wt_maxloglevel := maxloglevel\<rparr>"

definition reset_loglocation :: "bool \<Rightarrow> watch \<Rightarrow> watch" where
  "reset_loglocation loglocation w = w\<lparr>wt_loglocation := loglocation\<rparr>"

definition get_logpath :: "watch \<Rightarrow> string" where
  "get_logpath w = wt_logpath w"

definition get_maxloglevel :: "watch \<Rightarrow> int" where
  "get_maxloglevel w = wt_maxloglevel w"

definition get_loglocation :: "watch \<Rightarrow> bool" where
  "get_loglocation w = wt_loglocation w"

definition fwriteln :: "watch_env \<Rightarrow> string \<Rightarrow> string \<Rightarrow> watch \<Rightarrow> watch" where
  "fwriteln env path message w =
     (if we_writable env path then w\<lparr>wt_files := wt_files w @ [(path, message)]\<rparr>
      else w\<lparr>wt_cerr := wt_cerr w @ [message]\<rparr>)"

text \<open>\<open>DEBUG_INFORMATION_ARGS\<close>: function, file and line.\<close>

type_synonym src_pos = "string \<times> string \<times> nat"

definition show_location :: "src_pos \<Rightarrow> string" where
  "show_location pos = (case pos of (fn, path, l) \<Rightarrow> fn @ ''@['' @ path @ '':'' @ dec l @ '']'')"

definition dolog :: "watch_env \<Rightarrow> int \<Rightarrow> src_pos \<Rightarrow> string \<Rightarrow> watch \<Rightarrow> watch" where
  "dolog env level pos message w =
     (if level \<le> wt_maxloglevel w then
        let msg = dict_loglevelname level @ '' ''; msg = msg @ we_time env @ '' ''; msg = msg @ message @ '' '';
            msg = (if wt_loglocation w then msg @ show_location pos else msg)
        in fwriteln env (wt_logpath w) msg w
      else w)"

text \<open>
  The overload for a level given by name logs the location of its own call, \<open>here\<close>, and not
  the one it is given.
\<close>

definition dolog_name :: "watch_env \<Rightarrow> src_pos \<Rightarrow> string \<Rightarrow> src_pos \<Rightarrow> string \<Rightarrow> watch \<Rightarrow> watch" where
  "dolog_name env here level_name pos message w =
     (let lv = dict_loglevel level_name in
      if lv \<noteq> LOG_BADVALUE then dolog env lv here message w else dolog env LOG_DEBUG here message w)"

text \<open>The macros \<open>LEmerg\<close> to \<open>LDebug\<close> and their \<open>Str\<close> forms test the level before the call.\<close>

definition LWatch :: "watch_env \<Rightarrow> int \<Rightarrow> src_pos \<Rightarrow> string \<Rightarrow> watch \<Rightarrow> watch" where
  "LWatch env level pos message w = (if level \<le> wt_maxloglevel w then dolog env level pos message w else w)"

text \<open>\<open>LBWatch_wrap_\<close> logs when a scope is entered and, with the time spent, when it is left.\<close>

record lb_watch =
  lb_level :: int
  lb_start :: msec
  lb_exit :: string
  lb_pos :: src_pos

definition lb_enter :: "watch_env \<Rightarrow> int \<Rightarrow> src_pos \<Rightarrow> string \<Rightarrow> string \<Rightarrow> msec \<Rightarrow> watch \<Rightarrow> lb_watch \<times> watch" where
  "lb_enter env level pos strEnter strExit clock w =
     (\<lparr>lb_level = level, lb_start = clock, lb_exit = strExit, lb_pos = pos\<rparr>, dolog env level pos strEnter w)"

definition lb_leave :: "watch_env \<Rightarrow> msec \<Rightarrow> lb_watch \<Rightarrow> watch \<Rightarrow> watch" where
  "lb_leave env clock b w =
     dolog env (lb_level b) (lb_pos b)
       (lb_exit b @ ''('' @ dec (unat (word_of_int (clock - lb_start b) :: 64 word)) @ ''ms)'') w"

section \<open>Exceptions and call stacks\<close>

record stack_entry =
  se_file :: string
  se_line :: nat
  se_function :: string

definition entry_to_string :: "stack_entry \<Rightarrow> string" where
  "entry_to_string e = se_file e @ '' ('' @ dec (se_line e) @ ''): '' @ se_function e"

definition stack_to_string :: "stack_entry list \<Rightarrow> string" where
  "stack_to_string stack = concat (map (\<lambda>e. entry_to_string e @ ''; '') stack)"

text \<open>
  What \<open>dladdr\<close> and \<open>__cxa_demangle\<close> say of one address: nothing, or a file name, a symbol
  name and a demangled name, each of which may be null.
\<close>

type_synonym frame = "(string option \<times> string option \<times> string option) option"

fun call_stack_loop :: "frame list \<Rightarrow> stack_entry list" where
  "call_stack_loop [] = []"
| "call_stack_loop (f # fs) =
     (case f of
        None \<Rightarrow> []
      | Some (fname, sname, demangled) \<Rightarrow>
          (case (fname, case demangled of Some d \<Rightarrow> Some d | None \<Rightarrow> sname) of
             (Some file, Some symname) \<Rightarrow>
               \<lparr>se_file = file, se_line = 0, se_function = symname\<rparr> # call_stack_loop fs
           | _ \<Rightarrow> []))"

definition call_stack :: "nat \<Rightarrow> frame list \<Rightarrow> stack_entry list" where
  "call_stack num_discard trace = call_stack_loop (drop (num_discard + 1) trace)"

record trackerr =
  te_pos :: src_pos
  te_msg :: string
  te_error_code :: int

definition trackerr_new :: "frame list \<Rightarrow> src_pos \<Rightarrow> string \<Rightarrow> int \<Rightarrow> trackerr" where
  "trackerr_new trace pos msg error_code =
     (case pos of (fn, path, l) \<Rightarrow>
       \<lparr>te_pos = pos,
        te_msg = fn @ '' '' @ path @ ''@['' @ dec l @ '']: '' @ msg @ ''; error_code='' @ dec_int error_code @
          ''; stacktrace: {'' @ stack_to_string (call_stack 0 trace) @ ''}'',
        te_error_code = error_code\<rparr>)"

definition trackerr_what :: "trackerr \<Rightarrow> string" where
  "trackerr_what e = te_msg e"

definition trackerr_get_error_code :: "trackerr \<Rightarrow> int" where
  "trackerr_get_error_code e = te_error_code e"

definition XASSERT :: "bool \<Rightarrow> string \<Rightarrow> frame list \<Rightarrow> src_pos \<Rightarrow> int \<Rightarrow> trackerr + unit" where
  "XASSERT cond txt trace pos errnum = (if \<not> cond then Inl (trackerr_new trace pos txt errnum) else Inr ())"

section \<open>Properties\<close>

lemma dict_loglevel_inverse:
  "- 1 \<le> level \<and> level \<le> 7 \<longleftrightarrow> dict_loglevel (dict_loglevelname level) = level"
proof (cases "0 \<le> level \<and> level \<le> 7")
  case True
  then consider "level = 0" | "level = 1" | "level = 2" | "level = 3" | "level = 4" | "level = 5" | "level = 6" | "level = 7"
    by linarith
  then show ?thesis
    by cases (simp_all add: dict_loglevel_def dict_loglevelname_def LOGLEVEL_NAME_def mapLogLevel_def log_levels)
next
  case False
  then have "dict_loglevelname level = ''BADVALUE''" by (auto simp: dict_loglevelname_def LOGLEVEL_NAME_def)
  then have "dict_loglevel (dict_loglevelname level) = - 1"
    by (simp add: dict_loglevel_def mapLogLevel_def log_levels)
  then show ?thesis using False by auto
qed

text \<open>
  A message is logged exactly when its level is not above the limit, as one line that
  starts with the name of the level and holds the message, in the log file or on cerr; nothing
  else changes. Testing the level before the call, as the macros do, makes no difference. The
  eight level names and numbers (and the bad value) correspond one to one. A level given by
  name is logged with the location of the library's own call in place of the caller's.
\<close>

lemma watch_filters:
  "(if level \<le> wt_maxloglevel w then
      (\<exists>line. prefix (dict_loglevelname level) line \<and> sublist msg line \<and>
         dolog env level pos msg w =
         (if we_writable env (wt_logpath w) then w\<lparr>wt_files := wt_files w @ [(wt_logpath w, line)]\<rparr>
          else w\<lparr>wt_cerr := wt_cerr w @ [line]\<rparr>))
    else dolog env level pos msg w = w) \<and>
   LWatch env level pos msg w = dolog env level pos msg w \<and>
   (- 1 \<le> level \<and> level \<le> 7 \<longleftrightarrow> dict_loglevel (dict_loglevelname level) = level) \<and>
   dolog_name env here name pos msg w = dolog_name env here name pos' msg w"
proof -
  define line where "line = dict_loglevelname level @ '' '' @ we_time env @ '' '' @ msg @ '' '' @
    (if wt_loglocation w then show_location pos else [])"
  have "dolog env level pos msg w = (if level \<le> wt_maxloglevel w then fwriteln env (wt_logpath w) line w else w)"
    by (simp add: dolog_def line_def Let_def)
  moreover have "prefix (dict_loglevelname level) line" by (simp add: line_def)
  moreover have "sublist msg line"
  proof -
    have "sublist msg ((dict_loglevelname level @ '' '' @ we_time env @ '' '') @ msg @
        ('' '' @ (if wt_loglocation w then show_location pos else [])))"
      by (rule sublist_appendI)
    then show ?thesis by (simp add: line_def)
  qed
  ultimately show ?thesis
    using dict_loglevel_inverse [of level] by (auto simp: fwriteln_def LWatch_def dolog_name_def dolog_def)
qed

text \<open>
  The call stack of an exception is the resolved form of the longest run of frames, after
  the discarded ones and its own, that all have a file and a symbol; each entry shows the
  demangled symbol where there is one, and the message of the exception contains every entry.
\<close>

lemma call_stack_resolves:
  "\<exists>n. map (\<lambda>e. (se_file e, se_function e)) (call_stack num_discard trace) =
      map (\<lambda>f. case f of Some (Some file, s, d) \<Rightarrow> (file, case d of Some x \<Rightarrow> x | None \<Rightarrow> the s))
        (take n (drop (num_discard + 1) trace)) \<and>
    (\<forall>f \<in> set (take n (drop (num_discard + 1) trace)). \<exists>file s d. f = Some (Some file, s, d) \<and> (d \<noteq> None \<or> s \<noteq> None)) \<and>
    (n < length (drop (num_discard + 1) trace) \<longrightarrow>
      (\<nexists>file s d. drop (num_discard + 1) trace ! n = Some (Some file, s, d) \<and> (d \<noteq> None \<or> s \<noteq> None))) \<and>
    (\<forall>e \<in> set (call_stack 0 trace). sublist (entry_to_string e) (trackerr_what (trackerr_new trace pos msg code)))"
proof -
  have loop: "\<exists>n. map (\<lambda>e. (se_file e, se_function e)) (call_stack_loop fs) =
      map (\<lambda>f. case f of Some (Some file, s, d) \<Rightarrow> (file, case d of Some x \<Rightarrow> x | None \<Rightarrow> the s)) (take n fs) \<and>
    (\<forall>f \<in> set (take n fs). \<exists>file s d. f = Some (Some file, s, d) \<and> (d \<noteq> None \<or> s \<noteq> None)) \<and>
    (n < length fs \<longrightarrow> (\<nexists>file s d. fs ! n = Some (Some file, s, d) \<and> (d \<noteq> None \<or> s \<noteq> None)))" for fs
  proof (induction fs)
    case (Cons f fs)
    then obtain n where n: "map (\<lambda>e. (se_file e, se_function e)) (call_stack_loop fs) =
      map (\<lambda>f. case f of Some (Some file, s, d) \<Rightarrow> (file, case d of Some x \<Rightarrow> x | None \<Rightarrow> the s)) (take n fs)"
      "\<forall>f \<in> set (take n fs). \<exists>file s d. f = Some (Some file, s, d) \<and> (d \<noteq> None \<or> s \<noteq> None)"
      "n < length fs \<longrightarrow> (\<nexists>file s d. fs ! n = Some (Some file, s, d) \<and> (d \<noteq> None \<or> s \<noteq> None))"
      by blast
    show ?case
    proof (cases "\<exists>file s d. f = Some (Some file, s, d) \<and> (d \<noteq> None \<or> s \<noteq> None)")
      case True
      then show ?thesis using n by (intro exI [of _ "Suc n"]) (auto split: option.splits)
    next
      case False
      then have "call_stack_loop (f # fs) = []" by (auto split: option.splits)
      then show ?thesis using False by (intro exI [of _ 0]) auto
    qed
  qed simp
  have shown: "sublist (entry_to_string e) (stack_to_string es)" if e: "e \<in> set es" for e es
  proof -
    obtain xs ys where "es = xs @ e # ys" using split_list [OF e] by blast
    then have "stack_to_string es = stack_to_string xs @ entry_to_string e @ (''; '' @ stack_to_string ys)"
      by (simp add: stack_to_string_def)
    then show ?thesis by (metis sublist_appendI)
  qed
  have "sublist (stack_to_string (call_stack 0 trace)) (trackerr_what (trackerr_new trace pos msg code))"
  proof -
    obtain fn path l where pos: "pos = (fn, path, l)" by (cases pos)
    have "trackerr_what (trackerr_new trace pos msg code) =
      (fn @ '' '' @ path @ ''@['' @ dec l @ '']: '' @ msg @ ''; error_code='' @ dec_int code @ ''; stacktrace: {'') @
        stack_to_string (call_stack 0 trace) @ ''}''"
      by (simp add: trackerr_what_def trackerr_new_def pos)
    then show ?thesis by (metis sublist_appendI)
  qed
  then have "\<forall>e \<in> set (call_stack 0 trace). sublist (entry_to_string e) (trackerr_what (trackerr_new trace pos msg code))"
    using shown sublist_order.order_trans by blast
  then show ?thesis using loop [of "drop (num_discard + 1) trace"] unfolding call_stack_def by blast
qed

end
