(* ===== verification/Proxy_Locks.thy ===== *)
theory Proxy_Locks
  imports Lock_Order Udp_Props Tcp_Conn Watch
begin

text \<open>
  The mutexes of the proxies: which of them every function takes, in which order, in the state
  it is called in, and that the threads of the process never wait for each other for
  ever. There is one mutex per UDP socket (\<open>UdpEndpointProxy::mtx\<close>), one for the table of
  client addresses (\<open>IPProxies::mtx\<close>), one per entry of it (\<open>IPProxy::mtx\<close>) and that of the log
  (\<open>watch.cpp\<close>, which is recursive).
\<close>

section \<open>Mutexes and workers\<close>

datatype 'a proxy_mutex =
    Socket_mtx "'a endpoint"
  | Table_mtx
  | Client_mtx 'a
  | Log_mtx

text \<open>
  The threads: that of \<open>IPProxies\<close>, that of \<open>UdpProxyServer\<close>, and those that run the handlers of
  the services.
\<close>

datatype proxy_worker = Table_routine | Udp_routine | Io_service

type_synonym 'a proxy_acts = "'a proxy_mutex lock_act list"

section \<open>What each function takes\<close>

text \<open>\<open>dolog_\<close> takes the mutex of the log, and so does \<open>fwriteln\<close>, which it calls.\<close>

definition dolog_locks :: "int \<Rightarrow> watch \<Rightarrow> 'a proxy_acts" where
  "dolog_locks level w = (if level \<le> wt_maxloglevel w then scoped Log_mtx (scoped Log_mtx []) else [])"

definition getIPProxy_locks :: "'a ip_proxies \<Rightarrow> 'a proxy_acts" where
  "getIPProxy_locks x = (if ipx_bandwidth x I0 = 0 \<and> ipx_bandwidth x I1 = 0 then [] else scoped Table_mtx [])"

definition ip_release_locks :: "'a option \<Rightarrow> 'a proxy_acts" where
  "ip_release_locks client_ip = (case client_ip of None \<Rightarrow> [] | Some a \<Rightarrow> scoped (Client_mtx a) [])"

definition ip_pay_locks :: "idx2 \<Rightarrow> 'a option \<Rightarrow> 'a ip_proxies \<Rightarrow> 'a proxy_acts" where
  "ip_pay_locks i client_ip x =
     (if ipx_bandwidth x i \<le> 0 then []
      else case client_ip of None \<Rightarrow> [] | Some a \<Rightarrow> scoped (Client_mtx a) [])"

definition ip_tick_locks :: "msec \<Rightarrow> msec \<Rightarrow> 'a ip_proxies \<Rightarrow> 'a proxy_acts" where
  "ip_tick_locks now last_flush_tm x =
     (if i32 (now - last_flush_tm) \<le> 0 then []
      else scoped Table_mtx (concat (map (\<lambda>(a, p). scoped (Client_mtx a) []) (ipx_addrs x))))"

text \<open>A connection: its constructor, its destructor, and the start of its next write.\<close>

definition tc_new_locks :: "'a ip_proxies \<Rightarrow> 'a proxy_acts" where
  "tc_new_locks x = getIPProxy_locks x"

definition tc_delete_locks :: "'a tcp_conn \<Rightarrow> 'a proxy_acts" where
  "tc_delete_locks c = ip_release_locks (tc_client_ip c)"

definition tc_next_write_locks :: "msec \<Rightarrow> idx2 \<Rightarrow> 'a ip_proxies \<Rightarrow> 'a tcp_conn \<Rightarrow> 'a proxy_acts" where
  "tc_next_write_locks now p x c =
     (case tc_msg_queue c p of
        [] \<Rightarrow> []
      | (tm, buf) # ms \<Rightarrow>
          if 0 \<le> tc_available_bytes c p \<and> tm \<le> now then ip_pay_locks (flip p) (tc_client_ip c) x else [])"

text \<open>A UDP socket: \<open>init\<close> logs when a call fails, and the handler of a receive may call it.\<close>

definition ue_init_locks :: "watch \<Rightarrow> udp_init \<Rightarrow> 'a proxy_acts" where
  "ue_init_locks w r =
     (if ui_open r \<noteq> Success \<or> ui_set_option r \<noteq> Success \<or> ui_bind r \<noteq> Success then dolog_locks LOG_ERR w else [])"

definition ue_new_locks :: "watch \<Rightarrow> udp_init \<Rightarrow> 'a udp_rule \<Rightarrow> 'a ip_proxies \<Rightarrow> 'a proxy_acts" where
  "ue_new_locks w r rule x = (if ur_src_port rule \<noteq> 0 then [] else getIPProxy_locks x) @ ue_init_locks w r"

definition ue_delete_locks :: "'a udp_ept \<Rightarrow> 'a proxy_acts" where
  "ue_delete_locks e = ip_release_locks (ue_client_ip e)"

definition ue_handleRecv_locks :: "watch \<Rightarrow> udp_init \<Rightarrow> error_code \<Rightarrow> 'a endpoint \<Rightarrow> 'a udp_ept \<Rightarrow> 'a proxy_acts" where
  "ue_handleRecv_locks w r error key e =
     (if error \<noteq> Success then
        (if error = Connection_refused \<or> error = Connection_reset then []
         else if error \<noteq> Operation_aborted then
           scoped (Socket_mtx key) (dolog_locks LOG_ERR w @ (if ue_server_flag e then ue_init_locks w r else []))
         else [])
      else scoped (Socket_mtx key) [])"

text \<open>
  The routine thread of the UDP server, turn by turn as in \<open>us_recv_one\<close> and \<open>us_send_one\<close>. The
  mutex of the sender's socket is taken inside that of the socket the datagram came in on;
  a temporary or replaced socket is destroyed there too.
\<close>

definition us_route_locks :: "watch \<Rightarrow> udp_env \<Rightarrow> 'a::linorder udp_ept \<Rightarrow> 'a udp_msg \<Rightarrow> 'a udp_server \<Rightarrow> 'a proxy_acts" where
  "us_route_locks w env ept msg s =
     (case smap_find (us_endpoints s) (um_src msg) of
        None \<Rightarrow>
          let rule = (ue_rule ept)\<lparr>ur_dst_endpoint := um_src msg, ur_src_port := 0\<rparr>;
              (sender, x) = ue_new (uv_init env (us_inits s)) rule (us_x s)
          in ue_new_locks w (uv_init env (us_inits s)) rule (us_x s) @
             (if ue_active_tm sender \<noteq> 0
              then case smap_find (us_new s) (um_src msg) of None \<Rightarrow> [] | Some old \<Rightarrow> ue_delete_locks old
              else ue_delete_locks sender)
      | Some sender \<Rightarrow> scoped (Socket_mtx (um_src msg)) [])"

definition ue_pay_locks :: "idx2 \<Rightarrow> 'a udp_ept \<Rightarrow> 'a ip_proxies \<Rightarrow> 'a proxy_acts" where
  "ue_pay_locks i e x = (if ue_server_flag e then [] else ip_pay_locks i (ue_client_ip e) x)"

definition us_recv_one_locks :: "watch \<Rightarrow> udp_env \<Rightarrow> msec \<Rightarrow> 'a::linorder endpoint \<Rightarrow> 'a udp_server \<Rightarrow> 'a proxy_acts" where
  "us_recv_one_locks w env now key s =
     (case smap_find (us_endpoints s) key of
        None \<Rightarrow> []
      | Some ept \<Rightarrow>
          (case ue_recv_queue ept of
             [] \<Rightarrow> []
           | msg # _ \<Rightarrow>
               if ue_recv_avail_bytes ept < 0 then []
               else if um_src msg = key then []
               else if now < um_time msg then []
               else ue_pay_locks I1 ept (us_x s) @
                 (case ue_pay I1 ept msg (us_x s) of
                    Inl _ \<Rightarrow> []
                  | Inr (go, x) \<Rightarrow> if go then us_route_locks w env ept msg (s\<lparr>us_x := x\<rparr>) else [])))"

text \<open>
  The visit of a socket in the first pass. The socket is erased while its mutex is locked, but
  destroyed after that, since the thread has a pointer of its own. Otherwise \<open>turns\<close> are the
  states in which the turns of the loop start.
\<close>

definition us_recv_at_locks :: "watch \<Rightarrow> udp_env \<Rightarrow> msec \<Rightarrow> msec \<Rightarrow> 'a::linorder endpoint \<Rightarrow> 'a udp_server \<Rightarrow>
    'a udp_server list \<Rightarrow> 'a proxy_acts" where
  "us_recv_at_locks w env now active_timeout_tm key s turns =
     (case smap_find (us_endpoints s) key of
        None \<Rightarrow> []
      | Some ept \<Rightarrow>
          if ue_active_tm ept = 0 \<or> (ue_active_tm ept < active_timeout_tm \<and> \<not> ue_server_flag ept)
          then scoped (Socket_mtx key) [] @ ue_delete_locks ept
          else scoped (Socket_mtx key) (concat (map (us_recv_one_locks w env now key) turns)))"

definition us_send_one_locks :: "watch \<Rightarrow> udp_env \<Rightarrow> 'a::linorder endpoint \<Rightarrow> 'a udp_server \<Rightarrow> 'a proxy_acts" where
  "us_send_one_locks w env key s =
     (case smap_find (us_endpoints s) key of
        None \<Rightarrow> []
      | Some ept \<Rightarrow>
          (case ue_send_queue ept of
             [] \<Rightarrow> []
           | msg # rest \<Rightarrow>
               if ue_send_avail_bytes ept < 0 then []
               else ue_pay_locks I0 ept (us_x s) @
                 (case ue_pay I0 ept msg (us_x s) of
                    Inl _ \<Rightarrow> []
                  | Inr (go, x) \<Rightarrow>
                      if go \<and> uv_send env (us_sends s) \<noteq> Success
                      then dolog_locks LOG_ERR w @
                        (if ue_server_flag ept then ue_init_locks w (uv_init env (us_inits s)) else [])
                      else [])))"

definition us_send_at_locks :: "watch \<Rightarrow> udp_env \<Rightarrow> 'a::linorder endpoint \<Rightarrow> 'a udp_server list \<Rightarrow> 'a proxy_acts" where
  "us_send_at_locks w env key turns = scoped (Socket_mtx key) (concat (map (us_send_one_locks w env key) turns))"

definition us_stop_at_locks :: "'a endpoint \<Rightarrow> 'a proxy_acts" where
  "us_stop_at_locks key = scoped (Socket_mtx key) []"

section \<open>The threads of the process\<close>

text \<open>
  What each thread runs, in whatever states it does: a handler is a sequence of these, since the
  functions listed take their mutexes one after the other when none is held.
\<close>

inductive proxy_runs :: "proxy_worker \<Rightarrow> 'a::linorder proxy_acts \<Rightarrow> bool" where
  ip_tick: "proxy_runs Table_routine (ip_tick_locks now last_flush_tm x)"
| recv_at: "proxy_runs Udp_routine (us_recv_at_locks w env now active_timeout_tm key s turns)"
| send_at: "proxy_runs Udp_routine (us_send_at_locks w env key turns)"
| stop_at: "proxy_runs Udp_routine (us_stop_at_locks key)"
| handle_recv: "proxy_runs Io_service (ue_handleRecv_locks w r error key e)"
| tcp_new: "proxy_runs Io_service (tc_new_locks x)"
| tcp_delete: "proxy_runs Io_service (tc_delete_locks c)"
| tcp_next_write: "proxy_runs Io_service (tc_next_write_locks now p x c)"
| log: "proxy_runs Io_service (dolog_locks level w)"

section \<open>The order\<close>

fun mtx_level :: "'a proxy_mutex \<Rightarrow> nat" where
  "mtx_level (Socket_mtx k) = 0"
| "mtx_level Table_mtx = 1"
| "mtx_level (Client_mtx a) = 2"
| "mtx_level Log_mtx = 3"

definition mtx_recursive :: "'a proxy_mutex \<Rightarrow> bool" where
  "mtx_recursive m \<longleftrightarrow> m = Log_mtx"

definition mtx_ok :: "proxy_worker \<Rightarrow> 'a proxy_mutex list \<Rightarrow> 'a proxy_mutex \<Rightarrow> bool" where
  "mtx_ok w hs m \<longleftrightarrow> (\<forall>h \<in> set hs. mtx_level h < mtx_level m \<or> h = m \<and> mtx_recursive m \<or>
     w = Udp_routine \<and> mtx_level h = mtx_level m \<and> h \<noteq> m)"

text \<open>Blocks of the functions that may be called with the mutex of a socket held, or none.\<close>

definition sockets_only :: "'a proxy_mutex list \<Rightarrow> bool" where
  "sockets_only hs \<longleftrightarrow> (\<forall>h \<in> set hs. mtx_level h = 0)"

lemma sockets_only_simps [simp]: "sockets_only []" "sockets_only (Socket_mtx k # hs) \<longleftrightarrow> sockets_only hs"
  by (simp_all add: sockets_only_def)

lemma block_dolog [block_intros]: "sockets_only hs \<Longrightarrow> block (mtx_ok v) hs (dolog_locks l w)"
  unfolding dolog_locks_def sockets_only_def by (auto simp: mtx_ok_def mtx_recursive_def intro!: block_intros)

lemma block_getIPProxy [block_intros]: "sockets_only hs \<Longrightarrow> block (mtx_ok v) hs (getIPProxy_locks x)"
  unfolding getIPProxy_locks_def sockets_only_def by (auto simp: mtx_ok_def intro!: block_intros)

lemma block_release [block_intros]: "sockets_only hs \<Longrightarrow> block (mtx_ok v) hs (ip_release_locks c)"
  unfolding ip_release_locks_def sockets_only_def by (auto simp: mtx_ok_def intro!: block_intros split: option.splits)

lemma block_pay [block_intros]: "sockets_only hs \<Longrightarrow> block (mtx_ok v) hs (ip_pay_locks i c x)"
  unfolding ip_pay_locks_def sockets_only_def by (auto simp: mtx_ok_def intro!: block_intros split: option.splits)

lemma block_ue [block_intros]:
  assumes "sockets_only hs"
  shows "block (mtx_ok v) hs (ue_init_locks w r)" "block (mtx_ok v) hs (ue_new_locks w r rule x)"
    "block (mtx_ok v) hs (ue_delete_locks e)" "block (mtx_ok v) hs (ue_pay_locks i e x)"
  unfolding ue_init_locks_def ue_new_locks_def ue_delete_locks_def ue_pay_locks_def
  using assms by (auto intro!: block_intros)

lemma block_route: "um_src msg \<noteq> key \<Longrightarrow>
    block (mtx_ok Udp_routine) [Socket_mtx key] (us_route_locks w env ept msg s)"
  unfolding us_route_locks_def
  by (auto simp: Let_def mtx_ok_def intro!: block_intros split: option.splits prod.splits)

lemma block_recv_one: "block (mtx_ok Udp_routine) [Socket_mtx key] (us_recv_one_locks w env now key s)"
  unfolding us_recv_one_locks_def
  by (auto intro!: block_intros block_route split: option.splits list.splits sum.splits)

lemma block_send_one: "block (mtx_ok Udp_routine) [Socket_mtx key] (us_send_one_locks w env key s)"
  unfolding us_send_one_locks_def
  by (auto intro!: block_intros split: option.splits list.splits sum.splits)

lemma mtx_ok_Nil [simp]: "mtx_ok w [] m"
  by (simp add: mtx_ok_def)

lemma proxy_runs_block: "proxy_runs w p \<Longrightarrow> block (mtx_ok w) [] p"
proof (induction rule: proxy_runs.induct)
  case (ip_tick now last_flush_tm x)
  then show ?case unfolding ip_tick_locks_def by (auto simp: mtx_ok_def intro!: block_intros)
next
  case (recv_at w env now active_timeout_tm key s turns)
  then show ?case unfolding us_recv_at_locks_def
    by (auto intro!: block_intros block_recv_one split: option.splits)
next
  case (send_at w env key turns)
  then show ?case unfolding us_send_at_locks_def by (auto intro!: block_intros block_send_one)
next
  case (stop_at key)
  then show ?case unfolding us_stop_at_locks_def by (auto intro!: block_intros)
next
  case (handle_recv w r error key e)
  then show ?case unfolding ue_handleRecv_locks_def by (auto intro!: block_intros)
next
  case (tcp_next_write now p x c)
  then show ?case unfolding tc_next_write_locks_def by (auto intro!: block_intros split: list.splits)
qed (auto simp: tc_new_locks_def tc_delete_locks_def intro!: block_intros)

interpretation prl: lock_order mtx_recursive mtx_level mtx_ok "\<lambda>w. w = Udp_routine" proxy_runs
proof
  fix w p hs and h m :: "'a proxy_mutex"
  show "mtx_ok w hs m \<Longrightarrow> h \<in> set hs \<Longrightarrow> mtx_level h < mtx_level m \<or> h = m \<and> mtx_recursive m \<or>
      w = Udp_routine \<and> mtx_level h = mtx_level m \<and> h \<noteq> m"
    by (auto simp: mtx_ok_def)
  show "proxy_runs w p \<Longrightarrow> nested (mtx_ok w) [] p" for p :: "'b::linorder proxy_acts"
    by (intro block_nested proxy_runs_block)
qed

type_synonym 'a proxy_threads = "(proxy_worker, 'a proxy_mutex) lock_thread list"

abbreviation proxy_reach :: "'a::linorder proxy_threads \<Rightarrow> bool" where
  "proxy_reach \<equiv> reachable (lock_init (\<lambda>w. w = Udp_routine)) (lock_step mtx_recursive proxy_runs)"

text \<open>
  C9. No deadlock (\<open>udp_proxy.cpp\<close>, \<open>ip_proxy.cpp\<close>, \<open>tcp_proxy.cpp\<close>, \<open>watch.cpp\<close>): any number of
  threads run the handlers, the tick of the address table and, one of them, the routine of
  the UDP server, each in any order and in any state. However they are interleaved, what they
  have begun is finished: after at most as many steps as there are mutexes left to take and
  give every thread is idle and every mutex free, and before that some thread can go on.
\<close>

theorem proxy_locks_finish:
  assumes "proxy_reach T" and "(lock_work mtx_recursive ^^ n) T T'"
  shows "n \<le> lock_todo T \<and> (lock_idle T' \<or> (\<exists>T''. lock_work mtx_recursive T' T''))"
  using assms by (rule prl.finish)

section \<open>Three threads on one chain\<close>

text \<open>
  A client's first datagram waits at the socket of the rule and client addresses are limited. The
  routine thread of the UDP server holds that socket and waits for the table, the thread of the
  table holds it and waits for the entry of address 7, which a destructor holds.
\<close>

definition demo_lock_s :: "nat udp_server" where
  "demo_lock_s = (uw_s demo_u1)\<lparr>us_x := ip_start 1000 1000 (us_x (uw_s demo_u1))\<rparr>"

definition demo_lock_x :: "nat ip_proxies" where
  "demo_lock_x = snd (getIPProxy 7 (ip_start 1000 1000 new_ip_proxies))"

definition demo_threads :: "nat proxy_acts \<Rightarrow> nat proxy_acts \<Rightarrow> nat proxy_acts \<Rightarrow> nat proxy_threads" where
  "demo_threads p q r =
     [\<lparr>lt_worker = Udp_routine, lt_held = [], lt_acts = p\<rparr>,
      \<lparr>lt_worker = Table_routine, lt_held = [], lt_acts = q\<rparr>,
      \<lparr>lt_worker = Io_service, lt_held = [], lt_acts = r\<rparr>]"

definition demo_lock_T :: "nat proxy_threads" where
  "demo_lock_T = lock_do 2 (lock_do 1 (lock_do 0 (demo_threads
     (us_recv_at_locks watch_start demo_env 20 0 demo_dst demo_lock_s [demo_lock_s])
     (ip_tick_locks 20 10 demo_lock_x) (ip_release_locks (Some 7)))))"

lemma demo_threads_begin: "proxy_runs Udp_routine p \<Longrightarrow> proxy_runs Table_routine q \<Longrightarrow> proxy_runs Io_service r \<Longrightarrow>
    proxy_reach (demo_threads p q r)"
proof -
  assume runs: "proxy_runs Udp_routine p" "proxy_runs Table_routine q" "proxy_runs Io_service r"
  have "proxy_reach (demo_threads [] [] [])"
    by (rule reach_init) (simp add: lock_init_def lock_idle_def lock_single_def demo_threads_def less_Suc_eq)
  then have "proxy_reach (demo_threads p [] [])"
    using runs(1) lock_step.begins [of 0 "demo_threads [] [] []" proxy_runs p mtx_recursive]
    by (auto simp: demo_threads_def intro: reach_step)
  then have "proxy_reach (demo_threads p q [])"
    using runs(2) lock_step.begins [of 1 "demo_threads p [] []" proxy_runs q mtx_recursive]
    by (auto simp: demo_threads_def intro: reach_step)
  then show ?thesis
    using runs(3) lock_step.begins [of 2 "demo_threads p q []" proxy_runs r mtx_recursive]
    by (auto simp: demo_threads_def intro: reach_step)
qed

lemma lock_do_reach: "proxy_reach T \<Longrightarrow> lock_can mtx_recursive i T \<Longrightarrow> proxy_reach (lock_do i T)"
  by (erule reach_step) (rule lock_step.work [OF lock_do_work])

lemma demo_lock_acts:
  "us_recv_at_locks watch_start demo_env 20 0 demo_dst demo_lock_s [demo_lock_s] =
     [Take (Socket_mtx demo_dst), Take Table_mtx, Give Table_mtx, Give (Socket_mtx demo_dst)]"
  "ip_tick_locks 20 10 demo_lock_x = [Take Table_mtx, Take (Client_mtx 7), Give (Client_mtx 7), Give Table_mtx]"
  "ip_release_locks (Some (7 :: nat)) = [Take (Client_mtx 7), Give (Client_mtx 7)]"
  by code_simp+

lemma demo_lock_reach: "proxy_reach demo_lock_T"
proof -
  have "proxy_runs Io_service (ip_release_locks (Some (7 :: nat)))"
    using proxy_runs.tcp_delete [of "undefined\<lparr>tc_client_ip := Some (7 :: nat)\<rparr>"] by (simp add: tc_delete_locks_def)
  then have "proxy_reach (demo_threads
     (us_recv_at_locks watch_start demo_env 20 0 demo_dst demo_lock_s [demo_lock_s])
     (ip_tick_locks 20 10 demo_lock_x) (ip_release_locks (Some 7)))"
    by (intro demo_threads_begin proxy_runs.recv_at proxy_runs.ip_tick)
  then show ?thesis
    unfolding demo_lock_T_def demo_lock_acts
    by (intro lock_do_reach) (simp_all add: lock_can_def lock_do_def demo_threads_def less_Suc_eq nth_Cons' mtx_recursive_def)
qed

theorem proxy_locks_finish_witness:
  "\<not> lock_can mtx_recursive 0 demo_lock_T \<and> \<not> lock_can mtx_recursive 1 demo_lock_T \<and>
   lock_todo demo_lock_T = 7 \<and> (\<exists>T''. lock_work mtx_recursive demo_lock_T T'')"
proof (intro conjI)
  show "\<not> lock_can mtx_recursive 0 demo_lock_T" "\<not> lock_can mtx_recursive 1 demo_lock_T" "lock_todo demo_lock_T = 7"
    unfolding demo_lock_T_def demo_lock_acts
    by (simp_all add: lock_can_def lock_do_def lock_todo_def demo_threads_def)
  have "\<not> lock_idle demo_lock_T"
    unfolding demo_lock_T_def demo_lock_acts by (simp add: lock_idle_def lock_do_def demo_threads_def)
  then show "\<exists>T''. lock_work mtx_recursive demo_lock_T T''"
    using proxy_locks_finish [OF demo_lock_reach, of 0 demo_lock_T] by simp
qed

section \<open>What the discipline rests on\<close>

text \<open>
  Were a datagram routed from the socket its source stands for, the routine thread would take a
  mutex it holds and stop for ever: \<open>XASSERT(msg.src != it->first)\<close> keeps it from that, by
  ending the process. And two routine threads, each with a datagram for the other's socket,
  would wait for each other: \<open>UdpProxyServer::start\<close> makes one.
\<close>

lemma route_to_itself_stuck:
  assumes "smap_find (us_endpoints s) (um_src msg) \<noteq> None"
    and "lt_held t = [Socket_mtx (um_src msg)]" and "lt_acts t = us_route_locks w env ept msg s @ rest"
  shows "\<not> lock_work mtx_recursive [t] T'"
proof
  assume "lock_work mtx_recursive [t] T'"
  then obtain i where "i < length [t]" "lock_can mtx_recursive i [t]" using lock_work_can by blast
  then show False
    using assms by (auto simp: lock_can_def us_route_locks_def scoped_def mtx_recursive_def split: option.splits)
qed

lemma two_routines_stuck:
  assumes "k \<noteq> k'"
  shows "\<not> lock_work mtx_recursive
    [\<lparr>lt_worker = Udp_routine, lt_held = [Socket_mtx k], lt_acts = scoped (Socket_mtx k') [] @ p\<rparr>,
     \<lparr>lt_worker = Udp_routine, lt_held = [Socket_mtx k'], lt_acts = scoped (Socket_mtx k) [] @ q\<rparr>] T'"
  (is "\<not> lock_work _ ?T T'")
proof
  assume "lock_work mtx_recursive ?T T'"
  then obtain i where "i < length ?T" "lock_can mtx_recursive i ?T" using lock_work_can by blast
  then show False
    using assms by (auto simp: lock_can_def scoped_def less_Suc_eq split: if_splits)
qed

end
