(* ===== verification/Info.thy ===== *)
theory Info
  imports Tcp_Proxy Udp_Proxy Watch
begin

text \<open>
  What the program says of itself: \<open>getInfo\<close> of the proxies, \<open>Buffer::trace_str\<close>, the
  \<open>LErrEx\<close> family of \<open>watch.h\<close>, which log an exception that was caught, and the handlers of
  failed assertions in \<open>type.cpp\<close>. How Boost.Asio prints an endpoint is an argument.
\<close>

section \<open>Information on the proxies\<close>

definition crlf :: string where
  "crlf = [CHR 0x0D, CHR 0x0A]"

definition tp_getInfo :: "('a endpoint \<Rightarrow> string) \<Rightarrow> 'a tcp_proxy \<Rightarrow> string \<Rightarrow> string" where
  "tp_getInfo show t os =
     (let rule = tp_rule t;
          os = os @ ''local port: '' @ dec (unat (tr_src_port rule)) @ crlf;
          os = os @ ''dest endpoint: '' @ show (tr_dst_endpoint rule) @ crlf;
          os = os @ ''max bandwidth: '' @ dec_int (tr_max_bandwidth rule) @ crlf;
          os = os @ ''delay ms: '' @ dec_int (tr_delay_ms rule) @ crlf
      in os @ ''conn cnt: '' @ dec (length (tp_connections t)) @ crlf)"

definition us_getInfo :: "'a udp_server \<Rightarrow> string \<Rightarrow> string" where
  "us_getInfo s os = os @ ''udp endpoint cnt: '' @ dec (length (us_endpoints s)) @ crlf"

definition buffer_trace_str :: "buffer \<Rightarrow> string \<Rightarrow> string" where
  "buffer_trace_str b os = os @ ''buf_size='' @ dec_int (bf_size b)"

text \<open>What is printed can be read back: numerals and lines are not ambiguous.\<close>

lemma dec_inj [simp]: "dec m = dec n \<longleftrightarrow> m = n"
  by (metis digits_val_dec)

lemma dec_int_inj [simp]: "dec_int i = dec_int j \<longleftrightarrow> i = j"
proof
  have "\<not> is_digit (CHR ''-'')" by code_simp
  then have minus: "CHR ''-'' # s \<noteq> dec n" for s n by (metis dec_hd list.sel(1))
  assume "dec_int i = dec_int j"
  then show "i = j" by (auto simp: dec_int_def minus minus [symmetric] split: if_splits)
qed simp

definition no_cr :: "string \<Rightarrow> bool" where
  "no_cr s \<longleftrightarrow> CHR 0x0D \<notin> set s"

lemma no_cr_dec [simp]: "no_cr (dec n)"
  using dec_digits [of n] by (auto simp: no_cr_def is_digit_def)

lemma no_cr_dec_int [simp]: "no_cr (dec_int i)"
  using no_cr_dec by (auto simp: dec_int_def no_cr_def)

lemma no_cr_lines: "no_cr s \<Longrightarrow> no_cr s' \<Longrightarrow> s @ crlf @ r = s' @ crlf @ r' \<longleftrightarrow> s = s' \<and> r = r'"
proof (induction s arbitrary: s')
  case Nil
  then show ?case by (cases s') (auto simp: no_cr_def crlf_def)
next
  case (Cons c s)
  then show ?case by (cases s') (auto simp: no_cr_def crlf_def)
qed

lemma no_cr_line [simp]: "no_cr s \<Longrightarrow> no_cr s' \<Longrightarrow> s @ crlf = s' @ crlf \<longleftrightarrow> s = s'"
  by simp

text \<open>
  The information on a proxy says what its rule is and how many connections it has, provided
  Boost.Asio prints an endpoint on one line and different endpoints differently.
\<close>

lemma tp_getInfo_tells:
  assumes "\<And>e. no_cr (show e)" and "inj show"
  shows "tp_getInfo show t [] = tp_getInfo show t' [] \<longleftrightarrow>
     tp_rule t = tp_rule t' \<and> length (tp_connections t) = length (tp_connections t')"
proof -
  have "tr_src_port (tp_rule t) = tr_src_port (tp_rule t') \<longleftrightarrow> unat (tr_src_port (tp_rule t)) = unat (tr_src_port (tp_rule t'))"
    by (rule word_eq_iff_unsigned)
  moreover have "tr_dst_endpoint (tp_rule t) = tr_dst_endpoint (tp_rule t') \<longleftrightarrow>
      show (tr_dst_endpoint (tp_rule t)) = show (tr_dst_endpoint (tp_rule t'))"
    using assms(2) by (simp add: inj_eq)
  moreover have "tp_rule t = tp_rule t' \<longleftrightarrow> tr_src_port (tp_rule t) = tr_src_port (tp_rule t') \<and>
      tr_dst_endpoint (tp_rule t) = tr_dst_endpoint (tp_rule t') \<and>
      tr_max_bandwidth (tp_rule t) = tr_max_bandwidth (tp_rule t') \<and> tr_delay_ms (tp_rule t) = tr_delay_ms (tp_rule t')"
    by (cases "tp_rule t"; cases "tp_rule t'") simp
  ultimately show ?thesis
    using assms(1) by (auto simp: tp_getInfo_def Let_def no_cr_lines)
qed

lemma us_getInfo_tells: "us_getInfo s [] = us_getInfo s' [] \<longleftrightarrow> length (us_endpoints s) = length (us_endpoints s')"
  by (simp add: us_getInfo_def)

section \<open>Caught exceptions\<close>

text \<open>What \<open>catch(int)\<close>, \<open>catch(std::exception&)\<close> and \<open>catch(...)\<close> tell apart.\<close>

datatype caught = Caught_int int | Caught_std string | Caught_unknown

definition caught_message :: "caught \<Rightarrow> string" where
  "caught_message e =
     (case e of
        Caught_int ret \<Rightarrow> ''catch int exception : '' @ dec_int ret
      | Caught_std what \<Rightarrow> ''catch std::exception : '' @ what
      | Caught_unknown \<Rightarrow> ''catch an unknown exception'')"

definition LWatchEx :: "watch_env \<Rightarrow> int \<Rightarrow> src_pos \<Rightarrow> caught \<Rightarrow> watch \<Rightarrow> watch" where
  "LWatchEx env level pos e w = LWatch env level pos (caught_message e) w"

definition LErrEx :: "watch_env \<Rightarrow> src_pos \<Rightarrow> caught \<Rightarrow> watch \<Rightarrow> watch" where
  "LErrEx env = LWatchEx env LOG_ERR"

definition LWarningEx :: "watch_env \<Rightarrow> src_pos \<Rightarrow> caught \<Rightarrow> watch \<Rightarrow> watch" where
  "LWarningEx env = LWatchEx env LOG_WARNING"

definition LNoticeEx :: "watch_env \<Rightarrow> src_pos \<Rightarrow> caught \<Rightarrow> watch \<Rightarrow> watch" where
  "LNoticeEx env = LWatchEx env LOG_NOTICE"

definition LInfoEx :: "watch_env \<Rightarrow> src_pos \<Rightarrow> caught \<Rightarrow> watch \<Rightarrow> watch" where
  "LInfoEx env = LWatchEx env LOG_INFO"

definition LDebugEx :: "watch_env \<Rightarrow> src_pos \<Rightarrow> caught \<Rightarrow> watch \<Rightarrow> watch" where
  "LDebugEx env = LWatchEx env LOG_DEBUG"

text \<open>At the level the program starts with, errors and warnings are logged and the rest is not.\<close>

lemma caught_at_start:
  "wt_maxloglevel w = wt_maxloglevel watch_start \<Longrightarrow>
     LNoticeEx env pos e w = w \<and> LInfoEx env pos e w = w \<and> LDebugEx env pos e w = w \<and>
     LErrEx env pos e w = dolog env LOG_ERR pos (caught_message e) w \<and>
     LWarningEx env pos e w = dolog env LOG_WARNING pos (caught_message e) w"
  by (simp add: LNoticeEx_def LInfoEx_def LDebugEx_def LErrEx_def LWarningEx_def LWatchEx_def LWatch_def
      watch_start_def log_levels)

section \<open>Failed assertions\<close>

text \<open>
  \<open>boost::assertion_failed\<close> and \<open>boost::assertion_failed_msg\<close> throw \<open>trackerr\<close> with their own
  names and \<open>here\<close>, their own place in \<open>type.cpp\<close>; of the assertion that failed nothing is said.
\<close>

definition assertion_failed :: "frame list \<Rightarrow> src_pos \<Rightarrow> string \<Rightarrow> src_pos \<Rightarrow> trackerr" where
  "assertion_failed trace here expr pos = trackerr_new trace here ''boost::assertion_failed'' 0"

definition assertion_failed_msg :: "frame list \<Rightarrow> src_pos \<Rightarrow> string \<Rightarrow> string \<Rightarrow> src_pos \<Rightarrow> trackerr" where
  "assertion_failed_msg trace here expr msg pos = trackerr_new trace here ''boost::assertion_failed_msg'' 0"

lemma assertion_failed_silent: "assertion_failed trace here expr pos = assertion_failed trace here expr' pos'"
  by (simp add: assertion_failed_def)

end
