(* ===== verification/Xtokens.thy ===== *)
theory Xtokens
  imports Prelude
begin

text \<open>
  \<open>xtokens.h\<close> and \<open>xpath.h\<close>: tokens, configuration strings of the form
  \<open>leader=token token ...\<close>, and path names. \<open>boost::tokenizer\<close> with a \<open>char_separator\<close> is
  an argument; \<open>tokenizer_law\<close> states what its documentation says of it.
\<close>

section \<open>The tokenizer\<close>

type_synonym tokenizer = "string \<Rightarrow> string \<Rightarrow> string list"
  \<comment> \<open>separator characters, text\<close>

fun split_by :: "(char \<Rightarrow> bool) \<Rightarrow> string \<Rightarrow> string list" where
  "split_by P [] = [[]]"
| "split_by P (c # cs) =
     (if P c then [] # split_by P cs
      else case split_by P cs of [] \<Rightarrow> [[c]] | l # ls \<Rightarrow> (c # l) # ls)"

text \<open>
  \<open>char_separator(dropped_delims)\<close>: delimiters are dropped and so are the empty tokens
  between them.
\<close>

definition tokenizer_law :: "tokenizer \<Rightarrow> bool" where
  "tokenizer_law tok \<longleftrightarrow> (\<forall>seps s. tok seps s = filter (\<lambda>t. t \<noteq> []) (split_by (\<lambda>c. c \<in> set seps) s))"

section \<open>xtokens.h\<close>

text \<open>\<open>c_str()\<close> ends the list of separators at a null character.\<close>

definition separate_tokens :: "tokenizer \<Rightarrow> string \<Rightarrow> string \<Rightarrow> string list" where
  "separate_tokens tok wholestr sepchars = tok (takeWhile (\<lambda>c. c \<noteq> CHR 0x00) sepchars) wholestr"

definition assemble_tokens :: "string list \<Rightarrow> string \<Rightarrow> string" where
  "assemble_tokens tokens sepchars =
     (if 0 < length tokens then foldl (\<lambda>str t. str @ sepchars @ t) (hd tokens) (tl tokens) else [])"

definition cut_comment :: "string list \<Rightarrow> string list" where
  "cut_comment tokens = takeWhile (\<lambda>t. \<not> (0 < length t \<and> hd t = CHR ''#'')) tokens"

text \<open>The result, the leader and the tokens.\<close>

definition parse_configstring :: "tokenizer \<Rightarrow> string \<Rightarrow> bool \<times> string \<times> string list" where
  "parse_configstring tok wholestr =
     (let tokens = separate_tokens tok wholestr [CHR '' '', CHR 0x09] in
      if 1 \<le> length tokens then
        let TK = separate_tokens tok (hd tokens) ''='' in
        if length TK = 2 then (True, TK ! 0, cut_comment (TK ! 1 # tl tokens))
        else (False, [], [])
      else (False, [], []))"

definition assemble_configstring :: "string \<Rightarrow> string list \<Rightarrow> string" where
  "assemble_configstring leader tokens = leader @ ''='' @ assemble_tokens tokens '' ''"

section \<open>xpath.h\<close>

definition PATH_SEPARATOR :: char where "PATH_SEPARATOR = CHR ''/''"

definition auto_standardize_dirname :: "string \<Rightarrow> string" where
  "auto_standardize_dirname dirname =
     (if length dirname = 0 then ''.'' @ [PATH_SEPARATOR]
      else if last dirname \<noteq> PATH_SEPARATOR then dirname @ [PATH_SEPARATOR] else dirname)"

definition auto_concate_pathname :: "string \<Rightarrow> string \<Rightarrow> string" where
  "auto_concate_pathname pathname workdir =
     (if length pathname = 0 then []
      else if hd pathname = PATH_SEPARATOR then pathname
      else auto_standardize_dirname workdir @ pathname)"

definition format_dirname :: "string \<Rightarrow> string \<Rightarrow> string" where
  "format_dirname dirname workdir = auto_standardize_dirname (auto_concate_pathname dirname workdir)"

definition format_filename :: "string \<Rightarrow> string \<Rightarrow> string" where
  "format_filename filename workdir = auto_concate_pathname filename workdir"

text \<open>\<open>strs[strs.size() - 1]\<close> is out of bounds when there is no token.\<close>

definition separate_filename :: "tokenizer \<Rightarrow> string \<Rightarrow> failure + string" where
  "separate_filename tok filename =
     (let strs = separate_tokens tok filename [PATH_SEPARATOR] in
      if strs = [] then Inl Out_of_bounds else Inr (strs ! (length strs - 1)))"

section \<open>Tokens of assembled text\<close>

lemma split_by_word: "\<forall>c \<in> set w. \<not> P c \<Longrightarrow> split_by P w = [w]"
  by (induction w) simp_all

lemma split_by_sep: "\<forall>c \<in> set w. \<not> P c \<Longrightarrow> P s \<Longrightarrow> split_by P (w @ s # r) = w # split_by P r"
  by (induction w) simp_all

lemma split_by_append: "P s \<Longrightarrow> split_by P (a @ s # b) = split_by P a @ split_by P b"
proof (induction a)
  case (Cons c a)
  have "split_by P a \<noteq> []" by (cases a) (simp_all split: list.splits)
  then show ?case using Cons by (auto split: list.splits)
qed simp

lemma assemble_simps:
  "assemble_tokens [] s = []" "assemble_tokens [t] s = t"
  "assemble_tokens (t # u # ts) s = t @ s @ assemble_tokens (u # ts) s"
proof -
  have "foldl (\<lambda>str t. str @ s @ t) (a @ b) ts = a @ foldl (\<lambda>str t. str @ s @ t) b ts" for a b ts
    by (induction ts arbitrary: b) simp_all
  from this [of "t @ s" u ts] show "assemble_tokens (t # u # ts) s = t @ s @ assemble_tokens (u # ts) s"
    by (simp add: assemble_tokens_def)
qed (simp_all add: assemble_tokens_def)

text \<open>A token that can stand in a configuration string.\<close>

definition config_token :: "string \<Rightarrow> bool" where
  "config_token t \<longleftrightarrow> t \<noteq> [] \<and> CHR '' '' \<notin> set t \<and> CHR 0x09 \<notin> set t \<and> hd t \<noteq> CHR ''#''"

definition is_blank :: "char \<Rightarrow> bool" where
  "is_blank c \<longleftrightarrow> c = CHR '' '' \<or> c = CHR 0x09"

lemma split_assembled:
  assumes "\<forall>t \<in> set (t # ts). config_token t" and "\<forall>c \<in> set p. \<not> is_blank c"
  shows "split_by is_blank (p @ assemble_tokens (t # ts) '' '') = (p @ t) # ts"
  using assms
proof (induction ts arbitrary: t p)
  case Nil
  have "\<forall>c \<in> set (p @ t). \<not> is_blank c" using Nil by (auto simp: config_token_def is_blank_def)
  then show ?case by (simp add: assemble_simps split_by_word)
next
  case (Cons u ts)
  have word: "\<forall>c \<in> set (p @ t). \<not> is_blank c" using Cons.prems by (auto simp: config_token_def is_blank_def)
  have "split_by is_blank ([] @ assemble_tokens (u # ts) '' '') = ([] @ u) # ts"
    using Cons.prems by (intro Cons.IH) simp_all
  moreover have "is_blank (CHR '' '')" by (simp add: is_blank_def)
  ultimately show ?case
    using split_by_sep [OF word, of "CHR '' ''" "assemble_tokens (u # ts) '' ''"]
    by (simp add: assemble_simps)
qed

lemma separate_blanks:
  assumes "tokenizer_law tok"
  shows "separate_tokens tok s [CHR '' '', CHR 0x09] = filter (\<lambda>t. t \<noteq> []) (split_by is_blank s)"
proof -
  have "(\<lambda>c. c \<in> set [CHR '' '', CHR 0x09]) = is_blank" by (auto simp: is_blank_def fun_eq_iff)
  then show ?thesis using assms by (simp add: separate_tokens_def tokenizer_law_def)
qed

lemma separate_single:
  assumes "tokenizer_law tok" and "s \<noteq> CHR 0x00"
  shows "separate_tokens tok t [s] = filter (\<lambda>t. t \<noteq> []) (split_by (\<lambda>c. c = s) t)"
proof -
  have "(\<lambda>c. c \<in> set [s]) = (\<lambda>c. c = s)" by auto
  then show ?thesis using assms by (simp add: separate_tokens_def tokenizer_law_def)
qed


definition demo_tokenizer :: tokenizer where
  "demo_tokenizer seps s = filter (\<lambda>t. t \<noteq> []) (split_by (\<lambda>c. c \<in> set seps) s)"

lemma demo_tokenizer_law: "tokenizer_law demo_tokenizer"
  by (simp add: tokenizer_law_def demo_tokenizer_def)


section \<open>Path names\<close>

lemma standardize_last: "auto_standardize_dirname d \<noteq> [] \<and> last (auto_standardize_dirname d) = PATH_SEPARATOR"
  by (simp add: auto_standardize_dirname_def)

text \<open>
  A formatted directory name ends in the separator, and one that is absolute stays as it is
  when it is formatted again. A file name without a separator, put below any working directory,
  is found again as the last component. A name without any component makes separate_filename
  read before the start of its empty list.
\<close>

lemma path_names:
  assumes "tokenizer_law tok" and "name \<noteq> []" and "PATH_SEPARATOR \<notin> set name"
  shows "last (format_dirname dir workdir) = PATH_SEPARATOR \<and>
    (hd (format_dirname dir workdir) = PATH_SEPARATOR \<longrightarrow>
      format_dirname (format_dirname dir workdir) workdir' = format_dirname dir workdir) \<and>
    separate_filename tok (format_filename name workdir) = Inr name \<and>
    separate_filename tok (replicate n PATH_SEPARATOR) = Inl Out_of_bounds"
proof -
  note std = standardize_last
  have again: "format_dirname d workdir' = d" if "hd d = PATH_SEPARATOR" "d \<noteq> []" "last d = PATH_SEPARATOR" for d
    using that by (simp add: format_dirname_def auto_concate_pathname_def auto_standardize_dirname_def)
  have nul: "PATH_SEPARATOR \<noteq> CHR 0x00" by (simp add: PATH_SEPARATOR_def)
  have "hd name \<noteq> PATH_SEPARATOR" using assms(2,3) by (cases name) auto
  then have name: "format_filename name workdir = butlast (auto_standardize_dirname workdir) @ PATH_SEPARATOR # name"
    using assms(2) std [of workdir] append_butlast_last_id [of "auto_standardize_dirname workdir"]
    by (simp add: format_filename_def auto_concate_pathname_def)
  have "\<forall>c \<in> set name. \<not> c = PATH_SEPARATOR" using assms(3) by auto
  then have "separate_tokens tok (format_filename name workdir) [PATH_SEPARATOR] =
      filter (\<lambda>t. t \<noteq> []) (split_by (\<lambda>c. c = PATH_SEPARATOR) (butlast (auto_standardize_dirname workdir))) @ [name]"
    using assms(2) unfolding name
    by (simp add: separate_single [OF assms(1) nul] split_by_append split_by_word)
  then have found: "separate_filename tok (format_filename name workdir) = Inr name"
    by (simp add: separate_filename_def Let_def)
  have "split_by (\<lambda>c. c = PATH_SEPARATOR) (replicate n PATH_SEPARATOR) = replicate (Suc n) []"
    by (induction n) simp_all
  then have "separate_filename tok (replicate n PATH_SEPARATOR) = Inl Out_of_bounds"
    by (simp add: separate_filename_def separate_single [OF assms(1) nul] Let_def)
  then show ?thesis using found std again by (simp add: format_dirname_def)
qed

lemma path_names_witness:
  "separate_filename demo_tokenizer ''/var/log/a.txt'' = Inr ''a.txt''"
  using path_names [OF demo_tokenizer_law, of "''a.txt''" "[]" "''/var/log''"]
  by (simp add: PATH_SEPARATOR_def format_filename_def auto_concate_pathname_def auto_standardize_dirname_def)

end
