(* ===== verification/Xdaemon.thy ===== *)
theory Xdaemon
  imports Prelude
begin

text \<open>
  \<open>xdaemon.h\<close> and \<open>xdaemon.cpp\<close>: the guardian process that starts the server again when it
  dies, the detachment from the terminal, and the flag and the condition that end the
  process. The results of the system calls are arguments, numbered by call; the table of open
  file descriptors is a map, with \<open>open\<close> taking the lowest free one as POSIX demands.
\<close>

section \<open>guardian\<close>

record guardian_env =
  ge_mmap :: int                \<comment> \<open>0 for \<open>NULL\<close>, -1 for \<open>MAP_FAILED\<close>\<close>
  ge_flag :: "nat \<Rightarrow> bool"      \<comment> \<open>the n-th reading of \<open>*global_running_flag\<close>\<close>
  ge_fork :: "nat \<Rightarrow> int"
  ge_wait :: "nat \<Rightarrow> int"

datatype guardian_end =
    Guardian_true       \<comment> \<open>returns true\<close>
  | Guardian_false      \<comment> \<open>returns false\<close>
  | Guardian_exit int   \<comment> \<open>\<open>exit\<close>\<close>
  | Guardian_throws failure

text \<open>
  The loop: readings of the flag, forks and waits so far, the children running and the
  restarts left. The result is how it ends and the number of forks made.
\<close>

function guardian_loop :: "guardian_env \<Rightarrow> nat \<Rightarrow> nat \<Rightarrow> nat \<Rightarrow> nat \<Rightarrow> nat \<Rightarrow> nat \<Rightarrow> guardian_end \<times> nat" where
  "guardian_loop env child_cnt reads forks waits now_child_cnt times_left =
     (if \<not> ge_flag env reads then (Guardian_exit 0, forks)
      else if now_child_cnt < child_cnt then
        (if ge_fork env forks = - 1 then (Guardian_false, Suc forks)
         else if ge_fork env forks = 0 then (Guardian_true, Suc forks)
         else guardian_loop env child_cnt (Suc reads) (Suc forks) waits (now_child_cnt + 1) times_left)
      else if ge_wait env waits = - 1 then (Guardian_false, forks)
      else if times_left - 1 = 0 then (Guardian_false, forks)
      else guardian_loop env child_cnt (Suc reads) forks (Suc waits) (now_child_cnt - 1) (times_left - 1))"
  by pat_completeness auto

termination
  by (relation "measures [\<lambda>(env, child_cnt, reads, forks, waits, now, left). left,
        \<lambda>(env, child_cnt, reads, forks, waits, now, left). child_cnt - now]") auto

declare guardian_loop.simps [simp del]

definition guardian :: "guardian_env \<Rightarrow> int \<Rightarrow> guardian_end \<times> nat" where
  "guardian env child_cnt =
     (if \<not> 0 < child_cnt then (Guardian_throws Assert_failed, 0)
      else if ge_mmap env = 0 then (Guardian_false, 0)
      else if ge_mmap env = - 1 then (Guardian_throws Out_of_bounds, 0)
      else guardian_loop env (nat child_cnt) 0 0 0 0 10)"

section \<open>daemonize\<close>

record daemon_env =
  de_fork1 :: int
  de_setsid :: int
  de_fork2 :: int

datatype daemon_end = Daemon_true | Daemon_exit int

datatype signal = SIGTTOU | SIGTTIN | SIGTSTP | SIGHUP | SIGPIPE | SIGTERM

datatype disposition = Ignored | Terminate_handler

text \<open>The process: dispositions of signals and open descriptors.\<close>

record process =
  pr_signals :: "signal \<Rightarrow> disposition option"
  pr_fds :: "nat \<Rightarrow> string option"

definition pr_close :: "nat \<Rightarrow> process \<Rightarrow> process" where
  "pr_close fd p = p\<lparr>pr_fds := (pr_fds p)(fd := None)\<rparr>"

fun lowest_free :: "nat \<Rightarrow> nat \<Rightarrow> (nat \<Rightarrow> string option) \<Rightarrow> nat" where
  "lowest_free 0 fd t = fd"
| "lowest_free (Suc k) fd t = (if t fd = None then fd else lowest_free k (Suc fd) t)"

text \<open>A process has at most 1024 descriptors open.\<close>

definition pr_open :: "string \<Rightarrow> process \<Rightarrow> process" where
  "pr_open path p = p\<lparr>pr_fds := (pr_fds p)(lowest_free 1024 0 (pr_fds p) \<mapsto> path)\<rparr>"

definition daemonize :: "daemon_env \<Rightarrow> process \<Rightarrow> daemon_end \<times> process" where
  "daemonize env p =
     (let p = p\<lparr>pr_signals := (pr_signals p)(SIGTTOU \<mapsto> Ignored, SIGTTIN \<mapsto> Ignored, SIGTSTP \<mapsto> Ignored,
              SIGHUP \<mapsto> Ignored, SIGPIPE \<mapsto> Ignored, SIGTERM \<mapsto> Terminate_handler)\<rparr>
      in if de_fork1 env \<noteq> 0 then (Daemon_exit 0, p)
         else if de_fork1 env < 0 then (Daemon_exit 1, p)
         else if de_setsid env < 0 then (Daemon_exit 1, p)
         else if de_fork2 env \<noteq> 0 then (Daemon_exit 0, p)
         else if de_fork2 env < 0 then (Daemon_exit 1, p)
         else
           let p = fold pr_close [0..<3] p;
               p = pr_open ''/dev/null'' p; p = pr_open ''/dev/null'' p; p = pr_open ''/dev/null'' p
           in (Daemon_true, p))"

section \<open>terminate\<close>

text \<open>\<open>global_running_flag\<close>, \<open>None\<close> for \<open>NULL\<close>, and the number of \<open>notify_all\<close>.\<close>

record exit_state =
  ex_running_flag :: "bool option"
  ex_notified :: nat

definition xterminate :: "exit_state \<Rightarrow> exit_state" where
  "xterminate s = s\<lparr>ex_running_flag := map_option (\<lambda>_. False) (ex_running_flag s), ex_notified := Suc (ex_notified s)\<rparr>"

definition terminate_handler :: "int \<Rightarrow> exit_state \<Rightarrow> exit_state" where
  "terminate_handler signum s = xterminate s"

section \<open>Properties\<close>

lemma guardian_loop_bound:
  assumes "0 < child_cnt" and "now \<le> child_cnt" and "0 < left"
  shows "snd (guardian_loop env child_cnt reads forks waits now left) \<le> forks + (child_cnt - now) + (left - 1)"
  using assms
proof (induction env child_cnt reads forks waits now left rule: guardian_loop.induct)
  case (1 env child_cnt reads forks waits now left)
  show ?case
  proof (cases "ge_flag env reads \<and> now < child_cnt \<and> ge_fork env forks \<noteq> - 1 \<and> ge_fork env forks \<noteq> 0")
    case True
    then have "guardian_loop env child_cnt reads forks waits now left =
        guardian_loop env child_cnt (Suc reads) (Suc forks) waits (now + 1) left"
      by (subst guardian_loop.simps) simp
    moreover have "snd (guardian_loop env child_cnt (Suc reads) (Suc forks) waits (now + 1) left) \<le>
        Suc forks + (child_cnt - (now + 1)) + (left - 1)"
      using True 1(3-5) by (intro 1(1)) simp_all
    moreover have "Suc forks + (child_cnt - (now + 1)) = forks + (child_cnt - now)"
    proof -
      have "now < child_cnt" using True by simp
      then show ?thesis by linarith
    qed
    ultimately show ?thesis by simp
  next
    case False
    note no_fork = this
    show ?thesis
    proof (cases "ge_flag env reads \<and> \<not> now < child_cnt \<and> ge_wait env waits \<noteq> - 1 \<and> left - 1 \<noteq> 0")
      case True
      then have "guardian_loop env child_cnt reads forks waits now left =
          guardian_loop env child_cnt (Suc reads) forks (Suc waits) (now - 1) (left - 1)"
        by (subst guardian_loop.simps) simp
      moreover have "snd (guardian_loop env child_cnt (Suc reads) forks (Suc waits) (now - 1) (left - 1)) \<le>
          forks + (child_cnt - (now - 1)) + (left - 1 - 1)"
        using True 1(3-5) by (intro 1(2)) simp_all
      ultimately show ?thesis using True 1(3-5) by simp
    next
      case False
      then show ?thesis using no_fork 1(3-5) by (subst guardian_loop.simps) auto
    qed
  qed
qed

text \<open>The usual life: every child dies and is started again until the restarts are used up.\<close>

lemma guardian_loop_dies:
  assumes "\<forall>n. ge_flag env n" and "\<forall>n. 0 < ge_fork env n" and "\<forall>n. ge_wait env n \<noteq> - 1"
  shows "guardian_loop env 1 reads forks waits 0 (Suc left) = (Guardian_false, forks + Suc left)"
proof (induction left arbitrary: reads forks waits)
  case 0
  have pid: "ge_fork env n \<noteq> - 1" "ge_fork env n \<noteq> 0" for n
    using assms(2) by (metis less_irrefl neg_0_less_iff_less not_one_less_zero, metis less_irrefl)
  show ?case using assms(1,3) pid
    by (subst guardian_loop.simps, simp, subst guardian_loop.simps, simp)
next
  case (Suc left)
  have pid: "ge_fork env n \<noteq> - 1" "ge_fork env n \<noteq> 0" for n
    using assms(2) by (metis less_irrefl neg_0_less_iff_less not_one_less_zero, metis less_irrefl)
  have "guardian_loop env 1 reads forks waits 0 (Suc (Suc left)) =
      guardian_loop env 1 (Suc (Suc reads)) (Suc forks) (Suc waits) 0 (Suc left)"
    using assms(1,3) pid by (subst guardian_loop.simps, simp, subst guardian_loop.simps, simp)
  then show ?case using Suc by simp
qed



text \<open>
  daemonize returns only in the second child, with standard input, output and error on
  \<open>/dev/null\<close>, every other descriptor as before, and SIGTERM handled. Every other process
  exits; because the test for a failed fork comes after the test for the parent, a failure of
  either fork ends the start with exit status 0, as if it had worked.
\<close>

lemma daemonize_detaches:
  "(fst (daemonize env p) = Daemon_true \<longleftrightarrow> de_fork1 env = 0 \<and> 0 \<le> de_setsid env \<and> de_fork2 env = 0) \<and>
   (fst (daemonize env p) = Daemon_true \<longrightarrow>
     pr_fds (snd (daemonize env p)) = (pr_fds p)(0 \<mapsto> ''/dev/null'', 1 \<mapsto> ''/dev/null'', 2 \<mapsto> ''/dev/null'') \<and>
     pr_signals (snd (daemonize env p)) SIGTERM = Some Terminate_handler) \<and>
   (de_fork1 env < 0 \<longrightarrow> fst (daemonize env p) = Daemon_exit 0) \<and>
   (de_fork1 env = 0 \<and> 0 \<le> de_setsid env \<and> de_fork2 env < 0 \<longrightarrow> fst (daemonize env p) = Daemon_exit 0)"
proof -
  have upt: "[0..<3] = [0, 1, 2::nat]" by (simp add: upt_rec)
  have low: "lowest_free 1024 0 t = (if t 0 = None then 0 else if t 1 = None then 1 else if t 2 = None then 2
      else lowest_free 1021 3 t)" for t
  proof -
    have "lowest_free (Suc (Suc (Suc 1021))) 0 t = (if t 0 = None then 0 else if t 1 = None then 1
        else if t 2 = None then 2 else lowest_free 1021 3 t)"
      unfolding lowest_free.simps by (simp add: numeral_2_eq_2 numeral_3_eq_3)
    moreover have "Suc (Suc (Suc 1021)) = 1024" by simp
    ultimately show ?thesis by (simp only:)
  qed
  have fds: "pr_fds (pr_open s (pr_open s (pr_open s (fold pr_close [0..<3] r)))) = (pr_fds r)(0 \<mapsto> s, 1 \<mapsto> s, 2 \<mapsto> s)"
    for s r by (simp add: pr_open_def pr_close_def upt low fun_upd_twist)
  have sig: "pr_signals (pr_open s (pr_open s (pr_open s (fold pr_close [0..<3] r)))) = pr_signals r" for s r
    by (simp add: pr_open_def pr_close_def upt)
  show ?thesis by (auto simp: daemonize_def Let_def fds sig)
qed

lemma daemonize_detaches_witness:
  "\<forall>p. fst (daemonize \<lparr>de_fork1 = - 1, de_setsid = 0, de_fork2 = 0\<rparr> p) = Daemon_exit 0"
  using daemonize_detaches [of "\<lparr>de_fork1 = - 1, de_setsid = 0, de_fork2 = 0\<rparr>"] by simp

end
