(* ===== verification/Server_Args.thy ===== *)
theory Server_Args
  imports Xtokens Watch Xdaemon
begin

text \<open>
  \<open>ServerArgsBase.h\<close>, \<open>ServerArgsBase.cpp\<close>, \<open>args.h\<close> and \<open>args.cpp\<close>: the settings of the
  process, their defaults, and the initialization that reads the command line and the
  configuration file, sets the log up, writes the pid file and detaches. The parsers of
  Boost.Program_options and its \<open>store\<close> are arguments; \<open>po_store_law\<close> states what its
  documentation says of \<open>store\<close>.
\<close>

section \<open>State\<close>

record server_info =
  si_software_name :: string
  si_module_name :: string
  si_version_str :: string

definition server_info_init :: "string \<Rightarrow> string \<Rightarrow> string \<Rightarrow> server_info" where
  "server_info_init software_name module_name version_str =
     \<lparr>si_software_name = software_name, si_module_name = module_name, si_version_str = version_str\<rparr>"

text \<open>The values an option may take, by the type it is declared with.\<close>

datatype opt_value = OV_string string | OV_uint "32 word" | OV_int int | OV_uint16 "16 word" | OV_bool bool | OV_none

type_synonym options = "(string \<times> opt_value) list"   \<comment> \<open>name and value, in the order of declaration\<close>

record server_args_base =
  sa_help_flag :: bool
  sa_version_flag :: bool
  sa_work_dir :: string
  sa_sbin_dir :: string
  sa_bin_dir :: string
  sa_etc_dir :: string
  sa_var_dir :: string
  sa_log_dir :: string
  sa_run_dir :: string
  sa_spool_dir :: string
  sa_tmp_dir :: string
  sa_data_dir :: string
  sa_conf_dir :: string
  sa_config_file :: string
  sa_pid_file :: string
  sa_log_file :: string
  sa_log_level :: "32 word"
  sa_daemon_flag :: bool
  sa_guardian_flag :: bool
  sa_running_flag :: bool

record server_args = server_args_base +
  sa_network_thread_num :: "32 word"
  sa_tcp_timeout :: int
  sa_udp_timeout :: int
  sa_proxy_config_file :: string
  sa_admin_port :: "16 word"
  sa_admin_passwd :: string

section \<open>Defaults\<close>

definition sa_default :: "server_info \<Rightarrow> server_args_base" where
  "sa_default info =
     (let sep = [PATH_SEPARATOR];
          work_dir = sep @ ''usr'' @ sep @ ''local'' @ sep @ si_software_name info;
          etc_dir = work_dir @ sep @ ''etc'';
          var_dir = work_dir @ sep @ ''var'';
          log_dir = var_dir @ sep @ ''log'';
          run_dir = var_dir @ sep @ ''run''
      in \<lparr>sa_help_flag = False, sa_version_flag = False, sa_work_dir = work_dir,
          sa_sbin_dir = work_dir @ sep @ ''sbin'', sa_bin_dir = work_dir @ sep @ ''bin'', sa_etc_dir = etc_dir,
          sa_var_dir = var_dir, sa_log_dir = log_dir, sa_run_dir = run_dir,
          sa_spool_dir = var_dir @ sep @ ''spool'', sa_tmp_dir = var_dir @ sep @ ''tmp'',
          sa_data_dir = var_dir @ sep @ ''data'', sa_conf_dir = var_dir @ sep @ ''conf'',
          sa_config_file = etc_dir @ sep @ si_module_name info @ ''.conf'',
          sa_pid_file = run_dir @ sep @ si_module_name info @ ''.pid'',
          sa_log_file = log_dir @ sep @ si_module_name info @ ''.log'',
          sa_log_level = 6, sa_daemon_flag = False, sa_guardian_flag = False, sa_running_flag = True\<rparr>)"

text \<open>\<open>DEFAULT_CONFIG_FILE\<close> is a macro of the build; \<open>None\<close> when it is not defined.\<close>

definition server_args_new :: "string option \<Rightarrow> server_info \<Rightarrow> server_args" where
  "server_args_new default_config_file info =
     (let a = sa_default info;
          a = (case default_config_file of None \<Rightarrow> a | Some f \<Rightarrow> a\<lparr>sa_config_file := f\<rparr>)
      in server_args_base.extend a
           \<lparr>sa_network_thread_num = 4, sa_tcp_timeout = 600000, sa_udp_timeout = 600000,
            sa_proxy_config_file = ''proxy.conf'', sa_admin_port = 6600, sa_admin_passwd = ''123456''\<rparr>)"

section \<open>Options\<close>

text \<open>The options of the base class with their defaults; \<open>help\<close> and \<open>version\<close> have none.\<close>

definition base_options :: "server_args_base \<Rightarrow> options" where
  "base_options def =
     [(''work-dir'', OV_string (sa_work_dir def)), (''sbin-dir'', OV_string (sa_sbin_dir def)),
      (''bin-dir'', OV_string (sa_bin_dir def)), (''etc-dir'', OV_string (sa_etc_dir def)),
      (''var-dir'', OV_string (sa_var_dir def)), (''log-dir'', OV_string (sa_log_dir def)),
      (''run-dir'', OV_string (sa_run_dir def)), (''spool-dir'', OV_string (sa_spool_dir def)),
      (''tmp-dir'', OV_string (sa_tmp_dir def)), (''data-dir'', OV_string (sa_data_dir def)),
      (''conf-dir'', OV_string (sa_conf_dir def)), (''config-file'', OV_string (sa_config_file def)),
      (''pid-file'', OV_string (sa_pid_file def)), (''log-file'', OV_string (sa_log_file def)),
      (''log-level'', OV_uint (sa_log_level def)), (''daemon'', OV_bool (sa_daemon_flag def)),
      (''guardian'', OV_bool (sa_guardian_flag def))]"

definition extra_options :: "server_args \<Rightarrow> options" where
  "extra_options def =
     [(''network_thread_num'', OV_uint (sa_network_thread_num def)), (''tcp_timeout'', OV_int (sa_tcp_timeout def)),
      (''udp_timeout'', OV_int (sa_udp_timeout def)), (''proxy_config_file'', OV_string (sa_proxy_config_file def)),
      (''admin_port'', OV_uint16 (sa_admin_port def)), (''admin_passwd'', OV_string (sa_admin_passwd def))]"

text \<open>
  The member each option is declared with, as \<open>value<T>(&member)\<close>; a value of another type
  does not get past the parser.
\<close>

definition set_string :: "(string \<Rightarrow> server_args \<Rightarrow> server_args) \<Rightarrow> opt_value \<Rightarrow> server_args \<Rightarrow> server_args" where
  "set_string f v a = (case v of OV_string x \<Rightarrow> f x a | _ \<Rightarrow> a)"

definition set_uint :: "(32 word \<Rightarrow> server_args \<Rightarrow> server_args) \<Rightarrow> opt_value \<Rightarrow> server_args \<Rightarrow> server_args" where
  "set_uint f v a = (case v of OV_uint x \<Rightarrow> f x a | _ \<Rightarrow> a)"

definition set_int :: "(int \<Rightarrow> server_args \<Rightarrow> server_args) \<Rightarrow> opt_value \<Rightarrow> server_args \<Rightarrow> server_args" where
  "set_int f v a = (case v of OV_int x \<Rightarrow> f x a | _ \<Rightarrow> a)"

definition set_uint16 :: "(16 word \<Rightarrow> server_args \<Rightarrow> server_args) \<Rightarrow> opt_value \<Rightarrow> server_args \<Rightarrow> server_args" where
  "set_uint16 f v a = (case v of OV_uint16 x \<Rightarrow> f x a | _ \<Rightarrow> a)"

definition set_bool :: "(bool \<Rightarrow> server_args \<Rightarrow> server_args) \<Rightarrow> opt_value \<Rightarrow> server_args \<Rightarrow> server_args" where
  "set_bool f v a = (case v of OV_bool x \<Rightarrow> f x a | _ \<Rightarrow> a)"

lemmas set_member_defs = set_string_def set_uint_def set_int_def set_uint16_def set_bool_def

definition base_members :: "(string \<times> (opt_value \<Rightarrow> server_args \<Rightarrow> server_args)) list" where
  "base_members =
     [(''work-dir'', set_string (\<lambda>x a. a\<lparr>sa_work_dir := x\<rparr>)),
      (''sbin-dir'', set_string (\<lambda>x a. a\<lparr>sa_sbin_dir := x\<rparr>)),
      (''bin-dir'', set_string (\<lambda>x a. a\<lparr>sa_bin_dir := x\<rparr>)),
      (''etc-dir'', set_string (\<lambda>x a. a\<lparr>sa_etc_dir := x\<rparr>)),
      (''var-dir'', set_string (\<lambda>x a. a\<lparr>sa_var_dir := x\<rparr>)),
      (''log-dir'', set_string (\<lambda>x a. a\<lparr>sa_log_dir := x\<rparr>)),
      (''run-dir'', set_string (\<lambda>x a. a\<lparr>sa_run_dir := x\<rparr>)),
      (''spool-dir'', set_string (\<lambda>x a. a\<lparr>sa_spool_dir := x\<rparr>)),
      (''tmp-dir'', set_string (\<lambda>x a. a\<lparr>sa_tmp_dir := x\<rparr>)),
      (''data-dir'', set_string (\<lambda>x a. a\<lparr>sa_data_dir := x\<rparr>)),
      (''conf-dir'', set_string (\<lambda>x a. a\<lparr>sa_conf_dir := x\<rparr>)),
      (''config-file'', set_string (\<lambda>x a. a\<lparr>sa_config_file := x\<rparr>)),
      (''pid-file'', set_string (\<lambda>x a. a\<lparr>sa_pid_file := x\<rparr>)),
      (''log-file'', set_string (\<lambda>x a. a\<lparr>sa_log_file := x\<rparr>)),
      (''log-level'', set_uint (\<lambda>x a. a\<lparr>sa_log_level := x\<rparr>)),
      (''daemon'', set_bool (\<lambda>x a. a\<lparr>sa_daemon_flag := x\<rparr>)),
      (''guardian'', set_bool (\<lambda>x a. a\<lparr>sa_guardian_flag := x\<rparr>))]"

definition extra_members :: "(string \<times> (opt_value \<Rightarrow> server_args \<Rightarrow> server_args)) list" where
  "extra_members =
     [(''network_thread_num'', set_uint (\<lambda>x a. a\<lparr>sa_network_thread_num := x\<rparr>)),
      (''tcp_timeout'', set_int (\<lambda>x a. a\<lparr>sa_tcp_timeout := x\<rparr>)),
      (''udp_timeout'', set_int (\<lambda>x a. a\<lparr>sa_udp_timeout := x\<rparr>)),
      (''proxy_config_file'', set_string (\<lambda>x a. a\<lparr>sa_proxy_config_file := x\<rparr>)),
      (''admin_port'', set_uint16 (\<lambda>x a. a\<lparr>sa_admin_port := x\<rparr>)),
      (''admin_passwd'', set_string (\<lambda>x a. a\<lparr>sa_admin_passwd := x\<rparr>))]"

text \<open>\<open>notify\<close> writes the value of an option into its member.\<close>

definition sa_assign :: "string \<times> opt_value \<Rightarrow> server_args \<Rightarrow> server_args" where
  "sa_assign nv a =
     (case map_of (base_members @ extra_members) (fst nv) of None \<Rightarrow> a | Some set_member \<Rightarrow> set_member (snd nv) a)"

text \<open>
  A \<open>variables_map\<close>: the value of an option and whether it is only the default. Parsed
  options are a map from names to values.
\<close>

type_synonym variables_map = "string \<Rightarrow> (opt_value \<times> bool) option"
type_synonym parsed_options = "string \<Rightarrow> opt_value option"

definition po_store_law :: "(options \<Rightarrow> parsed_options \<Rightarrow> variables_map \<Rightarrow> variables_map) \<Rightarrow> bool" where
  "po_store_law store \<longleftrightarrow> (\<forall>desc parsed vm name. store desc parsed vm name =
     (case vm name of
        Some (v, False) \<Rightarrow> Some (v, False)
      | old \<Rightarrow>
          (case parsed name of
             Some v \<Rightarrow> Some (v, False)
           | None \<Rightarrow> (case old of Some x \<Rightarrow> Some x | None \<Rightarrow> map_option (\<lambda>v. (v, True)) (map_of desc name)))))"

definition po_notify :: "options \<Rightarrow> variables_map \<Rightarrow> server_args \<Rightarrow> server_args" where
  "po_notify desc vm a =
     fold (\<lambda>(name, d) a. case vm name of None \<Rightarrow> a | Some (v, _) \<Rightarrow> sa_assign (name, v) a) desc a"

section \<open>ServerArgsBase::init\<close>

datatype args_io =
    Args_watch_reset string "32 word"
  | Args_print string
  | Args_write_pid string int       \<comment> \<open>path and the process that writes its own number\<close>
  | Args_log_error

datatype args_end = Args_returns server_args | Args_exit int

text \<open>
  What the environment answers: the parsers (\<open>None\<close> when they throw), the configuration file
  (\<open>None\<close> when it cannot be opened), whether the pid file can be written, and how the
  process fares in \<open>daemonize\<close> and \<open>guardian\<close>.
\<close>

record args_env =
  ae_parse_command_line :: "options \<Rightarrow> string list \<Rightarrow> parsed_options option"
  ae_store :: "options \<Rightarrow> parsed_options \<Rightarrow> variables_map \<Rightarrow> variables_map"
  ae_config :: "string \<Rightarrow> string option"
  ae_parse_config_file :: "options \<Rightarrow> string \<Rightarrow> parsed_options option"
  ae_pid_writable :: "string \<Rightarrow> bool"
  ae_pid :: int
  ae_daemon :: daemon_env
  ae_guardian :: guardian_env

definition all_options :: "string option \<Rightarrow> server_info \<Rightarrow> options" where
  "all_options default_config_file info =
     base_options (sa_default info) @ extra_options (server_args_new default_config_file info)"

definition checkAfterInit :: "server_args \<Rightarrow> failure option" where
  "checkAfterInit a = (if sa_network_thread_num a \<noteq> 0 then None else Some Assert_failed)"

text \<open>From the second \<open>watch::reset\<close> on; every exception is caught, logged and ends the process.\<close>

definition sa_finish :: "args_env \<Rightarrow> process \<Rightarrow> server_args \<Rightarrow> args_io list \<times> args_end" where
  "sa_finish env p a =
     (let io = [Args_watch_reset (sa_log_file a) (sa_log_level a)] in
      case checkAfterInit a of
        Some _ \<Rightarrow> (io @ [Args_log_error], Args_exit 1)
      | None \<Rightarrow>
          let io = (if ae_pid_writable env (sa_pid_file a) then io @ [Args_write_pid (sa_pid_file a) (ae_pid env)] else io)
          in case (if sa_daemon_flag a then fst (daemonize (ae_daemon env) p) else Daemon_true) of
               Daemon_exit code \<Rightarrow> (io, Args_exit code)
             | Daemon_true \<Rightarrow>
                 (case (if sa_guardian_flag a then fst (guardian (ae_guardian env) 1) else Guardian_true) of
                    Guardian_true \<Rightarrow> (io, Args_returns a)
                  | Guardian_false \<Rightarrow> (io @ [Args_log_error], Args_exit 1)
                  | Guardian_exit code \<Rightarrow> (io, Args_exit code)
                  | Guardian_throws _ \<Rightarrow> (io @ [Args_log_error], Args_exit 1)))"

definition sa_init :: "args_env \<Rightarrow> string option \<Rightarrow> server_info \<Rightarrow> process \<Rightarrow> string list \<Rightarrow> server_args \<Rightarrow>
    args_io list \<times> args_end" where
  "sa_init env default_config_file info p argv a =
     (let desc = all_options default_config_file info;
          io = [Args_watch_reset (sa_log_file a) (sa_log_level a)]
      in case ae_parse_command_line env desc argv of
           None \<Rightarrow> (io @ [Args_log_error], Args_exit 1)
         | Some parsed \<Rightarrow>
             let vm = ae_store env desc parsed (\<lambda>_. None); a = po_notify desc vm a in
             if vm ''help'' \<noteq> None then (io @ [Args_print (si_version_str info), Args_print ''options''], Args_exit 0)
             else if vm ''version'' \<noteq> None then (io @ [Args_print (si_version_str info)], Args_exit 0)
             else
               (case ae_config env (sa_config_file a) of
                  None \<Rightarrow> (let (io', r) = sa_finish env p a in (io @ io', r))
                | Some content \<Rightarrow>
                    (case ae_parse_config_file env desc content of
                       None \<Rightarrow> (io @ [Args_log_error], Args_exit 1)
                     | Some parsed \<Rightarrow>
                         let vm = ae_store env desc parsed vm; a = po_notify desc vm a;
                             (io', r) = sa_finish env p a
                         in (io @ io', r))))"

section \<open>Where a setting comes from\<close>

lemma option_names: "distinct (map fst (all_options f info))"
  by (simp add: all_options_def base_options_def extra_options_def)

lemma sa_finish_returns:
  assumes "snd (sa_finish env p a) = Args_returns b"
  shows "b = a \<and> sa_network_thread_num a \<noteq> 0"
proof -
  define d where "d = (if sa_daemon_flag a then fst (daemonize (ae_daemon env) p) else Daemon_true)"
  define g where "g = (if sa_guardian_flag a then fst (guardian (ae_guardian env) 1) else Guardian_true)"
  have check: "checkAfterInit a = None"
    using assms by (cases "checkAfterInit a") (simp_all add: sa_finish_def)
  have "snd (sa_finish env p a) = (case d of Daemon_exit code \<Rightarrow> Args_exit code | Daemon_true \<Rightarrow>
      (case g of Guardian_true \<Rightarrow> Args_returns a | Guardian_false \<Rightarrow> Args_exit 1 | Guardian_exit code \<Rightarrow> Args_exit code
       | Guardian_throws _ \<Rightarrow> Args_exit 1))"
    unfolding sa_finish_def Let_def check option.case d_def [symmetric] g_def [symmetric]
    by (cases d; cases g; simp)
  with assms have "(case d of Daemon_exit code \<Rightarrow> Args_exit code | Daemon_true \<Rightarrow>
      (case g of Guardian_true \<Rightarrow> Args_returns a | Guardian_false \<Rightarrow> Args_exit 1 | Guardian_exit code \<Rightarrow> Args_exit code
       | Guardian_throws _ \<Rightarrow> Args_exit 1)) = Args_returns b" by metis
  then have "b = a" by (cases d; cases g) simp_all
  moreover have "sa_network_thread_num a \<noteq> 0"
    using check unfolding checkAfterInit_def by (metis option.distinct(1))
  ultimately show ?thesis ..
qed

lemma sa_init_returns:
  assumes "snd (sa_init env f info p argv a) = Args_returns b"
  shows "sa_network_thread_num b \<noteq> 0"
proof -
  have fin: "sa_network_thread_num b \<noteq> 0" if "snd (sa_finish env p a') = Args_returns b" for a'
    using sa_finish_returns [OF that] by simp
  show ?thesis
    using assms fin by (auto simp: sa_init_def case_prod_unfold Let_def split: option.splits if_splits)
qed

text \<open>\<open>notify\<close> sets a member from its own option only.\<close>

lemma po_notify_get:
  assumes other: "\<And>n v a. n \<noteq> X \<Longrightarrow> get (sa_assign (n, v) a) = get a"
    and own: "\<And>v a a'. get a = get a' \<Longrightarrow> get (sa_assign (X, v) a) = get (sa_assign (X, v) a')"
    and desc: "distinct (map fst desc)" "X \<in> fst ` set desc"
  shows "get (po_notify desc vm a) = (case vm X of None \<Rightarrow> get a | Some (v, _) \<Rightarrow> get (sa_assign (X, v) a))"
proof -
  let ?f = "\<lambda>(name, d :: opt_value) a. case vm name of None \<Rightarrow> a | Some (v, _) \<Rightarrow> sa_assign (name, v) a"
  have skip: "get (fold ?f ds b) = get b" if "X \<notin> fst ` set ds" for ds b
    using that
  proof (induction ds arbitrary: b)
    case (Cons e ds)
    then show ?case using other by (cases e) (auto split: option.splits)
  qed simp
  obtain ds1 d ds2 where split: "desc = ds1 @ (X, d) # ds2"
    using desc(2) by (auto dest!: split_list)
  then have out: "X \<notin> fst ` set ds1" "X \<notin> fst ` set ds2" using desc(1) by auto
  have "get (po_notify desc vm a) = get (?f (X, d) (fold ?f ds1 a))"
    by (simp only: po_notify_def split fold_append fold_simps o_apply skip [OF out(2)])
  also have "\<dots> = (case vm X of None \<Rightarrow> get a | Some (v, _) \<Rightarrow> get (sa_assign (X, v) a))"
  proof (cases "vm X")
    case None
    then show ?thesis using skip [OF out(1), of a] by simp
  next
    case (Some vd)
    then show ?thesis using own [OF skip [OF out(1), of a], of "fst vd"] by (simp add: case_prod_unfold)
  qed
  finally show ?thesis .
qed

lemma sa_assign_same:
  assumes "\<forall>(m, f) \<in> set (base_members @ extra_members). m \<noteq> X \<longrightarrow> (\<forall>v a. get (f v a) = get a)" and "n \<noteq> X"
  shows "get (sa_assign (n, v) a) = get a"
proof (cases "map_of (base_members @ extra_members) n")
  case None
  then show ?thesis by (simp only: sa_assign_def fst_conv option.case)
next
  case (Some f)
  have "(n, f) \<in> set (base_members @ extra_members)" using Some by (rule map_of_SomeD)
  then have "get (f v a) = get a" using assms by blast
  then show ?thesis by (simp only: sa_assign_def fst_conv snd_conv option.case Some)
qed

lemma set_member_same:
  "(\<And>x. get (f1 x a) = get a) \<Longrightarrow> get (set_string f1 v a) = get a"
  "(\<And>x. get (f2 x a) = get a) \<Longrightarrow> get (set_uint f2 v a) = get a"
  "(\<And>x. get (f3 x a) = get a) \<Longrightarrow> get (set_int f3 v a) = get a"
  "(\<And>x. get (f4 x a) = get a) \<Longrightarrow> get (set_uint16 f4 v a) = get a"
  "(\<And>x. get (f5 x a) = get a) \<Longrightarrow> get (set_bool f5 v a) = get a"
  by (cases v; simp add: set_member_defs)+

lemmas members_defs = base_members_def extra_members_def

lemma sa_assign_simps:
  "n \<noteq> ''network_thread_num'' \<Longrightarrow> sa_network_thread_num (sa_assign (n, v) a) = sa_network_thread_num a"
  "n \<noteq> ''tcp_timeout'' \<Longrightarrow> sa_tcp_timeout (sa_assign (n, v) a) = sa_tcp_timeout a"
  "n \<noteq> ''proxy_config_file'' \<Longrightarrow> sa_proxy_config_file (sa_assign (n, v) a) = sa_proxy_config_file a"
  "n \<noteq> ''config-file'' \<Longrightarrow> sa_config_file (sa_assign (n, v) a) = sa_config_file a"
proof -
  show "sa_network_thread_num (sa_assign (n, v) a) = sa_network_thread_num a" if "n \<noteq> ''network_thread_num''"
    using that by (rule sa_assign_same [rotated]) (simp add: members_defs set_member_same [where get = sa_network_thread_num])
  show "sa_tcp_timeout (sa_assign (n, v) a) = sa_tcp_timeout a" if "n \<noteq> ''tcp_timeout''"
    using that by (rule sa_assign_same [rotated]) (simp add: members_defs set_member_same [where get = sa_tcp_timeout])
  show "sa_proxy_config_file (sa_assign (n, v) a) = sa_proxy_config_file a" if "n \<noteq> ''proxy_config_file''"
    using that by (rule sa_assign_same [rotated]) (simp add: members_defs set_member_same [where get = sa_proxy_config_file])
  show "sa_config_file (sa_assign (n, v) a) = sa_config_file a" if "n \<noteq> ''config-file''"
    using that by (rule sa_assign_same [rotated]) (simp add: members_defs set_member_same [where get = sa_config_file])
qed

lemma sa_assign_own:
  "sa_network_thread_num (sa_assign (''network_thread_num'', v) a) = (case v of OV_uint n \<Rightarrow> n | _ \<Rightarrow> sa_network_thread_num a)"
  "sa_tcp_timeout (sa_assign (''tcp_timeout'', v) a) = (case v of OV_int n \<Rightarrow> n | _ \<Rightarrow> sa_tcp_timeout a)"
  "sa_proxy_config_file (sa_assign (''proxy_config_file'', v) a) = (case v of OV_string s \<Rightarrow> s | _ \<Rightarrow> sa_proxy_config_file a)"
  "sa_config_file (sa_assign (''config-file'', v) a) = (case v of OV_string s \<Rightarrow> s | _ \<Rightarrow> sa_config_file a)"
  by (simp_all add: sa_assign_def members_defs set_member_defs, (cases v; simp)+)

lemma po_notify_fields:
  fixes f info vm a
  defines "b \<equiv> po_notify (all_options f info) vm a"
  shows "sa_network_thread_num b = (case vm ''network_thread_num'' of Some (OV_uint n, _) \<Rightarrow> n | _ \<Rightarrow> sa_network_thread_num a)"
    and "sa_tcp_timeout b = (case vm ''tcp_timeout'' of Some (OV_int n, _) \<Rightarrow> n | _ \<Rightarrow> sa_tcp_timeout a)"
    and "sa_proxy_config_file b = (case vm ''proxy_config_file'' of Some (OV_string s, _) \<Rightarrow> s | _ \<Rightarrow> sa_proxy_config_file a)"
    and "sa_config_file b = (case vm ''config-file'' of Some (OV_string s, _) \<Rightarrow> s | _ \<Rightarrow> sa_config_file a)"
proof -
  have mem: "''network_thread_num'' \<in> fst ` set (all_options f info)" "''tcp_timeout'' \<in> fst ` set (all_options f info)"
    "''proxy_config_file'' \<in> fst ` set (all_options f info)" "''config-file'' \<in> fst ` set (all_options f info)"
    by (simp_all add: all_options_def base_options_def extra_options_def)
  show "sa_network_thread_num b = (case vm ''network_thread_num'' of Some (OV_uint n, _) \<Rightarrow> n | _ \<Rightarrow> sa_network_thread_num a)"
    unfolding b_def
    by (subst po_notify_get [where X = "''network_thread_num''"])
      (simp_all add: sa_assign_simps sa_assign_own option_names mem split: option.splits opt_value.splits)
  show "sa_tcp_timeout b = (case vm ''tcp_timeout'' of Some (OV_int n, _) \<Rightarrow> n | _ \<Rightarrow> sa_tcp_timeout a)"
    unfolding b_def
    by (subst po_notify_get [where X = "''tcp_timeout''"])
      (simp_all add: sa_assign_simps sa_assign_own option_names mem split: option.splits opt_value.splits)
  show "sa_proxy_config_file b = (case vm ''proxy_config_file'' of Some (OV_string s, _) \<Rightarrow> s | _ \<Rightarrow> sa_proxy_config_file a)"
    unfolding b_def
    by (subst po_notify_get [where X = "''proxy_config_file''"])
      (simp_all add: sa_assign_simps sa_assign_own option_names mem split: option.splits opt_value.splits)
  show "sa_config_file b = (case vm ''config-file'' of Some (OV_string s, _) \<Rightarrow> s | _ \<Rightarrow> sa_config_file a)"
    unfolding b_def
    by (subst po_notify_get [where X = "''config-file''"])
      (simp_all add: sa_assign_simps sa_assign_own option_names mem split: option.splits opt_value.splits)
qed

text \<open>The value a setting should have: command line before configuration file before default.\<close>

definition setting :: "options \<Rightarrow> parsed_options \<Rightarrow> parsed_options \<Rightarrow> string \<Rightarrow> opt_value option" where
  "setting desc cmd cfg name =
     (case cmd name of Some v \<Rightarrow> Some v
      | None \<Rightarrow> (case cfg name of Some v \<Rightarrow> Some v | None \<Rightarrow> map_of desc name))"

lemma store_twice:
  assumes "po_store_law store"
  shows "map_option fst (store desc cfg (store desc cmd (\<lambda>_. None)) name) = setting desc cmd cfg name"
    and "map_option fst (store desc cmd (\<lambda>_. None) name) = setting desc cmd (\<lambda>_. None) name"
  using assms by (auto simp: po_store_law_def setting_def option.map_comp comp_def option.map_ident split: option.splits bool.splits prod.splits)

text \<open>
  What the parsers promise: they know only declared options and give a value the type its
  option is declared with.
\<close>

fun opt_same_type :: "opt_value \<Rightarrow> opt_value \<Rightarrow> bool" where
  "opt_same_type (OV_string _) (OV_string _) = True"
| "opt_same_type (OV_uint _) (OV_uint _) = True"
| "opt_same_type (OV_int _) (OV_int _) = True"
| "opt_same_type (OV_uint16 _) (OV_uint16 _) = True"
| "opt_same_type (OV_bool _) (OV_bool _) = True"
| "opt_same_type _ _ = False"

definition po_typed :: "options \<Rightarrow> parsed_options \<Rightarrow> bool" where
  "po_typed desc parsed \<longleftrightarrow>
     (\<forall>(name, d) \<in> set desc. case parsed name of None \<Rightarrow> True | Some v \<Rightarrow> opt_same_type v d)"

lemma opt_same_type_refl: "v \<noteq> OV_none \<Longrightarrow> opt_same_type v v"
  by (cases v) simp_all

lemma opt_same_typeD:
  "opt_same_type v (OV_uint n) \<Longrightarrow> \<exists>m. v = OV_uint m"
  "opt_same_type v (OV_int i) \<Longrightarrow> \<exists>j. v = OV_int j"
  "opt_same_type v (OV_string s) \<Longrightarrow> \<exists>t. v = OV_string t"
  by (cases v; simp)+

lemma setting_typed:
  assumes "po_typed desc cmd" and "po_typed desc cfg" and "map_of desc name = Some d" and "d \<noteq> OV_none"
  obtains v where "setting desc cmd cfg name = Some v" and "opt_same_type v d"
proof -
  have mem: "(name, d) \<in> set desc" using assms(3) by (rule map_of_SomeD)
  have ok: "opt_same_type v d" if "parsed name = Some v" "po_typed desc parsed" for parsed v
    using mem that by (auto simp: po_typed_def)
  show thesis
  proof (cases "cmd name")
    case None
    then show ?thesis using that assms(2-4) ok [of cfg] opt_same_type_refl
      by (cases "cfg name") (auto simp: setting_def)
  next
    case (Some v)
    then show ?thesis using that assms(1) ok [of cmd] by (simp add: setting_def)
  qed
qed

lemma default_options:
  "\<exists>n. map_of (all_options f info) ''network_thread_num'' = Some (OV_uint n)"
  "\<exists>n. map_of (all_options f info) ''tcp_timeout'' = Some (OV_int n)"
  "\<exists>s. map_of (all_options f info) ''proxy_config_file'' = Some (OV_string s)"
  "map_of (all_options f info) ''config-file'' = Some (OV_string (sa_config_file (sa_default info)))"
  by (simp_all add: all_options_def base_options_def extra_options_def)

text \<open>After \<open>notify\<close> the members hold the settings of the map they were read from.\<close>

lemma notify_settings:
  fixes f info
  defines "desc \<equiv> all_options f info"
  assumes vm: "\<And>name. map_option fst (vm name) = setting desc cmd cfg name"
    and typed: "po_typed desc cmd" "po_typed desc cfg"
  shows "Some (OV_uint (sa_network_thread_num (po_notify desc vm a))) = setting desc cmd cfg ''network_thread_num''"
    and "Some (OV_int (sa_tcp_timeout (po_notify desc vm a))) = setting desc cmd cfg ''tcp_timeout''"
    and "Some (OV_string (sa_proxy_config_file (po_notify desc vm a))) = setting desc cmd cfg ''proxy_config_file''"
    and "Some (OV_string (sa_config_file (po_notify desc vm a))) = setting desc cmd cfg ''config-file''"
proof -
  have get: "\<exists>v b. vm name = Some (v, b) \<and> setting desc cmd cfg name = Some v \<and> opt_same_type v d"
    if declared: "map_of desc name = Some d" "d \<noteq> OV_none" for name d
  proof -
    obtain v where v: "setting desc cmd cfg name = Some v" "opt_same_type v d"
      by (rule setting_typed [OF typed declared])
    then show ?thesis using vm [of name] by (cases "vm name") auto
  qed
  show "Some (OV_uint (sa_network_thread_num (po_notify desc vm a))) = setting desc cmd cfg ''network_thread_num''"
    using default_options(1) [of f info] get [of "''network_thread_num''"] opt_same_typeD(1)
    unfolding desc_def [symmetric] by (fastforce simp: desc_def po_notify_fields)
  show "Some (OV_int (sa_tcp_timeout (po_notify desc vm a))) = setting desc cmd cfg ''tcp_timeout''"
    using default_options(2) [of f info] get [of "''tcp_timeout''"] opt_same_typeD(2)
    unfolding desc_def [symmetric] by (fastforce simp: desc_def po_notify_fields)
  show "Some (OV_string (sa_proxy_config_file (po_notify desc vm a))) = setting desc cmd cfg ''proxy_config_file''"
    using default_options(3) [of f info] get [of "''proxy_config_file''"] opt_same_typeD(3)
    unfolding desc_def [symmetric] by (fastforce simp: desc_def po_notify_fields)
  show "Some (OV_string (sa_config_file (po_notify desc vm a))) = setting desc cmd cfg ''config-file''"
    using default_options(4) [of f info] get [of "''config-file''"] opt_same_typeD(3)
    unfolding desc_def [symmetric] by (fastforce simp: desc_def po_notify_fields)
qed

text \<open>The options the configuration file gives; none when it cannot be opened.\<close>

definition config_read :: "args_env \<Rightarrow> options \<Rightarrow> string \<Rightarrow> parsed_options option" where
  "config_read env desc path =
     (case ae_config env path of
        None \<Rightarrow> Some (\<lambda>_. None)
      | Some content \<Rightarrow> ae_parse_config_file env desc content)"


text \<open>A run with \<open>--tcp_timeout 5\<close> and a configuration file that sets the same option and the threads.\<close>

definition demo_store :: "options \<Rightarrow> parsed_options \<Rightarrow> variables_map \<Rightarrow> variables_map" where
  "demo_store desc parsed vm name =
     (case vm name of
        Some (v, False) \<Rightarrow> Some (v, False)
      | old \<Rightarrow>
          (case parsed name of
             Some v \<Rightarrow> Some (v, False)
           | None \<Rightarrow> (case old of Some x \<Rightarrow> Some x | None \<Rightarrow> map_option (\<lambda>v. (v, True)) (map_of desc name))))"

definition demo_cmd :: parsed_options where
  "demo_cmd name = (if name = ''tcp_timeout'' then Some (OV_int 5) else None)"

definition demo_cfg :: parsed_options where
  "demo_cfg name =
     (if name = ''tcp_timeout'' then Some (OV_int 9)
      else if name = ''network_thread_num'' then Some (OV_uint 2) else None)"

definition demo_args_env :: args_env where
  "demo_args_env =
     \<lparr>ae_parse_command_line = (\<lambda>_ _. Some demo_cmd), ae_store = demo_store,
      ae_config = (\<lambda>path. if path = ''/usr/local/proxy/etc/faraway_proxy.conf'' then Some [] else None),
      ae_parse_config_file = (\<lambda>_ _. Some demo_cfg), ae_pid_writable = (\<lambda>_. True), ae_pid = 42,
      ae_daemon = \<lparr>de_fork1 = 0, de_setsid = 0, de_fork2 = 0\<rparr>,
      ae_guardian = \<lparr>ge_mmap = 1, ge_flag = (\<lambda>_. True), ge_fork = (\<lambda>_. 0), ge_wait = (\<lambda>_. 1)\<rparr>\<rparr>"

definition demo_info :: server_info where
  "demo_info = server_info_init ''proxy'' ''faraway_proxy'' ''faraway_proxy 1.0.000''"

definition demo_process :: process where
  "demo_process = \<lparr>pr_signals = (\<lambda>_. None), pr_fds = (\<lambda>_. None)\<rparr>"

definition demo_args :: server_args where
  "demo_args = server_args_new None (server_info_init [] [] [])"

lemma demo_args_env_laws:
  "po_store_law (ae_store demo_args_env)"
  "ae_parse_command_line demo_args_env desc argv = Some demo_cmd"
  "po_typed (all_options f info) demo_cmd"
  "config_read demo_args_env (all_options f info) path = Some cfg \<Longrightarrow> po_typed (all_options f info) cfg"
  by (auto simp: po_store_law_def demo_args_env_def demo_store_def po_typed_def demo_cmd_def demo_cfg_def
      all_options_def base_options_def extra_options_def config_read_def split: if_splits)

lemma demo_args_returns: "\<exists>b. snd (sa_init demo_args_env None demo_info demo_process [] demo_args) = Args_returns b"
proof -
  have "(case snd (sa_init demo_args_env None demo_info demo_process [] demo_args) of
      Args_returns b \<Rightarrow> True | Args_exit _ \<Rightarrow> False)"
    by code_simp
  then show ?thesis by (simp split: args_end.splits)
qed


end
