(* ===== verification/Proxy_Main.thy ===== *)
theory Proxy_Main
  imports Shared_Props Server_Args
begin

text \<open>
  \<open>faraway_proxy.cpp\<close>: the process as a whole. Its arguments are read, the configuration is
  loaded, the threads are started, the main thread waits on the exit condition, and the
  destructor of \<open>ProxyServer\<close> stops what was started. The wait has no predicate, so it is
  modelled as the sequence of what can end it: signals, by the disposition that \<open>daemonize\<close>
  gave them, and spurious wake-ups of the condition variable. Events before the wait and
  during it are kept apart.
\<close>

section \<open>Waiting for the end\<close>

datatype main_event = Signal signal | Spurious_wakeup

text \<open>The default action of the stop signals suspends the process; the others end it.\<close>

definition default_kills :: "signal \<Rightarrow> bool" where
  "default_kills s \<longleftrightarrow> s \<in> {SIGHUP, SIGPIPE, SIGTERM}"

datatype wait_end = Woken | Killed signal | Waiting

text \<open>Before the wait: a handled signal notifies a condition on which nobody waits.\<close>

fun main_early :: "process \<Rightarrow> main_event list \<Rightarrow> exit_state \<Rightarrow> signal option \<times> exit_state" where
  "main_early p [] x = (None, x)"
| "main_early p (Spurious_wakeup # es) x = main_early p es x"
| "main_early p (Signal s # es) x =
     (case pr_signals p s of
        Some Ignored \<Rightarrow> main_early p es x
      | Some Terminate_handler \<Rightarrow> main_early p es (terminate_handler 15 x)
      | None \<Rightarrow> if default_kills s then (Some s, x) else main_early p es x)"

text \<open>\<open>exit_condition.wait\<close>, which any notification and any spurious wake-up ends.\<close>

fun main_wait :: "process \<Rightarrow> main_event list \<Rightarrow> exit_state \<Rightarrow> wait_end \<times> exit_state" where
  "main_wait p [] x = (Waiting, x)"
| "main_wait p (Spurious_wakeup # es) x = (Woken, x)"
| "main_wait p (Signal s # es) x =
     (case pr_signals p s of
        Some Ignored \<Rightarrow> main_wait p es x
      | Some Terminate_handler \<Rightarrow> (Woken, terminate_handler 15 x)
      | None \<Rightarrow> if default_kills s then (Killed s, x) else main_wait p es x)"

section \<open>ProxyServer\<close>

datatype main_io =
    Main_args args_io
  | Main_log string
  | Main_error                \<comment> \<open>the message of one of the handlers of \<open>main\<close>\<close>
  | Running_flag bool         \<comment> \<open>\<open>args.running_flag\<close> is set\<close>
  | Main_shared shared_io

datatype run_end = Run_returns | Run_throws failure | Run_killed signal | Run_waiting

text \<open>
  \<open>run\<close>. While the main thread waits, the other threads change the shared data: \<open>work\<close>.
  A start that throws has created the UDP thread.
\<close>

definition server_run :: "('a shared_data \<Rightarrow> 'a shared_data) \<Rightarrow> process \<Rightarrow> main_event list \<Rightarrow> main_event list \<Rightarrow>
    exit_state \<Rightarrow> 'a shared_data \<Rightarrow> main_io list \<times> run_end \<times> exit_state \<times> 'a shared_data" where
  "server_run work p early late x sd =
     (let io = [Running_flag True] in
      case sd_start sd of
        Inl e \<Rightarrow> (io, Run_throws e, x, sd\<lparr>sd_udp_threads := Suc (sd_udp_threads sd)\<rparr>)
      | Inr (started, sd) \<Rightarrow>
          let io = io @ map Main_shared started; sd = work sd
          in case main_early p early x of
               (Some s, x) \<Rightarrow> (io, Run_killed s, x, sd)
             | (None, x) \<Rightarrow>
                 (case main_wait p late x of
                    (Woken, x) \<Rightarrow> (io @ [Running_flag False], Run_returns, x, sd)
                  | (Killed s, x) \<Rightarrow> (io, Run_killed s, x, sd)
                  | (Waiting, x) \<Rightarrow> (io, Run_waiting, x, sd)))"

definition server_destroy :: "'a shared_data \<Rightarrow> main_io list \<times> 'a shared_data" where
  "server_destroy sd =
     (let io = [Running_flag False]; (stopped, sd) = sd_stop sd
      in (io @ map Main_shared stopped, sd))"

section \<open>main\<close>

datatype main_end = Main_return int | Main_exit int | Main_killed signal | Main_waiting

record 'a main_env =
  me_default_config_file :: "string option"
  me_args :: args_env
  me_process :: process
  me_conf :: "'a conf_env"
  me_open :: "string \<Rightarrow> string option"     \<comment> \<open>the text of the proxy configuration file\<close>
  me_work :: "'a shared_data \<Rightarrow> 'a shared_data"

text \<open>
  \<open>args\<close> is constructed before \<open>main\<close>, when the names of the server are still empty. The
  process that goes on after \<open>args.init\<close> is the daemon if one was asked for, and its
  \<open>global_running_flag\<close> is set if it has a guardian.
\<close>

definition main_info :: server_info where
  "main_info = server_info_init ''proxy'' ''faraway_proxy'' ''faraway_proxy 1.0.000''"

definition main_init :: "'a main_env \<Rightarrow> string list \<Rightarrow> args_io list \<times> args_end" where
  "main_init env argv =
     sa_init (me_args env) (me_default_config_file env) main_info (me_process env) argv
       (server_args_new (me_default_config_file env) (server_info_init [] [] []))"

definition main_process :: "'a main_env \<Rightarrow> server_args \<Rightarrow> process" where
  "main_process env a =
     (if sa_daemon_flag a then snd (daemonize (ae_daemon (me_args env)) (me_process env)) else me_process env)"

definition main_exit_state :: "server_args \<Rightarrow> exit_state" where
  "main_exit_state a = \<lparr>ex_running_flag = (if sa_guardian_flag a then Some True else None), ex_notified = 0\<rparr>"

definition proxy_main :: "'a::linorder main_env \<Rightarrow> string list \<Rightarrow> main_event list \<Rightarrow> main_event list \<Rightarrow>
    main_io list \<times> main_end \<times> exit_state" where
  "proxy_main env argv early late =
     (case main_init env argv of
        (io, Args_exit code) \<Rightarrow> (map Main_args io, Main_exit code, \<lparr>ex_running_flag = None, ex_notified = 0\<rparr>)
      | (io, Args_returns a) \<Rightarrow>
          let io = map Main_args io @ [Main_log ''faraway_proxy launched'']; x = main_exit_state a
          in case sd_init (me_conf env) (unat (sa_network_thread_num a)) (me_open env (sa_proxy_config_file a))
                    new_shared_data of
               Inl _ \<Rightarrow> (io @ [Main_error], Main_return 1, x)
             | Inr c \<Rightarrow>
                 (case server_run (me_work env) (main_process env a) early late x (cf_sd c) of
                    (io', Run_returns, x, sd) \<Rightarrow>
                      (io @ io' @ [Main_log ''faraway_proxy stoped''] @ fst (server_destroy sd), Main_return 0, x)
                  | (io', Run_throws _, x, sd) \<Rightarrow>
                      (io @ io' @ fst (server_destroy sd) @ [Main_error], Main_return 1, x)
                  | (io', Run_killed s, x, sd) \<Rightarrow> (io @ io', Main_killed s, x)
                  | (io', Run_waiting, x, sd) \<Rightarrow> (io @ io', Main_waiting, x)))"

section \<open>Properties\<close>

text \<open>The threads that run meanwhile create and end no thread of the process and no service.\<close>

definition work_law :: "('a shared_data \<Rightarrow> 'a shared_data) \<Rightarrow> bool" where
  "work_law work \<longleftrightarrow> (\<forall>sd. sd_pool (work sd) = sd_pool sd \<and> sd_udp_threads (work sd) = sd_udp_threads sd)"

text \<open>What the start does, and what the destructor does after it.\<close>

definition started_io :: "nat \<Rightarrow> main_io list" where
  "started_io n = [Running_flag True, Main_shared Udp_thread_create] @
     map (Main_shared \<circ> Pool_io \<circ> Thread_run) [0..<n]"

definition stopped_io :: "nat \<Rightarrow> nat \<Rightarrow> main_io list" where
  "stopped_io n ip_threads =
     [Running_flag False, Main_shared (Udp_join 1), Main_shared (Ip_join ip_threads), Main_shared (Sleep_ms 100)] @
     map (Main_shared \<circ> Pool_io \<circ> Service_stop) [0..<n] @ map (Main_shared \<circ> Pool_io \<circ> Thread_join) [0..<n]"

definition run_outcome :: "process \<Rightarrow> main_event list \<Rightarrow> main_event list \<Rightarrow> exit_state \<Rightarrow> wait_end \<times> exit_state" where
  "run_outcome p early late x =
     (case main_early p early x of (Some s, x) \<Rightarrow> (Killed s, x) | (None, x) \<Rightarrow> main_wait p late x)"

fun wait_result :: "wait_end \<Rightarrow> main_end" where
  "wait_result Woken = Main_return 0"
| "wait_result (Killed s) = Main_killed s"
| "wait_result Waiting = Main_waiting"

lemma start_work_stop:
  assumes "sd_pool sd = Some q" and "pool_ok n q" and "pl_step q = BEGIN" and "sd_udp_threads sd = 0" and "work_law work"
  obtains sd' where "sd_start sd = Inr (Udp_thread_create # map (Pool_io \<circ> Thread_run) [0..<n], sd')"
    and "fst (server_destroy (work sd')) = stopped_io n (ipx_threads (us_x (sd_udp (work sd'))))"
proof -
  define q' where "q' = q\<lparr>pl_step := START, pl_threads := [0..<n]\<rparr>"
  define sd' where "sd' = sd\<lparr>sd_udp_threads := 1, sd_pool := Some q'\<rparr>"
  have start: "sd_start sd = Inr (Udp_thread_create # map (Pool_io \<circ> Thread_run) [0..<n], sd')"
    using assms(1-4) by (simp add: sd_start_def pool_start_def pool_ok_def Let_def sd'_def q'_def)
  have pool: "sd_pool (work sd') = Some q'" and udp: "sd_udp_threads (work sd') = 1"
    using assms(5) by (simp_all add: work_law_def sd'_def)
  have "fst (server_destroy (work sd')) = stopped_io n (ipx_threads (us_x (sd_udp (work sd'))))"
    using assms(2)
    by (simp add: server_destroy_def sd_stop_def pool udp q'_def pool_stop_def pool_join_def pool_ok_def
        Let_def case_prod_unfold stopped_io_def)
  then show thesis using that start by blast
qed

lemma server_run_outcome:
  assumes "sd_start sd = Inr (io, sd')"
  shows "server_run work p early late x sd =
    (let (w, x) = run_outcome p early late x; io = Running_flag True # map Main_shared io in
     case w of
       Woken \<Rightarrow> (io @ [Running_flag False], Run_returns, x, work sd')
     | Killed s \<Rightarrow> (io, Run_killed s, x, work sd')
     | Waiting \<Rightarrow> (io, Run_waiting, x, work sd'))"
  by (simp add: server_run_def assms run_outcome_def Let_def split: prod.split option.split wait_end.split)

lemma main_ends:
  assumes "main_init env argv = (args_io, Args_returns a)" and "work_law (me_work env)"
    and "run_outcome (main_process env a) early late (main_exit_state a) = (w, x)"
  shows "\<exists>ip_threads. proxy_main env argv early late =
    (map Main_args args_io @ [Main_log ''faraway_proxy launched''] @ started_io (unat (sa_network_thread_num a)) @
       (if w = Woken
        then [Running_flag False, Main_log ''faraway_proxy stoped''] @ stopped_io (unat (sa_network_thread_num a)) ip_threads
        else []),
     wait_result w, x)"
proof -
  let ?n = "unat (sa_network_thread_num a)"
  have "sa_network_thread_num a \<noteq> 0"
    using sa_init_returns [of "me_args env" "me_default_config_file env" main_info "me_process env" argv
        "server_args_new (me_default_config_file env) (server_info_init [] [] [])" a] assms(1)
    by (simp add: main_init_def)
  then have n: "0 < ?n" by (simp add: unat_gt_0)
  obtain c where c: "sd_init (me_conf env) ?n (me_open env (sa_proxy_config_file a)) new_shared_data = Inr c"
      "\<exists>q. sd_pool (cf_sd c) = Some q \<and> pool_ok ?n q \<and> pl_step q = BEGIN" "sd_udp_threads (cf_sd c) = 0"
    using sd_init_ok [OF n, of "me_conf env" "me_open env (sa_proxy_config_file a)"] by blast
  then obtain q where q: "sd_pool (cf_sd c) = Some q" "pool_ok ?n q" "pl_step q = BEGIN" by blast
  obtain sd where sd: "sd_start (cf_sd c) = Inr (Udp_thread_create # map (Pool_io \<circ> Thread_run) [0..<?n], sd)"
    "fst (server_destroy (me_work env sd)) = stopped_io ?n (ipx_threads (us_x (sd_udp (me_work env sd))))"
    by (rule start_work_stop [OF q c(3) assms(2)])
  note run = server_run_outcome [OF sd(1), of "me_work env" "main_process env a" early late "main_exit_state a",
      unfolded assms(3)]
  show ?thesis
    by (cases w)
      (simp_all add: proxy_main_def assms(1) c(1) run Let_def sd(2) started_io_def comp_assoc
        exI [of _ "ipx_threads (us_x (sd_udp (me_work env sd)))"])
qed


text \<open>A daemon with two rules in its configuration; the other threads change no thread and no service.\<close>

definition demo_main_env :: "nat main_env" where
  "demo_main_env =
     \<lparr>me_default_config_file = None,
      me_args = demo_args_env\<lparr>ae_parse_command_line :=
        (\<lambda>_ _. Some (\<lambda>name. if name = ''daemon'' then Some (OV_bool True) else None))\<rparr>,
      me_process = demo_process, me_conf = demo_conf_env,
      me_open = (\<lambda>path. if path = ''proxy.conf'' then Some (''ip 70 x'') else None), me_work = id\<rparr>"

lemma demo_main_init:
  obtains io a where "main_init demo_main_env argv = (io, Args_returns a)" and "sa_daemon_flag a"
    and "\<not> sa_guardian_flag a" and "sa_network_thread_num a = 2"
proof -
  have "main_init demo_main_env argv = main_init demo_main_env []"
    by (simp add: main_init_def demo_main_env_def sa_init_def demo_args_env_def Let_def)
  moreover have "(case snd (main_init demo_main_env []) of
      Args_returns a \<Rightarrow> sa_daemon_flag a \<and> \<not> sa_guardian_flag a \<and> sa_network_thread_num a = 2
    | Args_exit _ \<Rightarrow> False)"
    by code_simp
  ultimately show thesis
    using that by (cases "main_init demo_main_env []") (auto split: args_end.splits)
qed

lemma demo_main_process: "sa_daemon_flag a \<Longrightarrow> pr_signals (main_process demo_main_env a) SIGTERM = Some Terminate_handler"
  by (simp add: main_process_def demo_main_env_def demo_args_env_def daemonize_def Let_def pr_open_def pr_close_def
      upt_rec)




end
