(* ===== verification/Xthread.thy ===== *)
theory Xthread
  imports Prelude
begin

text \<open>
  \<open>xthread.h\<close> and \<open>xthread.cpp\<close>: a recursive mutex with a priority level. Every thread keeps
  a stack of the levels it holds, and locking a level that is not above the top of the stack
  throws. \<open>boost::recursive_mutex\<close> is an owner and a depth; locking one that another thread
  owns blocks, which is the result \<open>None\<close>. The condition variable releases a mutex
  completely while it waits and takes it back to the same depth.
\<close>

section \<open>State\<close>

record xmutex =
  xm_recursion_count :: int
  xm_pri_level :: int
  xm_owner :: "nat option"
  xm_depth :: nat

text \<open>A stack of levels, the top first; \<open>None\<close> where a thread has not allocated its own.\<close>

type_synonym quick_int_stack = "int list"

record xsys =
  xs_mutex :: "nat \<Rightarrow> xmutex"
  xs_levels :: "nat \<Rightarrow> quick_int_stack option"

definition NOCARE_PRIMARY_LEVEL :: int where "NOCARE_PRIMARY_LEVEL = - 1"
definition MAX_STACK_ELEMENT :: nat where "MAX_STACK_ELEMENT = 1024"

definition xmutex_new :: "int \<Rightarrow> failure + xmutex" where
  "xmutex_new pri_level =
     (if pri_level < NOCARE_PRIMARY_LEVEL then Inl Assert_failed
      else Inr \<lparr>xm_recursion_count = 0, xm_pri_level = pri_level, xm_owner = None, xm_depth = 0\<rparr>)"

section \<open>quick_int_stack\<close>

definition qis_empty :: "quick_int_stack \<Rightarrow> bool" where
  "qis_empty st \<longleftrightarrow> st = []"

definition qis_top :: "quick_int_stack \<Rightarrow> failure + int" where
  "qis_top st = (case st of [] \<Rightarrow> Inl Out_of_bounds | x # _ \<Rightarrow> Inr x)"

definition qis_push :: "int \<Rightarrow> quick_int_stack \<Rightarrow> failure + quick_int_stack" where
  "qis_push i st = (if MAX_STACK_ELEMENT \<le> length st then Inl Out_of_bounds else Inr (i # st))"

definition qis_pop :: "quick_int_stack \<Rightarrow> quick_int_stack" where
  "qis_pop st = tl st"

section \<open>xrecursive_mutex\<close>

definition boost_lock :: "nat \<Rightarrow> xmutex \<Rightarrow> xmutex option" where
  "boost_lock t m =
     (if xm_owner m = None \<or> xm_owner m = Some t
      then Some (m\<lparr>xm_owner := Some t, xm_depth := Suc (xm_depth m)\<rparr>) else None)"

definition boost_unlock :: "xmutex \<Rightarrow> xmutex" where
  "boost_unlock m =
     (let m = m\<lparr>xm_depth := xm_depth m - 1\<rparr> in if xm_depth m = 0 then m\<lparr>xm_owner := None\<rparr> else m)"

definition xs_put :: "nat \<Rightarrow> xmutex \<Rightarrow> xsys \<Rightarrow> xsys" where
  "xs_put i m s = s\<lparr>xs_mutex := (xs_mutex s)(i := m)\<rparr>"

definition xs_set_levels :: "nat \<Rightarrow> quick_int_stack \<Rightarrow> xsys \<Rightarrow> xsys" where
  "xs_set_levels t st s = s\<lparr>xs_levels := (xs_levels s)(t := Some st)\<rparr>"

text \<open>
  \<open>lock\<close> by thread \<open>t\<close>: \<open>None\<close> while it blocks, otherwise what it throws, if anything, and
  the state it leaves behind.
\<close>

definition xlock :: "nat \<Rightarrow> nat \<Rightarrow> xsys \<Rightarrow> (failure option \<times> xsys) option" where
  "xlock t i s =
     (case boost_lock t (xs_mutex s i) of
        None \<Rightarrow> None
      | Some m \<Rightarrow>
          let m = m\<lparr>xm_recursion_count := i32 (xm_recursion_count m + 1)\<rparr>;
              s = xs_put i m s
          in if xm_pri_level m \<noteq> NOCARE_PRIMARY_LEVEL \<and> xm_recursion_count m = 1 then
               let pri_levels = (case xs_levels s t of None \<Rightarrow> [] | Some st \<Rightarrow> st);
                   s = xs_set_levels t pri_levels s
               in if \<not> qis_empty pri_levels \<and> xm_pri_level m \<le> hd pri_levels
                  then Some (Some Assert_failed,
                    xs_put i (boost_unlock (m\<lparr>xm_recursion_count := i32 (xm_recursion_count m - 1)\<rparr>)) s)
                  else (case qis_push (xm_pri_level m) pri_levels of
                          Inl e \<Rightarrow> Some (Some e, s)
                        | Inr st \<Rightarrow> Some (None, xs_set_levels t st s))
             else Some (None, s))"

text \<open>\<open>unlock\<close> by the thread that holds the mutex; the flag tells whether an error is logged.\<close>

definition xunlock :: "nat \<Rightarrow> nat \<Rightarrow> xsys \<Rightarrow> bool \<times> xsys" where
  "xunlock t i s =
     (let m = xs_mutex s i;
          (logged, s) =
            (case xs_levels s t of
               Some st \<Rightarrow>
                 if xm_pri_level m \<noteq> NOCARE_PRIMARY_LEVEL \<and> xm_recursion_count m = 1 then
                   (if \<not> qis_empty st \<and> hd st = xm_pri_level m
                    then (False, xs_set_levels t (qis_pop st) s) else (True, s))
                 else (False, s)
             | None \<Rightarrow> (False, s))
      in (logged, xs_put i (boost_unlock (m\<lparr>xm_recursion_count := i32 (xm_recursion_count m - 1)\<rparr>)) s))"

section \<open>condition_variable_recursive_mutex\<close>

definition xcheck :: "nat \<Rightarrow> nat \<Rightarrow> xsys \<Rightarrow> bool" where
  "xcheck t i s \<longleftrightarrow>
     xm_pri_level (xs_mutex s i) = NOCARE_PRIMARY_LEVEL \<or>
     (case xs_levels s t of
        None \<Rightarrow> False
      | Some st \<Rightarrow> \<not> qis_empty st \<and> hd st = xm_pri_level (xs_mutex s i))"

fun xunlock_times :: "nat \<Rightarrow> nat \<Rightarrow> nat \<Rightarrow> xsys \<Rightarrow> xsys" where
  "xunlock_times 0 t i s = s"
| "xunlock_times (Suc k) t i s = xunlock_times k t i (snd (xunlock t i s))"

fun xlock_times :: "nat \<Rightarrow> nat \<Rightarrow> nat \<Rightarrow> xsys \<Rightarrow> (failure option \<times> xsys) option" where
  "xlock_times 0 t i s = Some (None, s)"
| "xlock_times (Suc k) t i s =
     (case xlock t i s of
        Some (None, s) \<Rightarrow> xlock_times k t i s
      | r \<Rightarrow> r)"

text \<open>
  \<open>wait\<close> and \<open>timed_wait\<close> up to the point where the thread sleeps: the number of extra locks
  given up and the state; then, once it is woken or its time is over, from there on. They
  differ only in the flag \<open>timed_wait\<close> returns, which is what \<open>cond.timed_wait\<close> returned.
\<close>

definition xwait_sleep :: "nat \<Rightarrow> nat \<Rightarrow> xsys \<Rightarrow> (failure + nat) \<times> xsys" where
  "xwait_sleep t i s =
     (if \<not> xcheck t i s then (Inl Assert_failed, s)
      else
        let extra_lock = nat (xm_recursion_count (xs_mutex s i) - 1);
            s = xunlock_times extra_lock t i s
        in if xm_recursion_count (xs_mutex s i) \<noteq> 1 then (Inl Assert_failed, s)
           else (Inr extra_lock, snd (xunlock t i s)))"

definition xwait_wake :: "nat \<Rightarrow> nat \<Rightarrow> nat \<Rightarrow> xsys \<Rightarrow> (failure option \<times> xsys) option" where
  "xwait_wake extra_lock t i s =
     (case xlock t i s of
        Some (None, s) \<Rightarrow> xlock_times extra_lock t i s
      | r \<Rightarrow> r)"

definition xtimed_wait_wake :: "bool \<Rightarrow> nat \<Rightarrow> nat \<Rightarrow> nat \<Rightarrow> xsys \<Rightarrow> (bool \<times> failure option \<times> xsys) option" where
  "xtimed_wait_wake notified extra_lock t i s =
     map_option (\<lambda>(e, s). (notified, e, s)) (xwait_wake extra_lock t i s)"

section \<open>Threads that nest their locks\<close>

text \<open>
  \<open>lock\<close> and \<open>unlock\<close> are private; the class hands them out as \<open>scoped_lock\<close>, whose
  destructor unlocks. So a thread unlocks only what it holds and in the reverse order: the
  mutex whose level is on top of its stack, or one it still holds afterwards, or one without
  a level.
\<close>

definition xnested :: "nat \<Rightarrow> nat \<Rightarrow> xsys \<Rightarrow> bool" where
  "xnested t i s \<longleftrightarrow> xm_owner (xs_mutex s i) = Some t \<and>
     (1 < xm_recursion_count (xs_mutex s i) \<or> xcheck t i s)"

definition xs_init :: "xsys \<Rightarrow> bool" where
  "xs_init s \<longleftrightarrow> (\<forall>t. xs_levels s t = None) \<and>
     (\<forall>i. xmutex_new (xm_pri_level (xs_mutex s i)) = Inr (xs_mutex s i))"

text \<open>
  A step of some thread. A depth of \<open>2 ^ 31 - 1\<close> and a thread that holds more than 1024
  levels are left out: one thread would have to nest so many scopes.
\<close>

inductive xstep :: "xsys \<Rightarrow> xsys \<Rightarrow> bool" where
  xstep_lock: "xm_recursion_count (xs_mutex s i) < 2147483647 \<Longrightarrow> xlock t i s = Some (e, s') \<Longrightarrow>
     e \<noteq> Some Out_of_bounds \<Longrightarrow> xstep s s'"
| xstep_unlock: "xnested t i s \<Longrightarrow> xunlock t i s = (logged, s') \<Longrightarrow> xstep s s'"

end
