(* ===== verification/Xthread_Props.thy ===== *)
theory Xthread_Props
  imports Xthread
begin

text \<open>
  The mutexes in every state that threads with nested locks reach: the stack of a thread
  lists the levels it holds in strict order. From there: what \<open>lock\<close> does, how a wait gives
  up and takes back a mutex, and how the order of levels relates to deadlock.
\<close>

section \<open>A mutex at a depth\<close>

definition xm_at :: "xmutex \<Rightarrow> nat \<Rightarrow> nat \<Rightarrow> xmutex" where
  "xm_at m t d = m\<lparr>xm_recursion_count := int d, xm_owner := (if d = 0 then None else Some t), xm_depth := d\<rparr>"

definition levels_of :: "xsys \<Rightarrow> nat \<Rightarrow> int list" where
  "levels_of s t = (case xs_levels s t of None \<Rightarrow> [] | Some st \<Rightarrow> st)"

lemma xm_at_simps [simp]:
  "xm_recursion_count (xm_at m t d) = int d" "xm_pri_level (xm_at m t d) = xm_pri_level m"
  "xm_depth (xm_at m t d) = d" "xm_at (xm_at m t d) u e = xm_at m u e"
  "xm_owner (xm_at m t d) = (if d = 0 then None else Some t)"
  by (simp_all add: xm_at_def)

lemma boost_lock_at [simp]:
  "boost_lock t (xm_at m t d) = Some (xm_at m t (Suc d)\<lparr>xm_recursion_count := int d\<rparr>)"
  by (simp add: boost_lock_def xm_at_def)

lemma boost_unlock_at [simp]:
  "boost_unlock (xm_at m t (Suc d)\<lparr>xm_recursion_count := int d\<rparr>) = xm_at m t d"
  by (simp add: boost_unlock_def xm_at_def Let_def)

lemma xm_at_count [simp]:
  "(xm_at m t d)\<lparr>xm_recursion_count := int d\<rparr> = xm_at m t d"
  "(xm_at m t d)\<lparr>xm_recursion_count := x, xm_recursion_count := y\<rparr> = (xm_at m t d)\<lparr>xm_recursion_count := y\<rparr>"
  by (simp_all add: xm_at_def)

lemma xs_put_simps [simp]:
  "xs_mutex (xs_put i m s) = (xs_mutex s)(i := m)" "xs_levels (xs_put i m s) = xs_levels s"
  "xs_mutex (xs_set_levels t st s) = xs_mutex s" "xs_levels (xs_set_levels t st s) = (xs_levels s)(t := Some st)"
  "levels_of (xs_put i m s) = levels_of s"
  by (auto simp: xs_put_def xs_set_levels_def levels_of_def)

lemma levels_of_set [simp]: "levels_of (xs_set_levels t st s) = (levels_of s)(t := st)"
  by (auto simp: levels_of_def)

lemma xm_at_up: "(xm_at m t (Suc d))\<lparr>xm_recursion_count := int d + 1\<rparr> = xm_at m t (Suc d)"
  by (simp add: xm_at_def)

lemma xs_put_set:
  "xs_put i m (xs_set_levels t st s) = xs_set_levels t st (xs_put i m s)"
  "xs_put i m (xs_put i m' s) = xs_put i m s"
  "xs_set_levels t st (xs_set_levels t st' s) = xs_set_levels t st s"
  "xs_mutex s i = m \<Longrightarrow> xs_put i m s = s"
  by (auto simp: xs_put_def xs_set_levels_def)

lemma i32_depth: "int d < 2147483647 \<Longrightarrow> i32 (int d + 1) = int (Suc d)"
  by (simp add: i32_id in_i32_def)

lemma xlock_at:
  assumes "xs_mutex s i = xm_at m t d" and "int d < 2147483647"
  shows "xlock t i s =
    (if xm_pri_level m = NOCARE_PRIMARY_LEVEL \<or> 0 < d then Some (None, xs_put i (xm_at m t (Suc d)) s)
     else if levels_of s t \<noteq> [] \<and> xm_pri_level m \<le> hd (levels_of s t)
     then Some (Some Assert_failed, xs_set_levels t (levels_of s t) s)
     else if MAX_STACK_ELEMENT \<le> length (levels_of s t)
     then Some (Some Out_of_bounds, xs_put i (xm_at m t (Suc d)) (xs_set_levels t (levels_of s t) s))
     else Some (None, xs_put i (xm_at m t (Suc d)) (xs_set_levels t (xm_pri_level m # levels_of s t) s)))"
proof -
  define s1 where "s1 = xs_put i (xm_at m t (Suc d)) s"
  have lock: "boost_lock t (xs_mutex s i) = Some ((xm_at m t (Suc d))\<lparr>xm_recursion_count := int d\<rparr>)"
    by (simp only: assms(1) boost_lock_at)
  have count: "i32 (int d + 1) = int d + 1" using i32_depth [OF assms(2)] by simp
  have down: "i32 (int d + 1 - 1) = int d" using assms(2) by (simp add: i32_id in_i32_def)
  have up: "(xm_at m t (Suc d))\<lparr>xm_recursion_count := int d, xm_recursion_count :=
      i32 (xm_recursion_count ((xm_at m t (Suc d))\<lparr>xm_recursion_count := int d\<rparr>) + 1)\<rparr> = xm_at m t (Suc d)"
    by (simp add: count xm_at_up)
  have levels: "(case xs_levels s1 t of None \<Rightarrow> [] | Some st \<Rightarrow> st) = levels_of s t"
    by (simp add: s1_def levels_of_def)
  have "xlock t i s =
     (if xm_pri_level m \<noteq> NOCARE_PRIMARY_LEVEL \<and> d = 0 then
        let s2 = xs_set_levels t (levels_of s t) s1
        in if levels_of s t \<noteq> [] \<and> xm_pri_level m \<le> hd (levels_of s t)
           then Some (Some Assert_failed, xs_put i (xm_at m t d) s2)
           else (case qis_push (xm_pri_level m) (levels_of s t) of
                   Inl e \<Rightarrow> Some (Some e, s2)
                 | Inr st \<Rightarrow> Some (None, xs_set_levels t st s2))
      else Some (None, s1))"
    unfolding xlock_def lock option.case Let_def up s1_def [symmetric] levels
    using boost_unlock_at [where m = m and t = t and d = 0] i32_id [of 0]
    by (simp add: down qis_empty_def in_i32_def cong: if_cong)
  moreover have "xs_put i (xm_at m t d) (xs_set_levels t lv s1) = xs_set_levels t lv s" for lv
    using assms(1) by (simp add: s1_def xs_put_set)
  ultimately show ?thesis
    by (auto simp: qis_push_def Let_def s1_def xs_put_set)
qed

lemma xunlock_at:
  assumes "xs_mutex s i = xm_at m t (Suc d)" and "int d < 2147483647"
  shows "xunlock t i s =
    (if xm_pri_level m = NOCARE_PRIMARY_LEVEL \<or> 0 < d \<or> xs_levels s t = None
     then (False, xs_put i (xm_at m t d) s)
     else if levels_of s t \<noteq> [] \<and> hd (levels_of s t) = xm_pri_level m
     then (False, xs_put i (xm_at m t d) (xs_set_levels t (tl (levels_of s t)) s))
     else (True, xs_put i (xm_at m t d) s))"
proof -
  have "i32 (int (Suc d) - 1) = int d" using assms(2) by (simp add: i32_id in_i32_def)
  then show ?thesis
    using assms by (auto simp: xunlock_def Let_def levels_of_def qis_empty_def qis_pop_def split: option.splits)
qed

section \<open>The invariant\<close>

definition held_levels :: "xsys \<Rightarrow> nat \<Rightarrow> int set" where
  "held_levels s t = {xm_pri_level (xs_mutex s i) | i.
     xm_owner (xs_mutex s i) = Some t \<and> xm_pri_level (xs_mutex s i) \<noteq> NOCARE_PRIMARY_LEVEL}"

text \<open>The levels held by way of the other mutexes.\<close>

definition held_but :: "xsys \<Rightarrow> nat \<Rightarrow> nat \<Rightarrow> int set" where
  "held_but s i t = {xm_pri_level (xs_mutex s j) | j. j \<noteq> i \<and>
     xm_owner (xs_mutex s j) = Some t \<and> xm_pri_level (xs_mutex s j) \<noteq> NOCARE_PRIMARY_LEVEL}"

lemma held_split:
  "held_levels s t = held_but s i t \<union>
     (if xm_owner (xs_mutex s i) = Some t \<and> xm_pri_level (xs_mutex s i) \<noteq> NOCARE_PRIMARY_LEVEL
      then {xm_pri_level (xs_mutex s i)} else {})"
  by (auto simp: held_levels_def held_but_def)

lemma held_but_put [simp]:
  "held_but (xs_put i m s) i t = held_but s i t" "held_but (xs_set_levels u st s) i t = held_but s i t"
proof -
  show "held_but (xs_put i m s) i t = held_but s i t"
    unfolding held_but_def by (intro Collect_cong ex_cong1) auto
qed (simp add: held_but_def)

definition xs_ok :: "xsys \<Rightarrow> bool" where
  "xs_ok s \<longleftrightarrow>
     (\<forall>i. \<exists>m t d. xs_mutex s i = xm_at m t d \<and> int d \<le> 2147483647) \<and>
     (\<forall>t. sorted_wrt (>) (levels_of s t)) \<and>
     (\<forall>t. set (levels_of s t) = held_levels s t) \<and>
     (\<forall>t i j. xm_owner (xs_mutex s i) = Some t \<and> xm_owner (xs_mutex s j) = Some t \<and>
        xm_pri_level (xs_mutex s i) = xm_pri_level (xs_mutex s j) \<and>
        xm_pri_level (xs_mutex s i) \<noteq> NOCARE_PRIMARY_LEVEL \<longrightarrow> i = j)"

lemma xs_ok_init: "xs_init s \<Longrightarrow> xs_ok s"
proof -
  assume init: "xs_init s"
  have at: "xs_mutex s i = xm_at (xs_mutex s i) 0 0" for i
  proof -
    have "\<lparr>xm_recursion_count = 0, xm_pri_level = xm_pri_level (xs_mutex s i), xm_owner = None, xm_depth = 0\<rparr> =
        xs_mutex s i"
      using init by (auto simp: xs_init_def xmutex_new_def split: if_splits)
    then show ?thesis by (cases "xs_mutex s i") (simp add: xm_at_def)
  qed
  have none: "xm_owner (xs_mutex s i) = None" for i by (subst at) simp
  have "\<exists>m t d. xs_mutex s i = xm_at m t d \<and> int d \<le> 2147483647" for i
    by (rule exI [of _ "xs_mutex s i"], rule exI [of _ 0], rule exI [of _ 0]) (simp add: at [symmetric])
  moreover have "levels_of s t = []" for t using init by (simp add: xs_init_def levels_of_def)
  ultimately show "xs_ok s" by (simp add: xs_ok_def held_levels_def none)
qed

lemma xs_ok_mutex:
  assumes "xs_ok s"
  obtains m u d where "xs_mutex s i = xm_at m u d" and "int d \<le> 2147483647"
proof -
  have "\<exists>m u d. xs_mutex s i = xm_at m u d \<and> int d \<le> 2147483647"
    using assms unfolding xs_ok_def by blast
  then show thesis using that by blast
qed

lemma xs_ok_lockable:
  assumes "xs_ok s" and "xlock t i s \<noteq> None"
  obtains m d where "xs_mutex s i = xm_at m t d" and "int d \<le> 2147483647"
proof -
  obtain m u d where m: "xs_mutex s i = xm_at m u d" "int d \<le> 2147483647"
    by (rule xs_ok_mutex [OF assms(1)])
  have "d = 0 \<or> u = t" using assms(2) m(1) by (auto simp: xlock_def boost_lock_def split: if_splits)
  then have "xs_mutex s i = xm_at m t d" using m(1) by (auto simp: xm_at_def)
  with m(2) that show thesis by blast
qed

lemma xs_ok_owned:
  assumes "xs_ok s" and "xm_owner (xs_mutex s i) = Some t"
  obtains m d where "xs_mutex s i = xm_at m t (Suc d)" and "int d < 2147483647"
proof -
  obtain m u d where m: "xs_mutex s i = xm_at m u d" "int d \<le> 2147483647"
    by (rule xs_ok_mutex [OF assms(1)])
  with assms(2) have "u = t" "0 < d" by (auto split: if_splits)
  with m that [of m "d - 1"] show thesis by simp
qed

lemma xm_at_bounded:
  assumes "d \<le> 2147483647"
  shows "\<exists>m' t' d'. xm_at m t d = xm_at m' t' d' \<and> d' \<le> 2147483647"
  by (intro exI [of _ m] exI [of _ t] exI [of _ d]) (simp add: assms)

text \<open>Only the owner and the level of a mutex enter the levels held.\<close>

lemma xs_ok_put:
  assumes ok: "xs_ok s" and m': "m' = xm_at m u d" "int d \<le> 2147483647"
    and level: "xm_pri_level m' = xm_pri_level (xs_mutex s i)"
    and same: "xm_pri_level m' = NOCARE_PRIMARY_LEVEL \<or> xm_owner m' = xm_owner (xs_mutex s i)"
  shows "xs_ok (xs_put i m' s)"
proof -
  have held: "held_levels (xs_put i m' s) = held_levels s"
    using level same by (intro ext) (auto simp: held_split [of _ _ i])
  show ?thesis
    unfolding xs_ok_def held
  proof (intro conjI allI impI)
    show "\<exists>m t d. xs_mutex (xs_put i m' s) j = xm_at m t d \<and> int d \<le> 2147483647" for j
      using ok m' by (cases "j = i") (auto simp: xs_ok_def)
    show "sorted_wrt (>) (levels_of (xs_put i m' s) u)" for u using ok by (simp add: xs_ok_def)
    show "set (levels_of (xs_put i m' s) u) = held_levels s u" for u using ok by (simp add: xs_ok_def)
    show "j = k" if "xm_owner (xs_mutex (xs_put i m' s) j) = Some u \<and> xm_owner (xs_mutex (xs_put i m' s) k) = Some u \<and>
        xm_pri_level (xs_mutex (xs_put i m' s) j) = xm_pri_level (xs_mutex (xs_put i m' s) k) \<and>
        xm_pri_level (xs_mutex (xs_put i m' s) j) \<noteq> NOCARE_PRIMARY_LEVEL" for u j k
    proof -
      have "xm_owner (xs_mutex s j) = Some u" "xm_owner (xs_mutex s k) = Some u"
        "xm_pri_level (xs_mutex s j) = xm_pri_level (xs_mutex s k)" "xm_pri_level (xs_mutex s j) \<noteq> NOCARE_PRIMARY_LEVEL"
        using that level same by (auto split: if_splits)
      then show ?thesis using ok unfolding xs_ok_def by blast
    qed
  qed
qed

lemma xs_ok_levels: "xs_ok s \<Longrightarrow> xs_ok (xs_set_levels t (levels_of s t) s)"
  by (simp add: xs_ok_def held_levels_def)

lemma xs_ok_acquire:
  assumes ok: "xs_ok s" and m: "xs_mutex s i = xm_at m t 0" "xm_pri_level m \<noteq> NOCARE_PRIMARY_LEVEL"
    and top: "levels_of s t = [] \<or> hd (levels_of s t) < xm_pri_level m"
  shows "xs_ok (xs_put i (xm_at m t 1) (xs_set_levels t (xm_pri_level m # levels_of s t) s))"
    (is "xs_ok ?s")
proof -
  have above: "x < xm_pri_level m" if "x \<in> set (levels_of s t)" for x
  proof -
    have "sorted_wrt (>) (levels_of s t)" using ok by (simp add: xs_ok_def)
    then show ?thesis using that top by (cases "levels_of s t") auto
  qed
  have held: "held_levels ?s u = (if u = t then insert (xm_pri_level m) (held_levels s t) else held_levels s u)" for u
    using m by (simp add: held_split [of _ _ i])
  have fresh: "xm_pri_level m \<notin> held_levels s t" using above ok by (auto simp: xs_ok_def)
  show ?thesis
    unfolding xs_ok_def
  proof (intro conjI allI impI)
    show "\<exists>m t d. xs_mutex ?s j = xm_at m t d \<and> int d \<le> 2147483647" for j
      using ok by (cases "j = i") (simp_all add: xs_ok_def xm_at_bounded)
    show "sorted_wrt (>) (levels_of ?s u)" for u
      using ok above by (auto simp: xs_ok_def)
    show "set (levels_of ?s u) = held_levels ?s u" for u
    proof -
      have "set (levels_of s v) = held_levels s v" for v using ok by (simp add: xs_ok_def)
      then show ?thesis unfolding held by simp
    qed
    show "j = k" if "xm_owner (xs_mutex ?s j) = Some u \<and> xm_owner (xs_mutex ?s k) = Some u \<and>
        xm_pri_level (xs_mutex ?s j) = xm_pri_level (xs_mutex ?s k) \<and>
        xm_pri_level (xs_mutex ?s j) \<noteq> NOCARE_PRIMARY_LEVEL" for u j k
      using that ok fresh by (auto simp: xs_ok_def held_levels_def split: if_splits)
  qed
qed

lemma xs_ok_release:
  assumes ok: "xs_ok s" and m: "xs_mutex s i = xm_at m t 1" "xm_pri_level m \<noteq> NOCARE_PRIMARY_LEVEL"
    and top: "levels_of s t \<noteq> []" "hd (levels_of s t) = xm_pri_level m"
  shows "xs_ok (xs_put i (xm_at m t 0) (xs_set_levels t (tl (levels_of s t)) s))" (is "xs_ok ?s")
proof -
  obtain xs where xs: "levels_of s t = xm_pri_level m # xs" using top by (cases "levels_of s t") auto
  have rest: "sorted_wrt (>) xs" "xm_pri_level m \<notin> set xs"
    using ok xs by (force simp: xs_ok_def dest: spec [of _ t])+
  have single: "j = i" if "xm_owner (xs_mutex s j) = Some t" "xm_pri_level (xs_mutex s j) = xm_pri_level m" for j
    using ok that m unfolding xs_ok_def by fastforce
  have held: "held_levels ?s u = (if u = t then held_levels s t - {xm_pri_level m} else held_levels s u)" for u
  proof -
    have "xm_pri_level m \<notin> held_but s i t" using single by (auto simp: held_but_def)
    then show ?thesis using m by (simp add: held_split [of _ _ i])
  qed
  show ?thesis
    unfolding xs_ok_def
  proof (intro conjI allI impI)
    show "\<exists>m t d. xs_mutex ?s j = xm_at m t d \<and> int d \<le> 2147483647" for j
      using ok by (cases "j = i") (simp_all add: xs_ok_def xm_at_bounded)
    show "sorted_wrt (>) (levels_of ?s u)" for u
      using ok rest by (auto simp: xs_ok_def xs)
    show "set (levels_of ?s u) = held_levels ?s u" for u
    proof -
      have "set (levels_of s v) = held_levels s v" for v using ok by (simp add: xs_ok_def)
      from this [of t] this [of u] show ?thesis unfolding held using rest(2) by (auto simp: xs)
    qed
    show "j = k" if "xm_owner (xs_mutex ?s j) = Some u \<and> xm_owner (xs_mutex ?s k) = Some u \<and>
        xm_pri_level (xs_mutex ?s j) = xm_pri_level (xs_mutex ?s k) \<and>
        xm_pri_level (xs_mutex ?s j) \<noteq> NOCARE_PRIMARY_LEVEL" for u j k
      using that ok by (auto simp: xs_ok_def split: if_splits)
  qed
qed

lemma xs_ok_step: "xs_ok s \<Longrightarrow> xstep s s' \<Longrightarrow> xs_ok s'"
proof (erule xstep.cases, goal_cases)
  case (1 s i t e s')
  obtain m d where m: "xs_mutex s i = xm_at m t d" "int d \<le> 2147483647"
    by (rule xs_ok_lockable [of s t i]) (use 1 in auto)
  then have d: "int d < 2147483647" using 1 by simp
  show ?case
  proof (cases "xm_pri_level m = NOCARE_PRIMARY_LEVEL \<or> 0 < d")
    case True
    then have "s' = xs_put i (xm_at m t (Suc d)) s" using 1 xlock_at [OF m(1) d] by auto
    moreover have "xs_ok (xs_put i (xm_at m t (Suc d)) s)"
      using True d 1 by (intro xs_ok_put [of s _ m t "Suc d"]) (auto simp: m(1))
    ultimately show ?thesis using 1 by simp
  next
    case False
    then show ?thesis
      using 1 xlock_at [OF m(1) d] xs_ok_levels [of s t] xs_ok_acquire [of s i m t] m(1)
      by (auto split: if_splits)
  qed
next
  case (2 t i s logged s')
  obtain m d where m: "xs_mutex s i = xm_at m t (Suc d)" "int d < 2147483647"
    by (rule xs_ok_owned [of s i t]) (use 2 in \<open>auto simp: xnested_def\<close>)
  show ?case
  proof (cases "xm_pri_level m = NOCARE_PRIMARY_LEVEL \<or> 0 < d")
    case True
    then have "s' = xs_put i (xm_at m t d) s" using 2 xunlock_at [OF m] by auto
    moreover have "xs_ok (xs_put i (xm_at m t d) s)"
      using True m 2 by (intro xs_ok_put [of s _ m t d]) auto
    ultimately show ?thesis using 2 by simp
  next
    case False
    then have "xcheck t i s" using 2 m(1) by (simp add: xnested_def)
    then have top: "levels_of s t \<noteq> []" "hd (levels_of s t) = xm_pri_level m" "xs_levels s t \<noteq> None"
      using False m(1) by (auto simp: xcheck_def levels_of_def qis_empty_def split: option.splits)
    have "xs_ok (xs_put i (xm_at m t 0) (xs_set_levels t (tl (levels_of s t)) s))"
      using False m(1) top 2 by (intro xs_ok_release) auto
    then show ?thesis using False 2 xunlock_at [OF m] top by auto
  qed
qed

interpretation xsm: step_invariant xs_init xstep xs_ok
  by unfold_locales (blast intro: xs_ok_init xs_ok_step)+

section \<open>What a thread holds and what it may lock\<close>

lemma xs_ok_top:
  assumes "xs_ok s"
  shows "levels_of s t = [] \<or> hd (levels_of s t) < l \<longleftrightarrow> (\<forall>x \<in> held_levels s t. x < l)"
proof -
  have sorted: "sorted_wrt (>) (levels_of s t)" and held: "set (levels_of s t) = held_levels s t"
    using assms by (simp_all add: xs_ok_def)
  have "xs = [] \<or> hd xs < l \<longleftrightarrow> (\<forall>x \<in> set xs. x < l)" if "sorted_wrt (>) xs" for xs
    using that by (cases xs) force+
  from this [OF sorted] show ?thesis by (simp only: held)
qed

text \<open>
  C21. In every state that threads with nested locks reach, the stack of a thread lists, in
  strictly decreasing order, exactly the levels of the mutexes it holds. Locking a free mutex
  with a level succeeds exactly when the level is above every level the thread holds, and then
  the thread owns the mutex once and its stack has grown by the level; otherwise lock throws
  and leaves every mutex and every stack as it was.
\<close>

theorem xlock_checks_order:
  assumes "reachable xs_init xstep s" and "xm_owner (xs_mutex s i) = None"
    and "xm_pri_level (xs_mutex s i) \<noteq> NOCARE_PRIMARY_LEVEL" and "length (levels_of s t) < MAX_STACK_ELEMENT"
  shows "sorted_wrt (>) (levels_of s t) \<and> set (levels_of s t) = held_levels s t \<and>
    (\<exists>e s'. xlock t i s = Some (e, s') \<and>
      (if \<forall>x \<in> held_levels s t. x < xm_pri_level (xs_mutex s i)
       then e = None \<and> xs_mutex s' = (xs_mutex s)(i := xm_at (xs_mutex s i) t 1) \<and>
         levels_of s' = (levels_of s)(t := xm_pri_level (xs_mutex s i) # levels_of s t)
       else e = Some Assert_failed \<and> xs_mutex s' = xs_mutex s \<and> levels_of s' = levels_of s))"
proof -
  have ok: "xs_ok s" using assms(1) by (rule xsm.reachable_inv)
  obtain m u d where m: "xs_mutex s i = xm_at m u d" by (rule xs_ok_mutex [OF ok])
  have "d = 0" using assms(2) unfolding m by (simp split: if_splits)
  then have m0: "xs_mutex s i = xm_at m t 0" unfolding m by (simp add: xm_at_def)
  have pri: "xm_pri_level (xs_mutex s i) = xm_pri_level m" by (simp add: m0)
  have care: "xm_pri_level m \<noteq> NOCARE_PRIMARY_LEVEL" using assms(3) by (simp add: m0)
  have lv: "sorted_wrt (>) (levels_of s t)" "set (levels_of s t) = held_levels s t"
    using ok by (simp_all add: xs_ok_def)
  note lock = xlock_at [OF m0] and top = xs_ok_top [OF ok, of t "xm_pri_level m"]
  show ?thesis
  proof (cases "\<forall>x \<in> held_levels s t. x < xm_pri_level m")
    case True
    then have "\<not> (levels_of s t \<noteq> [] \<and> xm_pri_level m \<le> hd (levels_of s t))" using top by (simp add: not_le)
    then have "xlock t i s =
        Some (None, xs_put i (xm_at m t 1) (xs_set_levels t (xm_pri_level m # levels_of s t) s))"
      using lock care assms(4) by simp
    then show ?thesis using True lv by (simp add: pri) (simp add: m0)
  next
    case False
    then have "levels_of s t \<noteq> [] \<and> xm_pri_level m \<le> hd (levels_of s t)" using top by (metis not_le)
    then have "xlock t i s = Some (Some Assert_failed, xs_set_levels t (levels_of s t) s)"
      using lock care by simp
    then show ?thesis using False lv by (simp add: pri)
  qed
qed

section \<open>Waiting gives up and takes back\<close>

lemma xunlock_times_at:
  assumes "xs_mutex s i = xm_at m t (d + k)" and "0 < d" and "int (d + k) \<le> 2147483647"
  shows "xunlock_times k t i s = xs_put i (xm_at m t d) s"
  using assms
proof (induction k arbitrary: s)
  case 0
  then show ?case by (simp add: xs_put_set)
next
  case (Suc k)
  have at: "xs_mutex s i = xm_at m t (Suc (d + k))" using Suc.prems(1) by simp
  have "xunlock t i s = (False, xs_put i (xm_at m t (d + k)) s)"
    using xunlock_at [OF at] Suc.prems by simp
  then show ?case
    using Suc.IH [of "xs_put i (xm_at m t (d + k)) s"] Suc.prems by (simp add: xs_put_set)
qed

lemma xlock_times_at:
  assumes "xs_mutex s i = xm_at m t d" and "0 < d" and "int (d + k) \<le> 2147483647"
  shows "xlock_times k t i s = Some (None, xs_put i (xm_at m t (d + k)) s)"
  using assms
proof (induction k arbitrary: s d)
  case 0
  then show ?case by (simp add: xs_put_set)
next
  case (Suc k)
  have "xlock t i s = Some (None, xs_put i (xm_at m t (Suc d)) s)"
    using xlock_at [OF Suc.prems(1)] Suc.prems by simp
  then show ?case
    using Suc.IH [of "xs_put i (xm_at m t (Suc d)) s" "Suc d"] Suc.prems by (simp add: xs_put_set)
qed

text \<open>
  C35. A thread that waits on a mutex it holds at any depth, with the level on top of its stack,
  leaves it free for the others while it sleeps, and when it wakes in any state in which the
  mutex is free and its own stack is as it left it, it holds the mutex at the same depth and
  has the same stack again. Nothing else changes in either half.
\<close>

theorem xwait_restores:
  assumes "reachable xs_init xstep s" and "xm_owner (xs_mutex s i) = Some t" and "xcheck t i s"
    and "length (levels_of s t) \<le> MAX_STACK_ELEMENT"
  shows "\<exists>k s1. xwait_sleep t i s = (Inr k, s1) \<and> xm_owner (xs_mutex s1 i) = None \<and>
    (\<forall>j. j \<noteq> i \<longrightarrow> xs_mutex s1 j = xs_mutex s j) \<and> (\<forall>u. u \<noteq> t \<longrightarrow> levels_of s1 u = levels_of s u) \<and>
    (\<forall>s2. xs_mutex s2 i = xs_mutex s1 i \<and> levels_of s2 t = levels_of s1 t \<longrightarrow>
       (\<exists>s3. xwait_wake k t i s2 = Some (None, s3) \<and> xs_mutex s3 = (xs_mutex s2)(i := xs_mutex s i) \<and>
          levels_of s3 = (levels_of s2)(t := levels_of s t)))"
proof -
  have ok: "xs_ok s" using assms(1) by (rule xsm.reachable_inv)
  obtain m k where k: "xs_mutex s i = xm_at m t (Suc k)" "int k < 2147483647"
    by (rule xs_ok_owned [OF ok assms(2)])
  then have m: "xs_mutex s i = xm_at m t (1 + k)" "int (1 + k) \<le> 2147483647" by simp_all
  define s0 where "s0 = xs_put i (xm_at m t (Suc 0)) s"
  have s0: "xunlock_times k t i s = s0"
    using xunlock_times_at [OF m(1) _ m(2)] by (simp add: s0_def)
  define lv where "lv = (if xm_pri_level m = NOCARE_PRIMARY_LEVEL then levels_of s t else tl (levels_of s t))"
  have top: "levels_of s t \<noteq> [] \<and> hd (levels_of s t) = xm_pri_level m \<and> xs_levels s t \<noteq> None"
    if "xm_pri_level m \<noteq> NOCARE_PRIMARY_LEVEL"
    using assms(3) that m(1) by (auto simp: xcheck_def levels_of_def qis_empty_def split: option.splits)
  have un: "xs_mutex (snd (xunlock t i s0)) = (xs_mutex s)(i := xm_at m t 0)"
      "levels_of (snd (xunlock t i s0)) = (levels_of s)(t := lv)"
    using xunlock_at [of s0 i m t 0] top by (auto simp: s0_def lv_def xs_put_set)
  have sleep: "xwait_sleep t i s = (Inr k, snd (xunlock t i s0))"
    using assms(3) m(1) s0 by (simp add: xwait_sleep_def Let_def) (simp add: s0_def)
  have wake: "\<exists>s3. xwait_wake k t i s2 = Some (None, s3) \<and> xs_mutex s3 = (xs_mutex s2)(i := xm_at m t (1 + k)) \<and>
      levels_of s3 = (levels_of s2)(t := levels_of s t)"
    if s2: "xs_mutex s2 i = xm_at m t 0" "levels_of s2 t = lv" for s2
  proof -
    have above: "lv = [] \<or> hd lv < xm_pri_level m" "length lv < MAX_STACK_ELEMENT"
      if "xm_pri_level m \<noteq> NOCARE_PRIMARY_LEVEL"
    proof -
      have "sorted_wrt (>) (levels_of s t)" using ok by (simp add: xs_ok_def)
      then show "lv = [] \<or> hd lv < xm_pri_level m" "length lv < MAX_STACK_ELEMENT"
        using top [OF that] that assms(4) by (cases "levels_of s t"; cases "tl (levels_of s t)"; auto simp: lv_def)+
    qed
    define s4 where "s4 = (if xm_pri_level m = NOCARE_PRIMARY_LEVEL then xs_put i (xm_at m t 1) s2
      else xs_put i (xm_at m t 1) (xs_set_levels t (xm_pri_level m # lv) s2))"
    have "xlock t i s2 = Some (None, s4)"
    proof (cases "xm_pri_level m = NOCARE_PRIMARY_LEVEL")
      case False
      then show ?thesis using xlock_at [OF s2(1)] above [OF False] s2(2) by (auto simp: s4_def)
    qed (simp add: xlock_at [OF s2(1)] s4_def)
    moreover have "xs_mutex s4 = (xs_mutex s2)(i := xm_at m t 1)" by (simp add: s4_def)
    moreover have "levels_of s4 = (levels_of s2)(t := levels_of s t)"
      using top s2(2) by (cases "levels_of s t") (auto simp: s4_def lv_def)
    ultimately show ?thesis
      using xlock_times_at [of s4 i m t 1 k] m(2) by (auto simp: xwait_wake_def)
  qed
  show ?thesis
  proof (rule exI [of _ k], rule exI [of _ "snd (xunlock t i s0)"], intro conjI allI impI)
    show "xwait_sleep t i s = (Inr k, snd (xunlock t i s0))" by (rule sleep)
    show "xm_owner (xs_mutex (snd (xunlock t i s0)) i) = None" by (simp add: un)
    show "xs_mutex (snd (xunlock t i s0)) j = xs_mutex s j" if "j \<noteq> i" for j using that by (simp add: un)
    show "levels_of (snd (xunlock t i s0)) u = levels_of s u" if "u \<noteq> t" for u using that by (simp add: un)
    fix s2
    assume "xs_mutex s2 i = xs_mutex (snd (xunlock t i s0)) i \<and> levels_of s2 t = levels_of (snd (xunlock t i s0)) t"
    then have "xs_mutex s2 i = xm_at m t 0" "levels_of s2 t = lv" by (simp_all add: un)
    from wake [OF this] show "\<exists>s3. xwait_wake k t i s2 = Some (None, s3) \<and>
        xs_mutex s3 = (xs_mutex s2)(i := xs_mutex s i) \<and> levels_of s3 = (levels_of s2)(t := levels_of s t)"
      by (simp only: m(1))
  qed
qed

section \<open>Order and deadlock\<close>

text \<open>
  Two mutexes of levels 1 and 2 and two threads: the first locks the lower one, the second the
  higher one.
\<close>

definition xdemo0 :: xsys where
  "xdemo0 = \<lparr>xs_mutex = (\<lambda>i. \<lparr>xm_recursion_count = 0, xm_pri_level = (if i = 0 then 1 else if i = 1 then 2 else - 1),
     xm_owner = None, xm_depth = 0\<rparr>), xs_levels = (\<lambda>_. None)\<rparr>"

definition xdemo1 :: xsys where
  "xdemo1 = snd (the (xlock 1 0 xdemo0))"

definition xdemo :: xsys where
  "xdemo = snd (the (xlock 2 1 xdemo1))"

lemmas xeval = xlock_def boost_lock_def boost_unlock_def xs_put_def xs_set_levels_def qis_empty_def qis_push_def
  NOCARE_PRIMARY_LEVEL_def MAX_STACK_ELEMENT_def i32_def xdemo0_def levels_of_def xdemo1_def

lemma xdemo1_reachable: "reachable xs_init xstep xdemo1"
proof -
  have "reachable xs_init xstep xdemo0" by (rule reach_init) (simp add: xs_init_def xmutex_new_def xeval)
  moreover have "xlock 1 0 xdemo0 = Some (None, xdemo1)" "xm_recursion_count (xs_mutex xdemo0 0) < 2147483647"
    by (simp_all add: xeval)
  ultimately show ?thesis using xstep_lock by (metis option.distinct(1) reach_step)
qed

lemma xdemo_reachable: "reachable xs_init xstep xdemo"
proof -
  have "xlock 2 1 xdemo1 = Some (None, xdemo)" "xm_recursion_count (xs_mutex xdemo1 1) < 2147483647"
    by (simp_all add: xdemo_def xeval)
  then show ?thesis using xdemo1_reachable xstep_lock by (metis option.distinct(1) reach_step)
qed

lemma xdemo_fields:
  "xm_owner (xs_mutex xdemo 0) = Some 1" "xm_owner (xs_mutex xdemo 1) = Some 2"
  "xm_pri_level (xs_mutex xdemo 0) = 1" "xm_pri_level (xs_mutex xdemo 1) = 2"
  "levels_of xdemo 1 = [1]" "levels_of xdemo 2 = [2]" "xlock 1 1 xdemo = None" "xlock 2 0 xdemo = None"
  by (simp_all add: xdemo_def xeval)

text \<open>
  C34. The order of levels rules deadlock out: in a set of threads each of which is blocked on a
  mutex with a level that another of them holds, some thread has asked for a level that is not
  above the top of its stack, so that its call would have thrown had the mutex been free.
\<close>

theorem xlock_deadlock_needs_disorder:
  assumes "reachable xs_init xstep s" and "finite W" and "W \<noteq> {}"
    and "\<forall>t \<in> W. xlock t (w t) s = None \<and> xm_pri_level (xs_mutex s (w t)) \<noteq> NOCARE_PRIMARY_LEVEL \<and>
      (\<exists>u \<in> W. xm_owner (xs_mutex s (w t)) = Some u)"
  shows "\<exists>t \<in> W. levels_of s t \<noteq> [] \<and> xm_pri_level (xs_mutex s (w t)) \<le> hd (levels_of s t)"
proof -
  have ok: "xs_ok s" using assms(1) by (rule xsm.reachable_inv)
  let ?l = "\<lambda>t. xm_pri_level (xs_mutex s (w t))"
  have "Max (?l ` W) \<in> ?l ` W" using assms(2,3) by (intro Max_in) simp_all
  then obtain t where t: "t \<in> W" "Max (?l ` W) = ?l t" by blast
  then have max: "?l u \<le> ?l t" if "u \<in> W" for u
    using Max_ge [of "?l ` W" "?l u"] assms(2) that by simp
  obtain u where u: "u \<in> W" "xm_owner (xs_mutex s (w t)) = Some u" using t(1) assms(4) by blast
  have "?l t \<in> held_levels s u" using u(2) t(1) assms(4) by (auto simp: held_levels_def)
  then have "\<not> (levels_of s u = [] \<or> hd (levels_of s u) < ?l u)"
    using xs_ok_top [OF ok, of u "?l u"] max [OF u(1)] by force
  then show ?thesis using u(1) by (intro bexI [of _ u]) auto
qed

lemma xlock_deadlock_needs_disorder_witness:
  "\<exists>t \<in> {1, 2}. levels_of xdemo t \<noteq> [] \<and> xm_pri_level (xs_mutex xdemo (if t = 1 then 1 else 0)) \<le> hd (levels_of xdemo t)"
  using xlock_deadlock_needs_disorder [OF xdemo_reachable, of "{1, 2}" "\<lambda>t. if t = 1 then 1 else 0"]
  by (simp add: xdemo_fields NOCARE_PRIMARY_LEVEL_def)

text \<open>
  But the order is checked only once the mutex has been obtained. Two threads that take two
  mutexes in opposite orders reach a state in which both calls block for ever, although one of
  them violates the order: the check that should report the mistake is never run.
\<close>

lemma xlock_checks_too_late:
  "\<exists>s. reachable xs_init xstep s \<and> xlock 1 1 s = None \<and> xlock 2 0 s = None \<and>
     xm_owner (xs_mutex s 0) = Some 1 \<and> xm_owner (xs_mutex s 1) = Some 2 \<and>
     levels_of s 2 = [2] \<and> xm_pri_level (xs_mutex s 0) = 1"
  using xdemo_reachable xdemo_fields by blast

lemma xlock_checks_order_witness:
  "\<exists>e s'. xlock 1 1 xdemo1 = Some (e, s') \<and> e = None \<and> levels_of s' 1 = [2, 1]"
proof -
  have "held_levels xdemo1 1 = {1}" by (auto simp: held_levels_def xeval)
  then show ?thesis
    using xlock_checks_order [OF xdemo1_reachable, of 1 1] by (auto simp: xeval)
qed

lemma xwait_restores_witness:
  "\<exists>s1. xwait_sleep 1 0 xdemo1 = (Inr 0, s1) \<and> xm_owner (xs_mutex s1 0) = None"
proof -
  have "xm_owner (xs_mutex xdemo1 0) = Some 1" "xcheck 1 0 xdemo1" "length (levels_of xdemo1 1) \<le> MAX_STACK_ELEMENT"
    and "nat (xm_recursion_count (xs_mutex xdemo1 0) - 1) = 0"
    by (simp_all add: xcheck_def xeval)
  then show ?thesis
    using xwait_restores [OF xdemo1_reachable, of 0 1] by (auto simp: xwait_sleep_def Let_def split: if_splits)
qed

end
