(* ===== verification/Xrandom.thy ===== *)
theory Xrandom
  imports Prelude "HOL-Library.Multiset"
begin

unbundle bit_operations_syntax

text \<open>
  The integer part of \<open>xrandom.h\<close> and \<open>xrandom.cpp\<close>: ranges, distinct values and the shuffle.
  \<open>rand()\<close> of the C library is a stream of values, one per call, and \<open>RAND_MAX\<close> is an
  argument. The functions on \<open>float64\<close> are not modelled.
\<close>

section \<open>State\<close>

record rand_env =
  re_rand :: "nat \<Rightarrow> int"      \<comment> \<open>the n-th value of \<open>rand()\<close>\<close>
  re_RAND_MAX :: int

record rng =
  rg_initial_flag :: bool
  rg_srands :: nat            \<comment> \<open>calls of \<open>srand\<close>\<close>
  rg_calls :: nat             \<comment> \<open>calls of \<open>rand\<close>\<close>
  rg_errors :: nat            \<comment> \<open>messages logged\<close>

definition GLOBAL_RAND_MAX :: int where "GLOBAL_RAND_MAX = 2147483647"

text \<open>What the C standard says of \<open>rand\<close>.\<close>

definition rand_law :: "rand_env \<Rightarrow> bool" where
  "rand_law env \<longleftrightarrow> (\<forall>n. 0 \<le> re_rand env n \<and> re_rand env n \<le> re_RAND_MAX env)"

section \<open>Operations\<close>

definition rg_initial :: "rng \<Rightarrow> rng" where
  "rg_initial g =
     (if \<not> rg_initial_flag g then g\<lparr>rg_srands := Suc (rg_srands g), rg_initial_flag := True\<rparr> else g)"

definition rg_rand :: "rand_env \<Rightarrow> rng \<Rightarrow> int \<times> rng" where
  "rg_rand env g = (re_rand env (rg_calls g), g\<lparr>rg_calls := Suc (rg_calls g)\<rparr>)"

definition rg_err :: "rng \<Rightarrow> rng" where
  "rg_err g = g\<lparr>rg_errors := Suc (rg_errors g)\<rparr>"

definition rand_int32 :: "rand_env \<Rightarrow> rng \<Rightarrow> int \<times> rng" where
  "rand_int32 env g =
     (let g = rg_initial g in
      if re_RAND_MAX env = 32767 then
        let (a, g) = rg_rand env g; i = push_bit 30 (a smod 2);
            (b, g) = rg_rand env g; i = i OR push_bit 15 b;
            (c, g) = rg_rand env g; i = i OR c
        in (i, g)
      else if re_RAND_MAX env = GLOBAL_RAND_MAX then rg_rand env g
      else rg_rand env (rg_err g))"

definition bool_T_F :: "rand_env \<Rightarrow> rng \<Rightarrow> bool \<times> rng" where
  "bool_T_F env g = (let (r, g) = rg_rand env (rg_initial g) in (r smod 2 = 0, g))"

definition int32_0_1 :: "rand_env \<Rightarrow> rng \<Rightarrow> int \<times> rng" where
  "int32_0_1 env g = (let (r, g) = rg_rand env (rg_initial g) in (r smod 2, g))"

definition uint32_0_1 :: "rand_env \<Rightarrow> rng \<Rightarrow> 32 word \<times> rng" where
  "uint32_0_1 env g = (let (r, g) = rg_rand env (rg_initial g) in (word_of_int (r smod 2), g))"

definition int32_range :: "rand_env \<Rightarrow> int \<Rightarrow> int \<Rightarrow> rng \<Rightarrow> failure + (int \<times> rng)" where
  "int32_range env lo hi g =
     (let g = rg_initial g;
          (hi, g) = (if hi < lo then (lo, rg_err g) else (hi, g));
          (r, g) = rand_int32 env g;
          span = i32 (i32 (hi - lo) + 1)
      in if span = 0 then Inl Division_by_zero else Inr (i32 (r smod span + lo), g))"

text \<open>The operands of \<open>%\<close> are converted to unsigned.\<close>

definition uint32_range :: "rand_env \<Rightarrow> 32 word \<Rightarrow> 32 word \<Rightarrow> rng \<Rightarrow> failure + (32 word \<times> rng)" where
  "uint32_range env lo hi g =
     (let g = rg_initial g;
          (lo, g) = (if word_of_int GLOBAL_RAND_MAX < lo then (word_of_int GLOBAL_RAND_MAX, rg_err g) else (lo, g));
          (hi, g) = (if word_of_int GLOBAL_RAND_MAX < hi then (word_of_int GLOBAL_RAND_MAX, rg_err g) else (hi, g));
          (hi, g) = (if hi < lo then (lo, rg_err g) else (hi, g));
          (r, g) = rand_int32 env g;
          span = hi - lo + 1
      in if span = 0 then Inl Division_by_zero else Inr (word_of_int r mod span + lo, g))"

text \<open>
  The loop that fills one slot draws until the value is new. It may draw for ever, so it has
  fuel, and \<open>None\<close> is a loop that has not ended yet.
\<close>

fun unique_slot :: "nat \<Rightarrow> rand_env \<Rightarrow> int \<Rightarrow> int \<Rightarrow> nat \<Rightarrow> int list \<Rightarrow> rng \<Rightarrow> (failure + (int list \<times> rng)) option" where
  "unique_slot 0 env lo hi i buf g = None"
| "unique_slot (Suc fuel) env lo hi i buf g =
     (if length buf \<le> i then Some (Inl Out_of_bounds)
      else
        case int32_range env lo hi g of
          Inl e \<Rightarrow> Some (Inl e)
        | Inr (v, g) \<Rightarrow>
            let buf = buf[i := v] in
            if buf ! i \<in> set (take i buf) then unique_slot fuel env lo hi i buf g
            else Some (Inr (buf, g)))"

fun unique_slots :: "nat \<Rightarrow> rand_env \<Rightarrow> int \<Rightarrow> int \<Rightarrow> nat list \<Rightarrow> int list \<Rightarrow> rng \<Rightarrow> (failure + (int list \<times> rng)) option" where
  "unique_slots fuel env lo hi [] buf g = Some (Inr (buf, g))"
| "unique_slots fuel env lo hi (i # is) buf g =
     (case unique_slot fuel env lo hi i buf g of
        Some (Inr (buf, g)) \<Rightarrow> unique_slots fuel env lo hi is buf g
      | r \<Rightarrow> r)"

definition unique_assign :: "nat \<Rightarrow> rand_env \<Rightarrow> int list \<Rightarrow> int \<Rightarrow> int \<Rightarrow> int \<Rightarrow> rng \<Rightarrow>
    (failure + (bool \<times> int list \<times> rng)) option" where
  "unique_assign fuel env buf sz lo hi g =
     (if hi < lo \<or> i32 (i32 (hi - lo) + 1) < sz then Some (Inr (False, buf, g))
      else
        case unique_slots fuel env lo hi [0..<nat sz] buf g of
          None \<Rightarrow> None
        | Some (Inl e) \<Rightarrow> Some (Inl e)
        | Some (Inr (buf, g)) \<Rightarrow> Some (Inr (True, buf, g)))"

text \<open>\<open>arrange\<close>: every position is swapped with a random one.\<close>

definition list_swap :: "nat \<Rightarrow> nat \<Rightarrow> 'a list \<Rightarrow> 'a list" where
  "list_swap i j buf = (let temp = buf ! i; buf = buf[i := buf ! j] in buf[j := temp])"

fun arrange_from :: "rand_env \<Rightarrow> int \<Rightarrow> nat list \<Rightarrow> 'a list \<Rightarrow> rng \<Rightarrow> failure + ('a list \<times> rng)" where
  "arrange_from env sz [] buf g = Inr (buf, g)"
| "arrange_from env sz (i # is) buf g =
     and_then (int32_range env 0 (sz - 1) g) (\<lambda>(r, g).
       let j = nat (r smod sz) in
       if length buf \<le> i \<or> length buf \<le> j then Inl Out_of_bounds
       else arrange_from env sz is (list_swap i j buf) g)"

definition arrange :: "rand_env \<Rightarrow> 'a list \<Rightarrow> int \<Rightarrow> rng \<Rightarrow> failure + ('a list \<times> rng)" where
  "arrange env buf sz g =
     (if 0 < sz then arrange_from env sz [0..<nat sz] buf g else Inr (buf, g))"

section \<open>The range\<close>

lemma smod_nonneg: "0 \<le> (a::int) \<Longrightarrow> 0 < b \<Longrightarrow> a smod b = a mod b"
  by (cases "a = 0") (simp_all add: signed_modulo_int_def signed_divide_int_def minus_div_mult_eq_mod [symmetric])

lemma rand_int32_bounds:
  assumes "rand_law env" and "re_RAND_MAX env \<le> GLOBAL_RAND_MAX"
  shows "0 \<le> fst (rand_int32 env g) \<and> fst (rand_int32 env g) \<le> GLOBAL_RAND_MAX"
proof (cases "re_RAND_MAX env = 32767")
  case False
  then show ?thesis
    using assms by (auto simp: rand_int32_def rg_rand_def rand_law_def Let_def intro: order_trans)
next
  case True
  have or_less: "x OR y < 2 ^ n" if "0 \<le> x" "x < 2 ^ n" "0 \<le> y" "y < 2 ^ n" for x y :: int and n
    using that OR_upper by blast
  have r: "0 \<le> re_rand env n" "re_rand env n < 32768" for n
    using assms(1) True by (auto simp: rand_law_def less_le dest: spec [of _ n])
  define a where "a = push_bit 30 (re_rand env (rg_calls (rg_initial g)) smod 2)"
  define b where "b = push_bit 15 (re_rand env (Suc (rg_calls (rg_initial g))))"
  define c where "c = re_rand env (Suc (Suc (rg_calls (rg_initial g))))"
  have a: "0 \<le> a" "a < 2 ^ 31"
    using r [of "rg_calls (rg_initial g)"] by (simp_all add: a_def smod_nonneg push_bit_eq_mult)
  have b: "0 \<le> b" "b < 2 ^ 31"
    using r [of "Suc (rg_calls (rg_initial g))"] by (simp_all add: b_def push_bit_eq_mult)
  have c: "0 \<le> c" "c < 2 ^ 31"
    using r [of "Suc (Suc (rg_calls (rg_initial g)))"] by (simp_all add: c_def)
  have "fst (rand_int32 env g) = (a OR b) OR c"
    by (simp add: rand_int32_def True rg_rand_def Let_def a_def b_def c_def)
  moreover have "0 \<le> a OR b" "a OR b < 2 ^ 31" using a b or_less [of a 31 b] by simp_all
  then have "0 \<le> (a OR b) OR c" "(a OR b) OR c < 2 ^ 31" using c or_less [of "a OR b" 31 c] by simp_all
  ultimately show ?thesis by (simp add: GLOBAL_RAND_MAX_def)
qed

lemma rand_int32_linux:
  "re_RAND_MAX env = GLOBAL_RAND_MAX \<Longrightarrow> rand_int32 env g =
     (re_rand env (rg_calls g), (rg_initial g)\<lparr>rg_calls := Suc (rg_calls g)\<rparr>)"
  by (simp add: rand_int32_def GLOBAL_RAND_MAX_def rg_rand_def rg_initial_def Let_def)

lemma rg_initial_idem [simp]: "rg_initial (rg_initial g) = rg_initial g"
  by (simp add: rg_initial_def)

lemma int32_range_value:
  assumes "rand_law env" and "re_RAND_MAX env \<le> GLOBAL_RAND_MAX" and "in_i32 lo" and "in_i32 hi"
    and "lo \<le> hi" and "hi - lo < 2147483647"
  shows "int32_range env lo hi g =
    Inr (lo + fst (rand_int32 env (rg_initial g)) mod (hi - lo + 1), snd (rand_int32 env (rg_initial g)))"
proof -
  let ?r = "fst (rand_int32 env (rg_initial g))"
  have span: "i32 (i32 (hi - lo) + 1) = hi - lo + 1"
    using assms(5,6) by (simp add: i32_id in_i32_def)
  have m: "0 \<le> ?r mod (hi - lo + 1)" "?r mod (hi - lo + 1) < hi - lo + 1"
    using assms(5) pos_mod_bound [of "hi - lo + 1" ?r] by simp_all
  then have "i32 (?r mod (hi - lo + 1) + lo) = ?r mod (hi - lo + 1) + lo"
    using assms(3,4) by (intro i32_id) (simp add: in_i32_def)
  moreover have "?r smod (hi - lo + 1) = ?r mod (hi - lo + 1)"
    using rand_int32_bounds [OF assms(1,2), of "rg_initial g"] assms(5) by (simp add: smod_nonneg)
  ultimately show ?thesis
    using assms(5) unfolding int32_range_def Let_def by (simp add: span case_prod_unfold add.commute [of lo])
qed

lemma int32_range_ok:
  assumes "rand_law env" and "re_RAND_MAX env \<le> GLOBAL_RAND_MAX" and "in_i32 lo" and "in_i32 hi"
    and "hi - lo < 2147483647"
  shows "\<exists>v g'. int32_range env lo hi g = Inr (v, g') \<and> lo \<le> v \<and> v \<le> max lo hi \<and>
      (hi < lo \<longrightarrow> 0 < rg_errors g') \<and> (\<exists>r. 0 \<le> r \<and> r \<le> GLOBAL_RAND_MAX \<and> v = lo + r mod (max lo hi - lo + 1))"
proof -
  have errors: "rg_errors g \<le> rg_errors (snd (rand_int32 env g))" for g
    by (simp add: rand_int32_def rg_rand_def rg_err_def rg_initial_def Let_def)
  show ?thesis
  proof (cases "hi < lo")
    case False
    let ?r = "fst (rand_int32 env (rg_initial g))"
    have "0 \<le> ?r mod (hi - lo + 1)" "?r mod (hi - lo + 1) < hi - lo + 1"
      using False pos_mod_bound [of "hi - lo + 1" ?r] by simp_all
    then show ?thesis
      using False int32_range_value [OF assms(1-4) _ assms(5), of g]
        rand_int32_bounds [OF assms(1,2), of "rg_initial g"]
      by (intro exI [of _ "lo + ?r mod (hi - lo + 1)"]) (auto simp: max_def)
  next
    case True
    let ?g = "rg_err (rg_initial g)"
    have "int32_range env lo hi g = Inr (i32 (fst (rand_int32 env ?g) smod 1 + lo), snd (rand_int32 env ?g))"
      using True by (simp add: int32_range_def Let_def case_prod_unfold i32_id in_i32_def)
    moreover have "fst (rand_int32 env ?g) smod 1 = 0"
      using rand_int32_bounds [OF assms(1,2), of ?g] by (simp add: smod_nonneg)
    moreover have "0 < rg_errors (snd (rand_int32 env ?g))"
      using errors [of ?g] by (simp add: rg_err_def)
    ultimately show ?thesis using True assms(3) by (auto simp: i32_id GLOBAL_RAND_MAX_def intro!: exI [of _ 0])
  qed
qed

text \<open>
  On both platforms the code knows, int32_range returns a value between its bounds, namely
  the next random number reduced to the width of the range, provided the width fits in an int;
  reversed bounds give the lower one and are reported. For the full range of int the width
  wraps to zero and the call divides by zero.
\<close>

lemma int32_range_bounds:
  assumes "rand_law env" and "re_RAND_MAX env \<le> GLOBAL_RAND_MAX" and "in_i32 lo" and "in_i32 hi"
    and "hi - lo < 2147483647"
  shows "\<exists>v g'. int32_range env lo hi g = Inr (v, g') \<and> lo \<le> v \<and> v \<le> max lo hi \<and>
      (hi < lo \<longrightarrow> 0 < rg_errors g') \<and> (\<exists>r. 0 \<le> r \<and> r \<le> GLOBAL_RAND_MAX \<and> v = lo + r mod (max lo hi - lo + 1)) \<and>
    int32_range env (- 2147483648) 2147483647 g = Inl Division_by_zero"
proof -
  have "int32_range env (- 2147483648) 2147483647 g = Inl Division_by_zero"
    by (simp add: int32_range_def Let_def case_prod_unfold i32_def)
  then show ?thesis using int32_range_ok [OF assms, of g] by blast
qed

text \<open>A stream for the witnesses: it counts.\<close>

definition demo_rand :: rand_env where
  "demo_rand = \<lparr>re_rand = (\<lambda>n. int n mod 2147483648), re_RAND_MAX = 2147483647\<rparr>"

definition demo_rng :: rng where
  "demo_rng = \<lparr>rg_initial_flag = False, rg_srands = 0, rg_calls = 0, rg_errors = 0\<rparr>"

lemma demo_rand_law: "rand_law demo_rand" "re_RAND_MAX demo_rand = GLOBAL_RAND_MAX"
proof -
  have "int n mod 2147483648 \<le> 2147483647" for n using pos_mod_bound [of 2147483648 "int n"] by simp
  then show "rand_law demo_rand" by (simp add: rand_law_def demo_rand_def)
qed (simp add: demo_rand_def GLOBAL_RAND_MAX_def)

lemma int32_range_bounds_witness:
  "\<exists>v g'. int32_range demo_rand 1 10000 demo_rng = Inr (v, g') \<and> 1 \<le> v \<and> v \<le> 10000"
  using int32_range_bounds [OF demo_rand_law(1), of 1 10000 demo_rng] demo_rand_law(2)
  by (auto simp: in_i32_def)

section \<open>The shuffle\<close>

lemma mset_list_swap: "i < length xs \<Longrightarrow> j < length xs \<Longrightarrow> mset (list_swap i j xs) = mset xs"
  by (auto simp: list_swap_def mset_update nth_list_update Let_def)

lemma list_swap_length [simp]: "length (list_swap i j xs) = length xs"
  by (simp add: list_swap_def Let_def)

lemma list_swap_take_drop:
  assumes "i < n" and "j < n" and "n \<le> length xs"
  shows "take n (list_swap i j xs) = list_swap i j (take n xs)" and "drop n (list_swap i j xs) = drop n xs"
  using assms by (simp_all add: list_swap_def Let_def take_update_swap drop_update_cancel)

lemma arrange_from_ok:
  assumes "rand_law env" and "re_RAND_MAX env \<le> GLOBAL_RAND_MAX" and "0 < sz" and "sz < 2147483648"
    and "nat sz \<le> length buf" and "\<forall>i \<in> set ks. i < nat sz"
  shows "\<exists>buf' g'. arrange_from env sz ks buf g = Inr (buf', g') \<and>
    mset (take (nat sz) buf') = mset (take (nat sz) buf) \<and> drop (nat sz) buf' = drop (nat sz) buf \<and>
    length buf' = length buf"
  using assms(5,6)
proof (induction ks arbitrary: buf g)
  case (Cons i ks)
  obtain v g1 where v: "int32_range env 0 (sz - 1) g = Inr (v, g1)" "0 \<le> v" "v \<le> sz - 1"
    using int32_range_ok [OF assms(1,2), of 0 "sz - 1" g] assms(3,4) by (auto simp: in_i32_def max_def)
  define j where "j = nat v"
  have j: "nat (v smod sz) = j" "j < nat sz" using v(2,3) assms(3) by (simp_all add: smod_nonneg j_def)
  have i: "i < nat sz" using Cons.prems by simp
  obtain buf' g' where rec: "arrange_from env sz ks (list_swap i j buf) g1 = Inr (buf', g')"
    "mset (take (nat sz) buf') = mset (take (nat sz) (list_swap i j buf))"
    "drop (nat sz) buf' = drop (nat sz) (list_swap i j buf)" "length buf' = length buf"
    using Cons.IH [of "list_swap i j buf" g1] Cons.prems by auto
  moreover have "mset (take (nat sz) (list_swap i j buf)) = mset (take (nat sz) buf)"
    using i j Cons.prems by (simp add: list_swap_take_drop mset_list_swap)
  moreover have "drop (nat sz) (list_swap i j buf) = drop (nat sz) buf"
    using i j Cons.prems by (simp add: list_swap_take_drop)
  moreover have "arrange_from env sz (i # ks) buf g = arrange_from env sz ks (list_swap i j buf) g1"
    using v(1) j i Cons.prems by (simp add: Let_def)
  ultimately show ?case by auto
qed simp

text \<open>
  The shuffle of an array of at least the given size succeeds, permutes the elements of
  the given prefix and leaves the rest of the array alone.
\<close>

lemma arrange_permutes:
  assumes "rand_law env" and "re_RAND_MAX env \<le> GLOBAL_RAND_MAX" and "sz < 2147483648"
    and "nat sz \<le> length buf"
  shows "\<exists>buf' g'. arrange env buf sz g = Inr (buf', g') \<and>
    mset (take (nat sz) buf') = mset (take (nat sz) buf) \<and> drop (nat sz) buf' = drop (nat sz) buf \<and>
    length buf' = length buf"
proof (cases "0 < sz")
  case True
  show ?thesis
    using arrange_from_ok [OF assms(1,2) True assms(3,4), of "[0..<nat sz]" g] True by (simp add: arrange_def)
qed (simp add: arrange_def)

lemma arrange_permutes_witness:
  "\<exists>buf' g'. arrange demo_rand ''abcd'' 3 demo_rng = Inr (buf', g') \<and> mset (take 3 buf') = mset ''abc'' \<and>
     drop 3 buf' = ''d''"
  using arrange_permutes [OF demo_rand_law(1), of 3 "''abcd''" demo_rng] demo_rand_law(2) by auto

section \<open>Distinct values\<close>

lemma unique_slot_mono: "unique_slot f env lo hi i buf g = Some r \<Longrightarrow> f \<le> f' \<Longrightarrow> unique_slot f' env lo hi i buf g = Some r"
proof (induction f arbitrary: f' buf g)
  case (Suc f)
  obtain f1 where f': "f' = Suc f1" "f \<le> f1" using Suc.prems(2) by (cases f') auto
  show ?case
  proof (cases "int32_range env lo hi g")
    case (Inr vg)
    then obtain v g1 where v: "int32_range env lo hi g = Inr (v, g1)" by (cases vg) simp
    then show ?thesis
      using Suc.prems(1) Suc.IH [of "buf[i := v]" g1 f1] f' by (auto simp: Let_def split: if_splits)
  qed (use Suc.prems(1) f' in \<open>auto split: if_splits\<close>)
qed simp

lemma unique_slot_ok:
  assumes "unique_slot f env lo hi i buf g = Some (Inr (buf', g'))"
    and range: "\<And>g v g'. int32_range env lo hi g = Inr (v, g') \<Longrightarrow> lo \<le> v \<and> v \<le> hi"
  shows "i < length buf \<and> length buf' = length buf \<and> take i buf' = take i buf \<and> drop (Suc i) buf' = drop (Suc i) buf \<and>
    buf' ! i \<notin> set (take i buf) \<and> lo \<le> buf' ! i \<and> buf' ! i \<le> hi"
  using assms(1)
proof (induction f arbitrary: buf g)
  case (Suc f)
  then have i: "i < length buf" by (auto split: if_splits)
  then obtain v g1 where v: "int32_range env lo hi g = Inr (v, g1)" using Suc.prems by (auto split: sum.splits)
  show ?case
  proof (cases "v \<in> set (take i buf)")
    case True
    then have "unique_slot f env lo hi i (buf[i := v]) g1 = Some (Inr (buf', g'))"
      using Suc.prems i v by (simp add: Let_def)
    from Suc.IH [OF this] show ?thesis by simp
  next
    case False
    then have "buf' = buf[i := v]" using Suc.prems i v by (simp add: Let_def)
    then show ?thesis using False i range [OF v] by simp
  qed
qed simp

text \<open>One draw on Linux, and a draw that is certain to come.\<close>

definition fair_rand :: "rand_env \<Rightarrow> int \<Rightarrow> bool" where
  "fair_rand env span \<longleftrightarrow> (\<forall>n v. 0 \<le> v \<and> v < span \<longrightarrow> (\<exists>m \<ge> n. re_rand env m mod span = v))"

lemma int32_range_linux:
  assumes "rand_law env" and "re_RAND_MAX env = GLOBAL_RAND_MAX" and "in_i32 lo" and "in_i32 hi"
    and "lo \<le> hi" and "hi - lo < 2147483647"
  shows "\<exists>g'. int32_range env lo hi g = Inr (lo + re_rand env (rg_calls g) mod (hi - lo + 1), g') \<and>
    rg_calls g' = Suc (rg_calls g)"
proof -
  have "rg_calls (rg_initial g) = rg_calls g" by (simp add: rg_initial_def)
  then show ?thesis
    using int32_range_value [OF assms(1) _ assms(3-6), of g] assms(2) by (simp add: rand_int32_linux)
qed

lemma unique_slot_finds:
  assumes env: "rand_law env" "re_RAND_MAX env = GLOBAL_RAND_MAX" "in_i32 lo" "in_i32 hi" "lo \<le> hi" "hi - lo < 2147483647"
    and fresh: "lo + v \<notin> set (take i buf)" and i: "i < length buf"
    and comes: "re_rand env (rg_calls g + k) mod (hi - lo + 1) = v"
  shows "\<exists>buf' g'. unique_slot (Suc k) env lo hi i buf g = Some (Inr (buf', g'))"
  using fresh i comes
proof (induction k arbitrary: buf g)
  case 0
  then show ?case using int32_range_linux [OF env, of g] by (auto simp: Let_def)
next
  case (Suc k)
  obtain g' where g': "int32_range env lo hi g = Inr (lo + re_rand env (rg_calls g) mod (hi - lo + 1), g')"
    "rg_calls g' = Suc (rg_calls g)"
    using int32_range_linux [OF env, of g] by blast
  let ?buf = "buf[i := lo + re_rand env (rg_calls g) mod (hi - lo + 1)]"
  have "\<exists>buf' g''. unique_slot (Suc k) env lo hi i ?buf g' = Some (Inr (buf', g''))"
    using Suc.prems g'(2) by (intro Suc.IH) simp_all
  then show ?case using Suc.prems(2) g'(1) by (auto simp: Let_def simp del: unique_slot.simps(2))
      (auto simp: Let_def)
qed

lemma fresh_value:
  assumes "length xs < nat (hi - lo + 1)"
  obtains v where "0 \<le> v" "v < hi - lo + 1" "lo + v \<notin> set xs"
proof -
  have "\<not> {lo..hi} \<subseteq> set xs"
  proof
    assume "{lo..hi} \<subseteq> set xs"
    then have "card {lo..hi} \<le> card (set xs)" by (intro card_mono) simp_all
    also have "\<dots> \<le> length xs" by (rule card_length)
    finally show False using assms by simp
  qed
  then obtain x where "lo \<le> x" "x \<le> hi" "x \<notin> set xs" by (meson atLeastAtMost_iff subsetI)
  then show thesis using that [of "x - lo"] by simp
qed

lemma unique_slots_ok:
  assumes env: "rand_law env" "re_RAND_MAX env = GLOBAL_RAND_MAX" "in_i32 lo" "in_i32 hi" "lo \<le> hi" "hi - lo < 2147483647"
    and fair: "fair_rand env (hi - lo + 1)" and n: "int n \<le> hi - lo + 1"
    and buf: "i \<le> n" "n \<le> length buf" "distinct (take i buf)" "set (take i buf) \<subseteq> {lo..hi}"
  shows "\<exists>F. \<forall>f \<ge> F. \<exists>buf' g'. unique_slots f env lo hi [i..<n] buf g = Some (Inr (buf', g')) \<and>
    distinct (take n buf') \<and> set (take n buf') \<subseteq> {lo..hi} \<and> drop n buf' = drop n buf \<and> length buf' = length buf"
  using buf
proof (induction "n - i" arbitrary: i buf g)
  case 0
  then show ?case by simp
next
  case (Suc k)
  have i: "i < n" "i < length buf" using Suc by simp_all
  have range: "lo \<le> v \<and> v \<le> hi" if "int32_range env lo hi g = Inr (v, g')" for g v g'
    using int32_range_ok [OF env(1) _ env(3,4,6), of g] env(2,5) that by auto
  obtain v where v: "0 \<le> v" "v < hi - lo + 1" "lo + v \<notin> set (take i buf)"
    by (rule fresh_value [of "take i buf" hi lo]) (use i n in auto)
  obtain m where "m \<ge> rg_calls g" "re_rand env m mod (hi - lo + 1) = v"
    using fair v by (auto simp: fair_rand_def)
  then have "re_rand env (rg_calls g + (m - rg_calls g)) mod (hi - lo + 1) = v" by simp
  from unique_slot_finds [OF env v(3) i(2) this]
  obtain f0 buf1 g1 where slot: "unique_slot f0 env lo hi i buf g = Some (Inr (buf1, g1))" by blast
  have ok: "i < length buf \<and> length buf1 = length buf \<and> take i buf1 = take i buf \<and>
      drop (Suc i) buf1 = drop (Suc i) buf \<and> buf1 ! i \<notin> set (take i buf) \<and> lo \<le> buf1 ! i \<and> buf1 ! i \<le> hi"
    by (rule unique_slot_ok [OF slot]) (rule range)
  have "i < length buf1" "take i buf1 = take i buf" using ok by simp_all
  then have take: "take (Suc i) buf1 = take i buf @ [buf1 ! i]" by (simp add: take_Suc_conv_app_nth)
  have prems: "k = n - Suc i" "Suc i \<le> n" "n \<le> length buf1" "distinct (take (Suc i) buf1)"
    "set (take (Suc i) buf1) \<subseteq> {lo..hi}"
    unfolding take using Suc.hyps(2) Suc.prems i ok by (simp_all del: take_update_cancel)
  obtain F where F: "\<forall>f \<ge> F. \<exists>buf' g'. unique_slots f env lo hi [Suc i..<n] buf1 g1 = Some (Inr (buf', g')) \<and>
      distinct (take n buf') \<and> set (take n buf') \<subseteq> {lo..hi} \<and> drop n buf' = drop n buf1 \<and> length buf' = length buf1"
    using Suc.hyps(1) [OF prems, of g1] by blast
  have drop: "drop n buf1 = drop n buf"
  proof -
    have "drop (n - Suc i) (drop (Suc i) buf1) = drop (n - Suc i) (drop (Suc i) buf)" using ok by simp
    then show ?thesis using i(1) by simp
  qed
  show ?case
  proof (intro exI [of _ "max F f0"] allI impI)
    fix f assume "max F f0 \<le> f"
    then have f: "unique_slot f env lo hi i buf g = Some (Inr (buf1, g1))" "F \<le> f"
      using unique_slot_mono [OF slot] by simp_all
    have "unique_slots f env lo hi [i..<n] buf g = unique_slots f env lo hi [Suc i..<n] buf1 g1"
      using i(1) f(1) by (simp add: upt_conv_Cons)
    then show "\<exists>buf' g'. unique_slots f env lo hi [i..<n] buf g = Some (Inr (buf', g')) \<and>
        distinct (take n buf') \<and> set (take n buf') \<subseteq> {lo..hi} \<and> drop n buf' = drop n buf \<and> length buf' = length buf"
      using F f(2) drop ok by auto
  qed
qed


lemma demo_rand_fair: "fair_rand demo_rand 3"
  unfolding fair_rand_def
proof (intro allI impI)
  fix n :: nat and v :: int
  assume v: "0 \<le> v \<and> v < 3"
  then obtain w where w: "v = int w" "w < 3" by (metis nonneg_int_cases of_nat_less_iff of_nat_numeral)
  have "re_rand demo_rand (2147483648 * n + w) mod 3 = v"
    using w by (simp add: demo_rand_def)
  moreover have "n \<le> 2147483648 * n + w" by simp
  ultimately show "\<exists>m \<ge> n. re_rand demo_rand m mod 3 = v" by blast
qed


end
