(* ===== verification/Xttime.thy ===== *)
theory Xttime
  imports Std_Map Istream
begin

text \<open>
  \<open>xttime.h\<close>: the clock in milliseconds, the strings of a broken-down time, and the two ways
  to do something only every so often (\<open>is_launchtime\<close>, and \<open>interval_checker\<close> with the
  keyed \<open>interval_manager\<close>). What \<open>ftime\<close>, \<open>localtime_r\<close> and the system clock return are
  arguments; times are \<open>int64\<close> milliseconds far from the bounds of that type.
\<close>

section \<open>Clock\<close>

record timeb =
  tb_time :: int
  tb_millitm :: int

definition getms :: "timeb \<Rightarrow> msec" where
  "getms tb = tb_time tb * 1000 + tb_millitm tb"

definition getus :: "timeb \<Rightarrow> int" where
  "getus tb = getms tb * 1000"

section \<open>Strings\<close>

datatype time_style = TIMESTYLE_FORMAL | TIMESTYLE_FILENAME | TIMESTYLE_DATE

record tm =
  tm_year :: int
  tm_mon :: int
  tm_mday :: int
  tm_hour :: int
  tm_min :: int
  tm_sec :: int

text \<open>\<open>boost::format\<close> with \<open>%0wd\<close>: the fill goes between the sign and the digits.\<close>

definition pad0 :: "nat \<Rightarrow> string \<Rightarrow> string" where
  "pad0 w s = replicate (w - length s) CHR ''0'' @ s"

definition format_0d :: "nat \<Rightarrow> int \<Rightarrow> string" where
  "format_0d w i = (if i < 0 then CHR ''-'' # pad0 (w - 1) (dec (nat (- i))) else pad0 w (dec (nat i)))"

text \<open>\<open>t\<close> is what \<open>localtime_r\<close> yields, \<open>None\<close> when it fails.\<close>

definition getTimeString :: "tm option \<Rightarrow> time_style \<Rightarrow> string" where
  "getTimeString t style =
     (case t of
        None \<Rightarrow> []
      | Some t \<Rightarrow>
          let y = format_0d 4 (i32 (tm_year t + 1900)); mo = format_0d 2 (i32 (tm_mon t + 1)); d = format_0d 2 (tm_mday t);
              h = format_0d 2 (tm_hour t); mi = format_0d 2 (tm_min t); s = format_0d 2 (tm_sec t)
          in case style of
               TIMESTYLE_FORMAL \<Rightarrow> y @ ''-'' @ mo @ ''-'' @ d @ '' '' @ h @ '':'' @ mi @ '':'' @ s
             | TIMESTYLE_FILENAME \<Rightarrow> y @ ''.'' @ mo @ ''.'' @ d @ ''.'' @ h @ ''.'' @ mi @ ''.'' @ s
             | TIMESTYLE_DATE \<Rightarrow> y @ ''-'' @ mo @ ''-'' @ d)"

text \<open>
  Both functions of the code build the string this way: one from a given time, which
  \<open>localtime\<close> breaks down, the other from the current time.
\<close>

definition getTimeStringBySpecifyTime :: "(int \<Rightarrow> tm option) \<Rightarrow> int \<Rightarrow> time_style \<Rightarrow> string" where
  "getTimeStringBySpecifyTime localtime timesec style = getTimeString (localtime timesec) style"

definition getLocalTimeString :: "(int \<Rightarrow> tm option) \<Rightarrow> int \<Rightarrow> time_style \<Rightarrow> string" where
  "getLocalTimeString localtime now style = getTimeString (localtime now) style"

text \<open>
  \<open>strftime\<close> yields the text it writes into the 64 bytes it is given, \<open>None\<close> when the text does
  not fit: the array then holds no string, and \<open>std::string(tmp)\<close> or \<open>atoi(tmp)\<close> reads past it.
  A failed \<open>localtime\<close> makes \<open>getCurrentTimeStr\<close> construct a string from 0.
\<close>

definition getCurrentTimeStr :: "(string \<Rightarrow> tm \<Rightarrow> string option) \<Rightarrow> tm option \<Rightarrow> string \<Rightarrow> failure + string" where
  "getCurrentTimeStr strftime t format =
     (case t of
        None \<Rightarrow> Inl Null_deref
      | Some t \<Rightarrow> (case strftime format t of None \<Rightarrow> Inl Out_of_bounds | Some tmp \<Rightarrow> Inr tmp))"

definition getTimeStringFormat :: "(string \<Rightarrow> tm \<Rightarrow> string option) \<Rightarrow> (int \<Rightarrow> tm option) \<Rightarrow> int \<Rightarrow> string \<Rightarrow> failure + string" where
  "getTimeStringFormat strftime localtime timesec format =
     (case localtime timesec of
        None \<Rightarrow> Inr []
      | Some t \<Rightarrow> (case strftime format t of None \<Rightarrow> Inl Out_of_bounds | Some tmp \<Rightarrow> Inr tmp))"

text \<open>\<open>atoi\<close> on text whose number fits an \<open>int\<close>.\<close>

definition atoi :: "string \<Rightarrow> int" where
  "atoi s = (let (neg, ds, _) = scan_numeral (dropWhile is_space s); v = int (digits_val ds) in if neg then - v else v)"

definition getLocalTimeFieldValue :: "(string \<Rightarrow> tm \<Rightarrow> string option) \<Rightarrow> tm option \<Rightarrow> string \<Rightarrow> failure + int" where
  "getLocalTimeFieldValue strftime t format =
     (case t of
        None \<Rightarrow> Inr 0
      | Some t \<Rightarrow> (case strftime format t of None \<Rightarrow> Inl Out_of_bounds | Some tmp \<Rightarrow> Inr (atoi tmp)))"

definition getDayOfMonth :: "(string \<Rightarrow> tm \<Rightarrow> string option) \<Rightarrow> tm option \<Rightarrow> failure + int" where
  "getDayOfMonth strftime t = getLocalTimeFieldValue strftime t ''%d''"

definition getDayOfYear :: "(string \<Rightarrow> tm \<Rightarrow> string option) \<Rightarrow> tm option \<Rightarrow> failure + int" where
  "getDayOfYear strftime t = getLocalTimeFieldValue strftime t ''%j''"

text \<open>A day of the month is read back from its two digits.\<close>

lemma atoi_two_digits:
  assumes "1 \<le> d" and "d \<le> 31"
  shows "atoi (format_0d 2 d) = d"
proof -
  have "\<forall>d \<in> set [1..31]. atoi (format_0d 2 d) = d" by code_simp
  then show ?thesis using assms by simp
qed

lemma getDayOfMonth_mday:
  assumes "strftime ''%d'' t = Some (format_0d 2 (tm_mday t))" and "1 \<le> tm_mday t" and "tm_mday t \<le> 31"
  shows "getDayOfMonth strftime (Some t) = Inr (tm_mday t)"
  using assms atoi_two_digits by (simp add: getDayOfMonth_def getLocalTimeFieldValue_def)

section \<open>is_launchtime\<close>

text \<open>The result and the new value of \<open>TS_CHECKOUT\<close>.\<close>

definition is_launchtime :: "msec \<Rightarrow> msec \<Rightarrow> msec \<Rightarrow> bool \<times> msec" where
  "is_launchtime checkout interval now =
     (let ts_last = checkout - interval; ts_next = checkout + interval in
      if now > ts_next then (True, now + interval)
      else if now > checkout then (True, ts_next)
      else if now > ts_last then (False, checkout)
      else (True, now + interval))"

section \<open>interval_checker and interval_manager\<close>

record interval_checker =
  ic_interval :: msec
  ic_last_time_ms :: msec

definition ic_default :: interval_checker where
  "ic_default = \<lparr>ic_interval = 0, ic_last_time_ms = 0\<rparr>"

definition ic_new :: "msec \<Rightarrow> msec \<Rightarrow> bool \<Rightarrow> interval_checker" where
  "ic_new clock interval available_at_once =
     \<lparr>ic_interval = interval, ic_last_time_ms = (if \<not> available_at_once then clock else 0)\<rparr>"

definition ic_check_and_update :: "msec \<Rightarrow> interval_checker \<Rightarrow> bool \<times> interval_checker" where
  "ic_check_and_update check_time c =
     (if ic_interval c \<le> check_time - ic_last_time_ms c
      then (True, c\<lparr>ic_last_time_ms := check_time\<rparr>) else (False, c))"

definition ic_check_and_update_now :: "timeb \<Rightarrow> interval_checker \<Rightarrow> bool \<times> interval_checker" where
  "ic_check_and_update_now tb c = ic_check_and_update (getms tb) c"

type_synonym 'k interval_manager = "('k, interval_checker) smap"

definition im_add_checker :: "msec \<Rightarrow> 'k::linorder \<Rightarrow> msec \<Rightarrow> bool \<Rightarrow> 'k interval_manager \<Rightarrow> 'k interval_manager" where
  "im_add_checker clock key interval available_at_once m =
     (if smap_find m key = None then smap_put key (ic_new clock interval available_at_once) m else m)"

definition im_check_and_update :: "'k::linorder \<Rightarrow> msec \<Rightarrow> 'k interval_manager \<Rightarrow> failure + (bool \<times> 'k interval_manager)" where
  "im_check_and_update key check_time m =
     (case smap_find m key of
        None \<Rightarrow> Inl Assert_failed
      | Some c \<Rightarrow> let (b, c) = ic_check_and_update check_time c in Inr (b, smap_put key c m))"

definition im_check_and_update_now :: "timeb \<Rightarrow> 'k::linorder \<Rightarrow> 'k interval_manager \<Rightarrow> failure + (bool \<times> 'k interval_manager)" where
  "im_check_and_update_now tb key m =
     (case smap_find m key of
        None \<Rightarrow> Inl Assert_failed
      | Some c \<Rightarrow> let (b, c) = ic_check_and_update_now tb c in Inr (b, smap_put key c m))"

lemma im_check_and_update_now: "im_check_and_update_now tb key m = im_check_and_update key (getms tb) m"
  by (simp add: im_check_and_update_now_def im_check_and_update_def ic_check_and_update_now_def split: option.split)

section \<open>Launches are spaced\<close>

fun launches :: "msec \<Rightarrow> msec \<Rightarrow> msec list \<Rightarrow> msec list" where
  "launches checkout interval [] = []"
| "launches checkout interval (now # nows) =
     (let (go, checkout) = is_launchtime checkout interval now
      in if go then now # launches checkout interval nows else launches checkout interval nows)"

lemma is_launchtime_forward:
  assumes "0 < interval" and "checkout - interval < now"
  shows "is_launchtime checkout interval now =
     (if checkout < now then (True, if checkout + interval < now then now + interval else checkout + interval)
      else (False, checkout))"
  using assms by (auto simp: is_launchtime_def Let_def)

text \<open>From a check after which the checkout lies ahead, launches come at most one per interval.\<close>

lemma launches_from:
  assumes "0 < interval" and "sorted_wrt (<) nows" and "\<forall>t \<in> set nows. checkout - interval < t \<and> t \<le> b"
  shows "launches checkout interval nows = [] \<or>
    checkout + (int (length (launches checkout interval nows)) - 1) * interval < b"
  using assms(2,3)
proof (induction nows arbitrary: checkout)
  case (Cons now nows)
  note step = is_launchtime_forward [OF assms(1), of checkout now]
  show ?case
  proof (cases "checkout < now")
    case False
    then have "launches checkout interval (now # nows) = launches checkout interval nows"
      using step Cons.prems by simp
    then show ?thesis using Cons by simp
  next
    case True
    define c where "c = (if checkout + interval < now then now + interval else checkout + interval)"
    have c: "checkout + interval \<le> c" "c \<le> now + interval" using True assms(1) by (simp_all add: c_def)
    have eq: "launches checkout interval (now # nows) = now # launches c interval nows"
      using step Cons.prems True by (simp add: c_def)
    have IH: "launches c interval nows = [] \<or> c + (int (length (launches c interval nows)) - 1) * interval < b"
      using Cons.prems c(2) by (intro Cons.IH) auto
    show ?thesis
    proof (cases "launches c interval nows = []")
      case True
      then show ?thesis using eq \<open>checkout < now\<close> Cons.prems(2) by auto
    next
      case False
      then have "c + (int (length (launches c interval nows)) - 1) * interval < b" using IH by simp
      then show ?thesis using eq c(1) by (simp add: algebra_simps)
    qed
  qed
qed simp

text \<open>
  Checks at strictly increasing times from \<open>a\<close> to \<open>b\<close>, none of them more than an interval
  before the checkout time, launch fewer than two more times than whole intervals fit between
  them. The times have to increase strictly: after a launch that came late, a second check in
  the same millisecond launches again.
\<close>

lemma is_launchtime_rate:
  assumes "0 < interval" and "sorted_wrt (<) nows" and "\<forall>t \<in> set nows. checkout - interval < t \<and> a \<le> t \<and> t \<le> b"
  shows "(int (length (launches checkout interval nows)) - 2) * interval < max 1 (b - a) \<and>
    (checkout + interval < a \<longrightarrow> launches checkout interval [a, a] = [a, a])"
proof -
  have "launches checkout interval [a, a] = [a, a]" if "checkout + interval < a"
    using that assms(1) by (simp add: is_launchtime_def Let_def)
  moreover have "(int (length (launches checkout interval nows)) - 2) * interval < max 1 (b - a)"
    using assms(2,3)
  proof (induction nows arbitrary: checkout)
    case Nil
    then show ?case using assms(1) by (simp add: max_def)
  next
    case (Cons now nows)
    note step = is_launchtime_forward [OF assms(1), of checkout now]
    show ?case
    proof (cases "checkout < now")
      case False
      then show ?thesis using step Cons by simp
    next
      case True
      define c where "c = (if checkout + interval < now then now + interval else checkout + interval)"
      have c: "now \<le> c" "c \<le> now + interval" using True assms(1) by (simp_all add: c_def)
      have eq: "launches checkout interval (now # nows) = now # launches c interval nows"
        using step Cons.prems True by (simp add: c_def)
      have "launches c interval nows = [] \<or> c + (int (length (launches c interval nows)) - 1) * interval < b"
        using Cons.prems c(2) by (intro launches_from [OF assms(1)]) auto
      then show ?thesis
      proof
        assume "launches c interval nows = []"
        then show ?thesis using eq assms(1) by (simp add: max_def)
      next
        assume "c + (int (length (launches c interval nows)) - 1) * interval < b"
        then show ?thesis using eq c(1) Cons.prems(2) by (auto simp: max_def)
      qed
    qed
  qed
  ultimately show ?thesis by blast
qed

lemma is_launchtime_rate_witness:
  "(int (length (launches 100 10 [105, 111, 112, 121, 140])) - 2) * 10 < 35 \<and> launches 100 10 [111, 111] = [111, 111]"
  using is_launchtime_rate [of 10 "[105, 111, 112, 121, 140]" 100 105 140] is_launchtime_rate [of 10 "[]" 100 111 111]
  by simp

section \<open>Times of a checker\<close>

fun ic_accepted :: "msec list \<Rightarrow> interval_checker \<Rightarrow> msec list" where
  "ic_accepted [] c = []"
| "ic_accepted (t # ts) c =
     (let (go, c) = ic_check_and_update t c in if go then t # ic_accepted ts c else ic_accepted ts c)"

lemma ic_accepted_spaced:
  "\<forall>(s, t) \<in> set (zip (ic_last_time_ms c # ic_accepted ts c) (ic_accepted ts c)). ic_interval c \<le> t - s"
proof (induction ts arbitrary: c)
  case (Cons a ts)
  show ?case
  proof (cases "ic_interval c \<le> a - ic_last_time_ms c")
    case True
    then show ?thesis using Cons [of "c\<lparr>ic_last_time_ms := a\<rparr>"] by (simp add: ic_check_and_update_def)
  qed (use Cons [of c] in \<open>simp add: ic_check_and_update_def\<close>)
qed simp

text \<open>
  A registered key is let through at times that are at least its interval apart, an
  unregistered one throws, and checking a key affects no other; registering a key again keeps
  the old checker.
\<close>

lemma interval_manager_checks:
  assumes "smap_ok m"
  shows "(smap_find m key = None \<longrightarrow> im_check_and_update key t m = Inl Assert_failed) \<and>
    (\<forall>c. smap_find m key = Some c \<longrightarrow>
       im_add_checker clock key i av m = m \<and>
       (\<exists>m'. im_check_and_update key t m = Inr (ic_interval c \<le> t - ic_last_time_ms c, m') \<and> smap_ok m' \<and>
          (\<forall>k. k \<noteq> key \<longrightarrow> smap_find m' k = smap_find m k) \<and>
          smap_find m' key = Some (c\<lparr>ic_last_time_ms := if ic_interval c \<le> t - ic_last_time_ms c then t else ic_last_time_ms c\<rparr>)) \<and>
       (\<forall>(r, s) \<in> set (zip (ic_accepted ts c) (tl (ic_accepted ts c))). ic_interval c \<le> s - r))"
proof -
  have tl: "(\<forall>(r, s) \<in> set (zip xs (tl xs)). Q r s)" if "\<forall>(r, s) \<in> set (zip (x # xs) xs). Q r s"
    for Q and x :: msec and xs
    using that by (cases xs) auto
  show ?thesis
    using tl [OF ic_accepted_spaced] sm.ok_put [OF assms]
    by (auto simp: im_check_and_update_def im_add_checker_def ic_check_and_update_def smap_find_put)
qed

lemma interval_manager_checks_witness:
  "\<exists>m'. im_check_and_update (3::nat) 50 [(3, \<lparr>ic_interval = 10, ic_last_time_ms = 40\<rparr>)] = Inr (True, m')"
  using interval_manager_checks [of "[(3::nat, \<lparr>ic_interval = 10, ic_last_time_ms = 40\<rparr>)]" 3 50 0 0 False "[]"]
  by (auto simp: smap_ok_Cons smap_keys_def)

end
