(* ===== verification/Host.thy ===== *)
theory Host
  imports Istream
begin

text \<open>
  \<open>xmisc.h\<close> with \<open>xmisc.cpp\<close> (files, byte order, addresses of the host) and \<open>type.h\<close> with
  \<open>type.cpp\<close> (the limits of the basic types). What the system calls return is an argument.
\<close>

section \<open>Limits of the basic types\<close>

unbundle bit_operations_syntax

definition int8_max :: "8 word" where "int8_max = 0x07f"
definition int8_min :: "8 word" where "int8_min = - 128"
definition int16_max :: "16 word" where "int16_max = 0x07fff"
definition int16_min :: "16 word" where "int16_min = - 32768"
definition int32_max :: "32 word" where "int32_max = 0x07fffffff"
definition int32_min :: "32 word" where "int32_min = 0x080000000"
definition int64_max :: "64 word" where "int64_max = 0x07fffffffffffffff"
definition int64_min :: "64 word" where "int64_min = 0x08000000000000000"

definition uint8_max :: "8 word" where "uint8_max = NOT 0"
definition uint8_min :: "8 word" where "uint8_min = 0"
definition uint16_max :: "16 word" where "uint16_max = NOT 0"
definition uint16_min :: "16 word" where "uint16_min = 0"
definition uint32_max :: "32 word" where "uint32_max = NOT 0"
definition uint32_min :: "32 word" where "uint32_min = 0"
definition uint64_max :: "64 word" where "uint64_max = NOT 0"
definition uint64_min :: "64 word" where "uint64_min = 0"

text \<open>The specializations of \<open>type<T>\<close>; \<open>true\<close> is 1, and those of the floating types are 0.\<close>

datatype basic_type =
    T_bool | T_float32 | T_float64 | T_int8 | T_int16 | T_int32 | T_int64
  | T_uint8 | T_uint16 | T_uint32 | T_uint64

fun type_name :: "basic_type \<Rightarrow> string" where
  "type_name T_bool = ''bool''"
| "type_name T_float32 = ''float32''"
| "type_name T_float64 = ''float64''"
| "type_name T_int8 = ''int8''"
| "type_name T_int16 = ''int16''"
| "type_name T_int32 = ''int32''"
| "type_name T_int64 = ''int64''"
| "type_name T_uint8 = ''uint8''"
| "type_name T_uint16 = ''uint16''"
| "type_name T_uint32 = ''uint32''"
| "type_name T_uint64 = ''uint64''"

fun type_min_v :: "basic_type \<Rightarrow> int" where
  "type_min_v T_bool = of_bool (if False < True then False else True)"
| "type_min_v T_float32 = 0"
| "type_min_v T_float64 = 0"
| "type_min_v T_int8 = sint int8_min"
| "type_min_v T_int16 = sint int16_min"
| "type_min_v T_int32 = sint int32_min"
| "type_min_v T_int64 = sint int64_min"
| "type_min_v T_uint8 = uint uint8_min"
| "type_min_v T_uint16 = uint uint16_min"
| "type_min_v T_uint32 = uint uint32_min"
| "type_min_v T_uint64 = uint uint64_min"

fun type_max_v :: "basic_type \<Rightarrow> int" where
  "type_max_v T_bool = of_bool (if False < True then True else False)"
| "type_max_v T_float32 = 0"
| "type_max_v T_float64 = 0"
| "type_max_v T_int8 = sint int8_max"
| "type_max_v T_int16 = sint int16_max"
| "type_max_v T_int32 = sint int32_max"
| "type_max_v T_int64 = sint int64_max"
| "type_max_v T_uint8 = uint uint8_max"
| "type_max_v T_uint16 = uint uint16_max"
| "type_max_v T_uint32 = uint uint32_max"
| "type_max_v T_uint64 = uint uint64_max"

definition NO_IDX :: int where "NO_IDX = - 1"
definition NO_POS :: int where "NO_POS = - 1"

text \<open>
  Every value of an integer type lies between the limits of the type.
\<close>

lemma type_limits:
  "sint (a :: 8 word) \<in> {type_min_v T_int8 .. type_max_v T_int8}" "sint (b :: 16 word) \<in> {type_min_v T_int16 .. type_max_v T_int16}"
  "sint (c :: 32 word) \<in> {type_min_v T_int32 .. type_max_v T_int32}" "sint (d :: 64 word) \<in> {type_min_v T_int64 .. type_max_v T_int64}"
  "uint a \<in> {type_min_v T_uint8 .. type_max_v T_uint8}" "uint b \<in> {type_min_v T_uint16 .. type_max_v T_uint16}"
  "uint c \<in> {type_min_v T_uint32 .. type_max_v T_uint32}" "uint d \<in> {type_min_v T_uint64 .. type_max_v T_uint64}"
proof -
  have s: "sint int8_min = - 128" "sint int8_max = 127" "sint int16_min = - 32768" "sint int16_max = 32767"
    "sint int32_min = - 2147483648" "sint int32_max = 2147483647"
    "sint int64_min = - 9223372036854775808" "sint int64_max = 9223372036854775807"
    by (simp_all add: int8_min_def int8_max_def int16_min_def int16_max_def int32_min_def int32_max_def
        int64_min_def int64_max_def)
  have u: "uint uint8_max = 255" "uint uint16_max = 65535" "uint uint32_max = 4294967295" "uint uint64_max = 18446744073709551615"
    by (simp_all add: uint8_max_def uint16_max_def uint32_max_def uint64_max_def unsigned_minus_1_eq_mask mask_eq_exp_minus_1)
  show "sint a \<in> {type_min_v T_int8 .. type_max_v T_int8}" "sint b \<in> {type_min_v T_int16 .. type_max_v T_int16}"
    "sint c \<in> {type_min_v T_int32 .. type_max_v T_int32}" "sint d \<in> {type_min_v T_int64 .. type_max_v T_int64}"
    using sint_range_size [of a] sint_range_size [of b] sint_range_size [of c] sint_range_size [of d]
    by (simp_all add: s word_size)
  show "uint a \<in> {type_min_v T_uint8 .. type_max_v T_uint8}" "uint b \<in> {type_min_v T_uint16 .. type_max_v T_uint16}"
    "uint c \<in> {type_min_v T_uint32 .. type_max_v T_uint32}" "uint d \<in> {type_min_v T_uint64 .. type_max_v T_uint64}"
    using uint_lt2p [of a] uint_lt2p [of b] uint_lt2p [of c] uint_lt2p [of d]
    by (simp_all add: u uint8_min_def uint16_min_def uint32_min_def uint64_min_def)
qed

lemma type_name_inj: "type_name s = type_name t \<longleftrightarrow> s = t"
  by (cases s; cases t) simp_all

section \<open>Files\<close>

record file_stat =
  st_mtime :: int
  st_size :: int
  st_atime :: int
  st_ctime :: int

text \<open>\<open>stat\<close> is the system call: \<open>None\<close> when it does not return 0, else what it fills in.\<close>

definition get_file_stat :: "(string \<Rightarrow> file_stat option) \<Rightarrow> string \<Rightarrow> bool \<times> file_stat option" where
  "get_file_stat stat path = (let ret = stat path in (ret \<noteq> None, ret))"

definition get_file_modify_time :: "(string \<Rightarrow> file_stat option) \<Rightarrow> string \<Rightarrow> int" where
  "get_file_modify_time stat path =
     (case get_file_stat stat path of (True, Some buf) \<Rightarrow> st_mtime buf | _ \<Rightarrow> 0)"

definition get_file_size :: "(string \<Rightarrow> file_stat option) \<Rightarrow> string \<Rightarrow> int" where
  "get_file_size stat path =
     (case get_file_stat stat path of (True, Some buf) \<Rightarrow> st_size buf | _ \<Rightarrow> 0)"

definition get_file_access_time :: "(string \<Rightarrow> file_stat option) \<Rightarrow> string \<Rightarrow> int" where
  "get_file_access_time stat path =
     (case get_file_stat stat path of (True, Some buf) \<Rightarrow> st_atime buf | _ \<Rightarrow> 0)"

definition get_file_state_change_time :: "(string \<Rightarrow> file_stat option) \<Rightarrow> string \<Rightarrow> int" where
  "get_file_state_change_time stat path =
     (case get_file_stat stat path of (True, Some buf) \<Rightarrow> st_ctime buf | _ \<Rightarrow> 0)"

definition remove_file :: "(string \<Rightarrow> int) \<Rightarrow> string \<Rightarrow> bool" where
  "remove_file remove filename = (let ret = remove filename in if ret = 0 then True else False)"

text \<open>A file that is missing cannot be told from one that is empty.\<close>

lemma file_size_missing: "stat path = None \<Longrightarrow> get_file_size stat path = get_file_size (\<lambda>_. Some (buf\<lparr>st_size := 0\<rparr>)) path"
  by (simp add: get_file_size_def get_file_stat_def)

section \<open>Byte order\<close>

text \<open>\<open>layout\<close> gives the bytes of an \<open>int\<close> in the order of their addresses.\<close>

definition verify_judge_little_endian :: "(32 word \<Rightarrow> 8 word list) \<Rightarrow> bool" where
  "verify_judge_little_endian layout = (let i = 1; b = layout i in hd b = 1)"

definition int_bytes :: "32 word \<Rightarrow> 8 word list" where
  "int_bytes w = map (\<lambda>k. ucast (drop_bit (8 * k) w)) [0, 1, 2, 3]"

text \<open>The flag tells the two byte orders apart.\<close>

lemma little_endian_decides:
  "verify_judge_little_endian int_bytes" "\<not> verify_judge_little_endian (rev \<circ> int_bytes)"
  by (simp_all add: verify_judge_little_endian_def int_bytes_def)

section \<open>Addresses of the host\<close>

text \<open>
  The loop counts the interfaces down. \<open>addr k\<close> is the address of interface \<open>k\<close> as text, \<open>None\<close>
  when the call for it fails.
\<close>

fun local_ip_loop :: "(nat \<Rightarrow> string option) \<Rightarrow> nat \<Rightarrow> string list \<Rightarrow> string list" where
  "local_ip_loop addr 0 ips = ips"
| "local_ip_loop addr (Suc intrface) ips =
     local_ip_loop addr intrface
       (case addr intrface of
          None \<Rightarrow> ips
        | Some strIp \<Rightarrow> if strIp \<noteq> ''127.0.0.1'' then ips @ [strIp] else ips)"

text \<open>\<open>fd\<close> is the socket, \<open>conf\<close> the length the kernel fills in, \<open>None\<close> when the call fails.\<close>

definition get_local_ip_strs :: "int \<Rightarrow> nat option \<Rightarrow> nat \<Rightarrow> (nat \<Rightarrow> string option) \<Rightarrow> string list \<Rightarrow> string list" where
  "get_local_ip_strs fd conf sizeof_ifreq addr ips =
     (if fd < 0 then ips
      else case conf of
             None \<Rightarrow> ips
           | Some ifc_len \<Rightarrow> let intrface = ifc_len div sizeof_ifreq in local_ip_loop addr intrface ips)"

lemma local_ip_loop_eq:
  "local_ip_loop addr n ips =
     ips @ rev (filter (\<lambda>s. s \<noteq> ''127.0.0.1'') (concat (map (\<lambda>k. case addr k of None \<Rightarrow> [] | Some s \<Rightarrow> [s]) [0..<n])))"
  by (induction n arbitrary: ips) (auto split: option.splits)

text \<open>What is added are the addresses of the interfaces, the last first, without the loopback.\<close>

lemma get_local_ip_strs_adds:
  assumes "0 \<le> fd" and "conf = Some (n * sizeof_ifreq)" and "0 < sizeof_ifreq"
  shows "\<exists>new. get_local_ip_strs fd conf sizeof_ifreq addr ips = ips @ new \<and>
    set new = {s. s \<noteq> ''127.0.0.1'' \<and> (\<exists>k < n. addr k = Some s)}"
proof -
  have "set (concat (map (\<lambda>k. case addr k of None \<Rightarrow> [] | Some s \<Rightarrow> [s]) [0..<n])) = {s. \<exists>k < n. addr k = Some s}"
    by (force split: option.splits)
  then show ?thesis using assms by (auto simp: get_local_ip_strs_def local_ip_loop_eq)
qed

end
